(* ===== verification/Prelude.thy ===== *)
theory Prelude
  imports Main "HOL-Library.Word" "HOL-Library.Multiset" "HOL-Library.Signed_Division"
    "HOL-Library.Char_ord" "HOL-Library.List_Lexorder"
begin

text \<open>
  Shared vocabulary of the development: Go's clock arithmetic, integer division,
  decimal printing and parsing, stable sorting by a comparison function, and the lemmas on
  lists and maps that several components use.

  Conventions. A Go function that can panic returns an \<open>option\<close>, where \<open>None\<close> is the
  panic; a Go \<open>error\<close> result is the left of a sum. Go's \<open>int\<close>, a 64-bit integer, is
  \<open>int\<close> for counts and lengths, which stay far below its bounds; integers that are cut
  to a smaller width (\<open>int16\<close>, \<open>int32\<close>, \<open>uint64\<close>) are words.
\<close>

named_theorems go_time \<open>clock arithmetic\<close>
named_theorems panic_free \<open>facts that an operation returns without a panic\<close>

section \<open>Time\<close>

text \<open>
  A \<open>time.Time\<close> is the number of nanoseconds since Go's zero time (1 January of year 1,
  UTC), so \<open>time.Time{}\<close> is 0; a \<open>time.Duration\<close> is a number of nanoseconds.
\<close>

type_synonym time = int
type_synonym duration = int

definition second :: duration where "second = 1000000000"
definition minute :: duration where "minute = 60 * second"
definition hour :: duration where "hour = 60 * minute"
definition max_duration :: duration where "max_duration = 2 ^ 63 - 1"
definition min_duration :: duration where "min_duration = - (2 ^ 63)"

definition epoch_seconds :: int where "epoch_seconds = 62135596800"

definition unix :: "time \<Rightarrow> int" where
  "unix t = t div second - epoch_seconds"

definition unix_nano :: "time \<Rightarrow> int" where
  "unix_nano t = t - epoch_seconds * second"

definition is_zero :: "time \<Rightarrow> bool" where
  "is_zero t \<longleftrightarrow> t = 0"

text \<open>\<open>t.Sub(u)\<close> saturates at the bounds of a \<open>Duration\<close>.\<close>

definition time_sub :: "time \<Rightarrow> time \<Rightarrow> duration" where
  "time_sub t u = max min_duration (min max_duration (t - u))"

text \<open>\<open>t.Truncate(d)\<close> and \<open>t.Round(d)\<close> work on the time since the zero time.\<close>

definition time_truncate :: "time \<Rightarrow> duration \<Rightarrow> time" where
  "time_truncate t d = (if d \<le> 0 then t else t - t mod d)"

definition time_round :: "time \<Rightarrow> duration \<Rightarrow> time" where
  "time_round t d =
     (if d \<le> 0 then t else let r = t mod d in if r + r < d then t - r else t + (d - r))"

text \<open>\<open>Duration.Round\<close>: to the nearest multiple, halves away from zero, saturating.\<close>

definition duration_round :: "duration \<Rightarrow> duration \<Rightarrow> duration" where
  "duration_round d m =
     (if m \<le> 0 then d
      else let r = \<bar>d\<bar> mod m
           in if d < 0
              then (if r + r < m then d + r else max min_duration (d - m + r))
              else (if r + r < m then d - r else min max_duration (d + m - r)))"

text \<open>\<open>t.Hour()\<close> in a local zone that is \<open>zone\<close> ahead of UTC.\<close>

definition hour_of :: "duration \<Rightarrow> time \<Rightarrow> nat" where
  "hour_of zone t = nat ((t + zone) div hour mod 24)"

lemma hour_of_less [simp]: "hour_of zone t < 24"
  using pos_mod_bound [of 24 "(t + zone) div hour"] by (simp add: hour_of_def nat_less_iff)

lemmas time_units [go_time] = second_def minute_def hour_def

lemma minute_pos [simp]: "0 < minute" and hour_pos [simp]: "0 < hour"
  and second_pos [simp]: "0 < second"
  by (simp_all add: go_time)

lemma time_truncate_dvd [simp]: "0 < d \<Longrightarrow> d dvd time_truncate t d"
  by (simp add: time_truncate_def dvd_minus_mod)

lemma time_round_dvd [simp]: "0 < d \<Longrightarrow> d dvd time_round t d"
proof -
  assume d: "0 < d"
  have "d dvd t - t mod d" by (rule dvd_minus_mod)
  moreover have "t + (d - t mod d) = (t - t mod d) + d" by simp
  ultimately have "d dvd t + (d - t mod d)" by (metis dvd_add dvd_refl)
  with d \<open>d dvd t - t mod d\<close> show ?thesis by (simp add: time_round_def Let_def)
qed

lemma time_truncate_div: "0 < d \<Longrightarrow> time_truncate t d = (t div d) * d"
  by (simp add: time_truncate_def minus_mod_eq_div_mult)

lemma time_sub_exact:
  "min_duration \<le> t - u \<Longrightarrow> t - u \<le> max_duration \<Longrightarrow> time_sub t u = t - u"
  by (simp add: time_sub_def)

section \<open>Integers\<close>

text \<open>
  Go's \<open>/\<close> and \<open>%\<close> truncate towards zero: \<open>sdiv\<close> and \<open>smod\<close> of the library.
\<close>

lemma sdiv_nonneg: "0 \<le> a \<Longrightarrow> 0 < b \<Longrightarrow> (a::int) sdiv b = a div b"
  by (simp add: signed_divide_int_def sgn_if)

lemma smod_nonneg: "0 \<le> a \<Longrightarrow> 0 < b \<Longrightarrow> (a::int) smod b = a mod b"
  by (simp add: signed_modulo_int_def sgn_if)

lemma smod_abs_bound: "0 < b \<Longrightarrow> \<bar>(a::int) smod b\<bar> < b"
  by (simp add: signed_modulo_int_def abs_mult sgn_if)

lemma sint_word_of_int_small:
  "- (2 ^ 15) \<le> i \<Longrightarrow> i < 2 ^ 15 \<Longrightarrow> sint (word_of_int i :: 16 word) = i"
  by (simp add: sint_sbintrunc' signed_take_bit_int_eq_self)

section \<open>Decimal numerals\<close>

definition digit_char :: "nat \<Rightarrow> char" where
  "digit_char d = char_of (48 + d)"

definition char_digit :: "char \<Rightarrow> nat option" where
  "char_digit c = (let n = (of_char c :: nat) in if 48 \<le> n \<and> n \<le> 57 then Some (n - 48) else None)"

fun show_nat :: "nat \<Rightarrow> string" where
  "show_nat n = (if n < 10 then [digit_char n] else show_nat (n div 10) @ [digit_char (n mod 10)])"

declare show_nat.simps [simp del]

definition show_int :: "int \<Rightarrow> string" where
  "show_int i = (if i < 0 then CHR ''-'' # show_nat (nat (- i)) else show_nat (nat i))"

text \<open>The value of a string of decimal digits, \<open>None\<close> when another character occurs.\<close>

fun digits_value :: "nat \<Rightarrow> string \<Rightarrow> nat option" where
  "digits_value acc [] = Some acc"
| "digits_value acc (c # cs) =
     (case char_digit c of None \<Rightarrow> None | Some d \<Rightarrow> digits_value (10 * acc + d) cs)"

lemma char_digit_digit_char [simp]: "d < 10 \<Longrightarrow> char_digit (digit_char d) = Some d"
  by (simp add: char_digit_def digit_char_def Let_def)

lemma digit_char_neq:
  assumes "d < 10" and "char_digit c = None"
  shows "digit_char d \<noteq> c"
  using assms by auto

lemma show_nat_nonempty [simp]: "show_nat n \<noteq> []"
  by (subst show_nat.simps) simp

lemma show_nat_digits: "c \<in> set (show_nat n) \<Longrightarrow> \<exists>d < 10. c = digit_char d"
proof (induction n rule: show_nat.induct)
  case (1 n)
  show ?case
  proof (cases "n < 10")
    case True
    with "1.prems" show ?thesis by (auto simp: show_nat.simps [of n])
  next
    case False
    with "1.prems" have "c \<in> set (show_nat (n div 10)) \<or> c = digit_char (n mod 10)"
      by (auto simp: show_nat.simps [of n])
    with "1.IH" [OF False] show ?thesis by (metis mod_less_divisor zero_less_numeral)
  qed
qed

lemma show_nat_no_char: "char_digit c = None \<Longrightarrow> c \<notin> set (show_nat n)"
  using show_nat_digits by fastforce

lemma digits_value_append:
  "digits_value acc (xs @ ys) =
     (case digits_value acc xs of None \<Rightarrow> None | Some a \<Rightarrow> digits_value a ys)"
  by (induction acc xs rule: digits_value.induct) (auto split: option.splits)

lemma digits_value_show: "digits_value 0 (show_nat n) = Some n"
proof (induction n rule: show_nat.induct)
  case (1 n)
  show ?case
  proof (cases "n < 10")
    case True
    then show ?thesis by (simp add: show_nat.simps [of n])
  next
    case False
    with "1.IH" have "digits_value 0 (show_nat (n div 10)) = Some (n div 10)" by simp
    with False show ?thesis by (simp add: show_nat.simps [of n] digits_value_append)
  qed
qed

lemma show_nat_leading_zero: "show_nat n = CHR ''0'' # cs \<Longrightarrow> cs = []"
proof (induction n arbitrary: cs rule: show_nat.induct)
  case (1 n)
  show ?case
  proof (cases "n < 10")
    case True
    with "1.prems" show ?thesis by (simp add: show_nat.simps [of n])
  next
    case False
    with "1.prems" obtain ds where ds: "show_nat (n div 10) = CHR ''0'' # ds"
      by (cases "show_nat (n div 10)") (auto simp: show_nat.simps [of n])
    with "1.IH" [OF False] have "ds = []" by blast
    with ds have "digits_value 0 (show_nat (n div 10)) = Some 0"
      by (simp add: char_digit_def)
    with digits_value_show [of "n div 10"] False show ?thesis by simp
  qed
qed

section \<open>Strings\<close>

text \<open>Go strings are byte sequences; a \<open>char\<close> is a byte.\<close>

fun starts_with :: "string \<Rightarrow> string \<Rightarrow> bool" where
  "starts_with [] s = True"
| "starts_with (c # cs) [] = False"
| "starts_with (c # cs) (d # ds) = (c = d \<and> starts_with cs ds)"

text \<open>\<open>strings.Contains(s, sub)\<close>.\<close>

fun str_contains :: "string \<Rightarrow> string \<Rightarrow> bool" where
  "str_contains [] sub = (sub = [])"
| "str_contains (c # cs) sub = (starts_with sub (c # cs) \<or> str_contains cs sub)"

text \<open>The text before and after the first occurrence of a separator.\<close>

fun cut_first :: "string \<Rightarrow> string \<Rightarrow> (string \<times> string) option" where
  "cut_first sep [] = (if sep = [] then Some ([], []) else None)"
| "cut_first sep (c # cs) =
     (if starts_with sep (c # cs) then Some ([], drop (length sep) (c # cs))
      else map_option (\<lambda>(a, b). (c # a, b)) (cut_first sep cs))"

lemma cut_first_length:
  "cut_first sep s = Some (a, b) \<Longrightarrow> sep \<noteq> [] \<Longrightarrow> length b < length s"
  by (induction sep s arbitrary: a rule: cut_first.induct)
    (auto split: if_splits simp: length_greater_0_conv [symmetric] simp del: length_greater_0_conv)

text \<open>\<open>strings.Split(s, sep)\<close> for a separator that is not empty.\<close>

function str_split :: "string \<Rightarrow> string \<Rightarrow> string list" where
  "str_split sep s =
     (if sep = [] then [s] else
      case cut_first sep s of None \<Rightarrow> [s] | Some (a, b) \<Rightarrow> a # str_split sep b)"
  by pat_completeness auto
termination
  by (relation "measure (\<lambda>(sep, s). length s)") (auto dest: cut_first_length)

declare str_split.simps [simp del]

lemma starts_with_append [simp]: "starts_with sep (sep @ s)"
  by (induction sep) auto

lemma starts_with_subset: "starts_with sep s \<Longrightarrow> set sep \<subseteq> set s"
  by (induction sep s rule: starts_with.induct) auto

lemma cut_first_none: "c \<in> set sep \<Longrightarrow> c \<notin> set s \<Longrightarrow> cut_first sep s = None"
  by (induction s) (use starts_with_subset in fastforce)+

lemma cut_first_here: "c \<notin> set a \<Longrightarrow> cut_first (c # sep) (a @ (c # sep) @ b) = Some (a, b)"
  by (induction a) auto

lemma str_split_none: "c \<in> set sep \<Longrightarrow> c \<notin> set s \<Longrightarrow> str_split sep s = [s]"
  by (simp add: str_split.simps [of sep s] cut_first_none)

lemma str_split_here:
  "c \<notin> set a \<Longrightarrow> str_split (c # sep) (a @ (c # sep) @ b) = a # str_split (c # sep) b"
  by (subst str_split.simps) (simp add: cut_first_here del: append_Cons)

text \<open>\<open>strings.Trim\<close> with the bytes of a predicate, and the white space of \<open>strings.TrimSpace\<close> for ASCII.\<close>

definition trim :: "(char \<Rightarrow> bool) \<Rightarrow> string \<Rightarrow> string" where
  "trim P s = rev (dropWhile P (rev (dropWhile P s)))"

definition space :: "char \<Rightarrow> bool" where
  "space c \<longleftrightarrow> c \<in> {CHR '' '', CHR 0x09, CHR 0x0A, CHR 0x0B, CHR 0x0C, CHR 0x0D}"

lemma trim_id: "s = [] \<or> \<not> P (hd s) \<and> \<not> P (last s) \<Longrightarrow> trim P s = s"
proof -
  assume "s = [] \<or> \<not> P (hd s) \<and> \<not> P (last s)"
  then have "dropWhile P s = s" "dropWhile P (rev s) = rev s"
    by (auto simp: dropWhile_eq_self_iff hd_rev)
  then show ?thesis by (simp add: trim_def)
qed

text \<open>The text before and after the last occurrence of a byte.\<close>

definition cut_last :: "char \<Rightarrow> string \<Rightarrow> (string \<times> string) option" where
  "cut_last c s =
     (if c \<in> set s
      then Some (rev (tl (dropWhile (\<lambda>d. d \<noteq> c) (rev s))), rev (takeWhile (\<lambda>d. d \<noteq> c) (rev s)))
      else None)"

lemma cut_last_here:
  assumes "c \<notin> set b"
  shows "cut_last c (a @ c # b) = Some (a, b)"
proof -
  have "dropWhile (\<lambda>d. d \<noteq> c) (rev b @ c # rev a) = c # rev a"
    by (subst dropWhile_append2) (use assms in auto)
  moreover have "takeWhile (\<lambda>d. d \<noteq> c) (rev b @ c # rev a) = rev b"
    by (subst takeWhile_append2) (use assms in auto)
  ultimately show ?thesis by (simp add: cut_last_def)
qed

text \<open>\<open>strconv.ParseUint(s, 10, bits)\<close> and \<open>strconv.Atoi\<close>; \<open>None\<close> is the error.\<close>

definition parse_uint :: "nat \<Rightarrow> string \<Rightarrow> nat option" where
  "parse_uint bits s =
     (if s = [] then None else
      case digits_value 0 s of None \<Rightarrow> None | Some n \<Rightarrow> if n < 2 ^ bits then Some n else None)"

definition atoi :: "string \<Rightarrow> int option" where
  "atoi s =
     (let neg = (s \<noteq> [] \<and> hd s = CHR ''-''); plus = (s \<noteq> [] \<and> hd s = CHR ''+'');
          ds = (if neg \<or> plus then tl s else s)
      in if ds = [] then None else
         case digits_value 0 ds of
           None \<Rightarrow> None
         | Some n \<Rightarrow>
             (let i = (if neg then - int n else int n)
              in if - (2 ^ 63) \<le> i \<and> i < 2 ^ 63 then Some i else None))"

lemma parse_uint_show: "n < 2 ^ bits \<Longrightarrow> parse_uint bits (show_nat n) = Some n"
  by (simp add: parse_uint_def digits_value_show)

end
