(* ===== verification/Pmux.thy ===== *)
theory Pmux
  imports Prelude
begin

text \<open>
  The package \<open>pmux\<close>: a proxy is a \<open>uint64\<close> that packs an IPv4 address (32 bits), a port
  (16 bits) and a protocol (16 bits). Its fields, its text form and the parsing of that
  form, and the bucket (shard) it belongs to.
\<close>

unbundle bit_operations_syntax

type_synonym proto = "16 word"
type_synonym proxy = "64 word"

definition HTTP :: proto where "HTTP = 0"
definition HTTPS :: proto where "HTTPS = 1"
definition SOCKS4 :: proto where "SOCKS4 = 2"
definition SOCKS5 :: proto where "SOCKS5 = 3"

lemmas protos = HTTP_def HTTPS_def SOCKS4_def SOCKS5_def

definition protoMap :: "string \<rightharpoonup> proto" where
  "protoMap = map_of [(''http'', HTTP), (''https'', HTTPS), (''socks4'', SOCKS4), (''socks5'', SOCKS5)]"

definition reverseProtoMap :: "proto \<rightharpoonup> string" where
  "reverseProtoMap = map_of [(HTTP, ''http''), (HTTPS, ''https''), (SOCKS4, ''socks4''), (SOCKS5, ''socks5'')]"

section \<open>Fields\<close>

definition IP :: "proxy \<Rightarrow> 8 word list" where
  "IP p =
     (let ip = drop_bit 32 p;
          a = drop_bit 24 ip AND 0xff; b = drop_bit 16 ip AND 0xff;
          c = drop_bit 8 ip AND 0xff; d = ip AND 0xff
      in [ucast a, ucast b, ucast c, ucast d])"

definition Port :: "proxy \<Rightarrow> 16 word" where
  "Port p = ucast (drop_bit 16 p AND 0xffff)"

definition Proto :: "proxy \<Rightarrow> proto" where
  "Proto p = ucast (p AND 0xffff)"

definition AsHttp :: "proxy \<Rightarrow> proxy" where
  "AsHttp p =
     (let ip = push_bit 32 (drop_bit 32 p); port = push_bit 16 (ucast (Port p))
      in ip + port + ucast HTTP)"

definition AsHttps :: "proxy \<Rightarrow> proxy" where
  "AsHttps p =
     (let ip = push_bit 32 (drop_bit 32 p); port = push_bit 16 (ucast (Port p))
      in ip + port + ucast HTTPS)"

definition Valid :: "proxy \<Rightarrow> bool" where
  "Valid p \<longleftrightarrow> Port p \<noteq> 0"

definition IsTunnel :: "proxy \<Rightarrow> bool" where
  "IsTunnel p \<longleftrightarrow> Proto p = SOCKS4 \<or> Proto p = SOCKS5"

text \<open>A missing key of a Go map reads as the zero value, here the empty string.\<close>

definition Scheme :: "proxy \<Rightarrow> string" where
  "Scheme p = (case reverseProtoMap (Proto p) of None \<Rightarrow> [] | Some s \<Rightarrow> s)"

definition Address :: "proxy \<Rightarrow> string" where
  "Address p =
     (let ip = drop_bit 32 p;
          a = drop_bit 24 ip AND 0xff; b = drop_bit 16 ip AND 0xff;
          c = drop_bit 8 ip AND 0xff; d = ip AND 0xff
      in show_nat (unat a) @ ''.'' @ show_nat (unat b) @ ''.'' @ show_nat (unat c) @ ''.'' @
         show_nat (unat d) @ '':'' @ show_nat (unat (Port p)))"

definition String :: "proxy \<Rightarrow> string" where
  "String p = Scheme p @ ''://'' @ Address p"

definition MarshalJSON :: "proxy \<Rightarrow> string" where
  "MarshalJSON p = ''\"'' @ String p @ ''\"''"

text \<open>
  \<open>Bucket\<close> reads the word as a signed \<open>int\<close>; a remainder by zero panics.
\<close>

definition Bucket :: "proxy \<Rightarrow> int \<Rightarrow> int option" where
  "Bucket p buckets =
     (if buckets = 0 then None
      else let bucket = sint p smod buckets
           in Some (if bucket < 0 then bucket * -1 else bucket))"

section \<open>Parsing\<close>

text \<open>
  \<open>netip.ParseAddrPort\<close>. The text of an IPv6 address is parsed by \<open>ip6\<close>, an argument; a
  parsed IPv6 address is its 16 bytes.
\<close>

datatype addr = Addr4 "8 word list" | Addr6 "8 word list"

definition parse_octet :: "string \<Rightarrow> 8 word option" where
  "parse_octet s =
     (if s = [] \<or> (hd s = CHR ''0'' \<and> tl s \<noteq> []) then None
      else case digits_value 0 s of
             None \<Rightarrow> None
           | Some v \<Rightarrow> if v \<le> 255 then Some (of_nat v) else None)"

definition parse_ipv4 :: "string \<Rightarrow> addr option" where
  "parse_ipv4 s =
     (case map parse_octet (str_split ''.'' s) of
        [Some a, Some b, Some c, Some d] \<Rightarrow> Some (Addr4 [a, b, c, d])
      | _ \<Rightarrow> None)"

fun parse_addr_scan :: "(string \<Rightarrow> 8 word list option) \<Rightarrow> string \<Rightarrow> string \<Rightarrow> addr option" where
  "parse_addr_scan ip6 s [] = None"
| "parse_addr_scan ip6 s (c # cs) =
     (if c = CHR ''.'' then parse_ipv4 s
      else if c = CHR '':'' then map_option Addr6 (ip6 s)
      else if c = CHR ''%'' then None
      else parse_addr_scan ip6 s cs)"

definition parse_addr :: "(string \<Rightarrow> 8 word list option) \<Rightarrow> string \<Rightarrow> addr option" where
  "parse_addr ip6 s = parse_addr_scan ip6 s s"

definition parse_addr_port ::
  "(string \<Rightarrow> 8 word list option) \<Rightarrow> string \<Rightarrow> (addr \<times> nat) option" where
  "parse_addr_port ip6 s =
     (case cut_last CHR '':'' s of
        None \<Rightarrow> None
      | Some (ip, port) \<Rightarrow>
          if ip = [] \<or> port = [] then None
          else if hd ip = CHR ''['' \<and> (length ip < 2 \<or> last ip \<noteq> CHR '']'') then None
          else let v6 = (hd ip = CHR ''[''); ip = (if v6 then butlast (tl ip) else ip)
               in case parse_uint 16 port of
                    None \<Rightarrow> None
                  | Some n \<Rightarrow>
                      (case parse_addr ip6 ip of
                         None \<Rightarrow> None
                       | Some (Addr4 bs) \<Rightarrow> if v6 then None else Some (Addr4 bs, n)
                       | Some (Addr6 bs) \<Rightarrow> if v6 then Some (Addr6 bs, n) else None))"

text \<open>\<open>As4\<close> panics on an IPv6 address that does not embed an IPv4 one.\<close>

fun As4 :: "addr \<Rightarrow> 8 word list option" where
  "As4 (Addr4 bs) = Some bs"
| "As4 (Addr6 bs) =
     (if take 12 bs = replicate 10 0 @ [0xff, 0xff] then Some (drop 12 bs) else None)"

definition ipv4_word :: "8 word list \<Rightarrow> 64 word" where
  "ipv4_word bs =
     fold (\<lambda>i w. let w = w OR ucast (bs ! i) in if i < 3 then push_bit 8 w else w) [0..<4] 0"

definition NewProxy :: "(string \<Rightarrow> 8 word list option) \<Rightarrow> string \<Rightarrow> string \<Rightarrow> proxy option" where
  "NewProxy ip6 addr t =
     (case parse_addr_port ip6 addr of
        None \<Rightarrow> Some 0
      | Some (a, port) \<Rightarrow>
          let p = (case protoMap t of None \<Rightarrow> HTTP | Some p \<Rightarrow> p)
          in case As4 a of
               None \<Rightarrow> None
             | Some bs \<Rightarrow>
                 let ip = push_bit 32 (ipv4_word bs); port = push_bit 16 (of_nat port)
                 in Some (ip + port + ucast p))"

definition NewProxyFromURL :: "(string \<Rightarrow> 8 word list option) \<Rightarrow> string \<Rightarrow> proxy option" where
  "NewProxyFromURL ip6 url =
     (case str_split ''://'' url of
        [scheme, addr] \<Rightarrow> NewProxy ip6 addr scheme
      | _ \<Rightarrow> Some 0)"

definition HttpProxy :: "(string \<Rightarrow> 8 word list option) \<Rightarrow> string \<Rightarrow> proxy option" where
  "HttpProxy ip6 addr = NewProxy ip6 addr ''http''"

definition HttpsProxy :: "(string \<Rightarrow> 8 word list option) \<Rightarrow> string \<Rightarrow> proxy option" where
  "HttpsProxy ip6 addr = NewProxy ip6 addr ''https''"

definition Socks4Proxy :: "(string \<Rightarrow> 8 word list option) \<Rightarrow> string \<Rightarrow> proxy option" where
  "Socks4Proxy ip6 addr = NewProxy ip6 addr ''socks4''"

definition Socks5Proxy :: "(string \<Rightarrow> 8 word list option) \<Rightarrow> string \<Rightarrow> proxy option" where
  "Socks5Proxy ip6 addr = NewProxy ip6 addr ''socks5''"

section \<open>Packing and unpacking\<close>

text \<open>A proxy put together from its fields.\<close>

definition pack :: "32 word \<Rightarrow> 16 word \<Rightarrow> proto \<Rightarrow> proxy" where
  "pack ip port pr = push_bit 32 (ucast ip) + push_bit 16 (ucast port) + ucast pr"

lemma masks: "(0xffff :: 64 word) = mask 16" "(0xff :: 64 word) = mask 8"
  by (simp_all add: mask_eq_exp_minus_1)

lemma pack_or: "pack ip port pr = (push_bit 32 (ucast ip) OR push_bit 16 (ucast port)) OR ucast pr"
proof -
  have 1: "push_bit 32 (ucast ip) AND push_bit 16 (ucast port) = (0 :: proxy)"
    by (rule bit_word_eqI) (auto simp: bit_simps dest: bit_imp_le_length)
  have 2: "(push_bit 32 (ucast ip) OR push_bit 16 (ucast port)) AND ucast pr = (0 :: proxy)"
    by (rule bit_word_eqI) (auto simp: bit_simps dest: bit_imp_le_length)
  show ?thesis unfolding pack_def
    by (simp add: disjunctive_add_eq_or [OF 1] disjunctive_add_eq_or [OF 2])
qed

lemma Port_pack: "Port (pack ip port pr) = port"
  unfolding Port_def pack_or masks
  by (rule bit_word_eqI) (auto simp: bit_simps dest: bit_imp_le_length)

lemma Proto_pack: "Proto (pack ip port pr) = pr"
  unfolding Proto_def pack_or masks
  by (rule bit_word_eqI) (auto simp: bit_simps dest: bit_imp_le_length)

lemma ip_pack: "drop_bit 32 (pack ip port pr) = ucast ip"
  unfolding pack_or
  by (rule bit_word_eqI) (auto simp: bit_simps dest: bit_imp_le_length)

lemma pack_fields: "pack (ucast (drop_bit 32 p)) (Port p) (Proto p) = p"
proof (rule bit_word_eqI)
  fix n assume "n < LENGTH(64)"
  then show "bit (pack (ucast (drop_bit 32 p)) (Port p) (Proto p)) n = bit p n"
    unfolding Port_def Proto_def pack_or masks
    by (cases "n < 16"; cases "n < 32") (auto simp: bit_simps)
qed

definition bytes_word :: "8 word list \<Rightarrow> 32 word" where
  "bytes_word bs =
     push_bit 24 (ucast (bs ! 0)) OR push_bit 16 (ucast (bs ! 1)) OR
     push_bit 8 (ucast (bs ! 2)) OR ucast (bs ! 3)"

lemma ipv4_word_bytes: "ipv4_word [a, b, c, d] = ucast (bytes_word [a, b, c, d])"
proof (rule bit_word_eqI)
  fix n assume "n < LENGTH(64)"
  then show "bit (ipv4_word [a, b, c, d]) n = bit (ucast (bytes_word [a, b, c, d]) :: 64 word) n"
    by (auto simp: ipv4_word_def bytes_word_def upt_rec bit_simps Let_def dest: bit_imp_le_length)
qed

lemma bytes_word_IP: "bytes_word (IP p) = ucast (drop_bit 32 p)"
proof (rule bit_word_eqI)
  fix n assume "n < LENGTH(32)"
  then show "bit (bytes_word (IP p)) n = bit (ucast (drop_bit 32 p) :: 32 word) n"
    by (cases "n < 8"; cases "n < 16"; cases "n < 24")
     (auto simp: IP_def bytes_word_def masks bit_simps Let_def)
qed
lemma proxy_eqI:
  "drop_bit 32 p = drop_bit 32 q \<Longrightarrow> Port p = Port q \<Longrightarrow> Proto p = Proto q \<Longrightarrow> p = (q :: proxy)"
  by (metis pack_fields)

lemma AsHttp_pack: "AsHttp p = pack (ucast (drop_bit 32 p)) (Port p) HTTP"
  and AsHttps_pack: "AsHttps p = pack (ucast (drop_bit 32 p)) (Port p) HTTPS"
proof -
  have "ucast (ucast (drop_bit 32 p) :: 32 word) = (drop_bit 32 p :: proxy)"
    by (rule bit_word_eqI) (auto simp: bit_simps dest: bit_imp_le_length)
  then show "AsHttp p = pack (ucast (drop_bit 32 p)) (Port p) HTTP"
    and "AsHttps p = pack (ucast (drop_bit 32 p)) (Port p) HTTPS"
    by (simp_all add: AsHttp_def AsHttps_def pack_def Let_def)
qed

lemma IP_cong: "drop_bit 32 p = (drop_bit 32 q :: proxy) \<Longrightarrow> IP p = IP q"
  by (simp add: IP_def)

section \<open>Printing and parsing\<close>

definition dotted :: "8 word list \<Rightarrow> string" where
  "dotted bs =
     show_nat (unat (bs ! 0)) @ ''.'' @ show_nat (unat (bs ! 1)) @ ''.'' @
     show_nat (unat (bs ! 2)) @ ''.'' @ show_nat (unat (bs ! 3))"

lemma unat_byte: "unat (ucast (x AND mask 8 :: 64 word) :: 8 word) = unat (x AND mask 8)"
proof -
  have "x AND mask 8 \<le> mask 8" by (rule word_and_le1)
  then have "unat (x AND mask 8) \<le> unat (mask 8 :: 64 word)" by (simp add: word_le_nat_alt)
  then have "unat (x AND mask 8) < 2 ^ 8" by (simp add: mask_eq_exp_minus_1)
  then show ?thesis by (simp add: unsigned_ucast_eq take_bit_nat_eq_self)
qed

lemma Address_dotted: "Address p = dotted (IP p) @ CHR '':'' # show_nat (unat (Port p))"
  by (simp add: Address_def dotted_def IP_def Let_def masks unat_byte)

lemma parse_octet_show:
  assumes "n \<le> 255"
  shows "parse_octet (show_nat n) = Some (of_nat n)"
proof -
  have "\<not> (hd (show_nat n) = CHR ''0'' \<and> tl (show_nat n) \<noteq> [])"
    using show_nat_leading_zero [of n "tl (show_nat n)"] by (metis list.collapse show_nat_nonempty)
  then show ?thesis using assms by (auto simp: parse_octet_def digits_value_show)
qed

lemma char_digit_punct [simp]:
  "char_digit CHR ''.'' = None" "char_digit CHR '':'' = None" "char_digit CHR ''/'' = None"
  "char_digit CHR ''['' = None" "char_digit CHR ''%'' = None"
  by (simp_all add: char_digit_def)

lemma show_nat_punct [simp]:
  "CHR ''.'' \<notin> set (show_nat n)" "CHR '':'' \<notin> set (show_nat n)" "CHR ''/'' \<notin> set (show_nat n)"
  "CHR ''['' \<notin> set (show_nat n)" "CHR ''%'' \<notin> set (show_nat n)"
  by (simp_all add: show_nat_no_char)

lemma split_dot:
  "str_split ''.'' (show_nat n @ CHR ''.'' # s) = show_nat n # str_split ''.'' s"
  using str_split_here [of "CHR ''.''" "show_nat n" "[]" s] by simp

lemma parse_ipv4_dotted: "parse_ipv4 (dotted [a, b, c, d]) = Some (Addr4 [a, b, c, d])"
proof -
  have le: "unat x \<le> 255" for x :: "8 word"
  proof -
    have "unat x < 2 ^ LENGTH(8)" by (rule unsigned_less)
    then show ?thesis by simp
  qed
  have "str_split ''.'' (dotted [a, b, c, d]) =
      [show_nat (unat a), show_nat (unat b), show_nat (unat c), show_nat (unat d)]"
    by (simp add: dotted_def split_dot str_split_none)
  then show ?thesis by (simp add: parse_ipv4_def parse_octet_show le)
qed

lemma parse_addr_scan_digits:
  "parse_addr_scan ip6 s (show_nat n @ CHR ''.'' # r) = parse_ipv4 s"
proof -
  have "parse_addr_scan ip6 s (ds @ CHR ''.'' # r) = parse_ipv4 s"
    if "CHR ''.'' \<notin> set ds" "CHR '':'' \<notin> set ds" "CHR ''%'' \<notin> set ds" for ds
    using that by (induction ds) auto
  then show ?thesis by simp
qed

lemma parse_addr_dotted: "parse_addr ip6 (dotted [a, b, c, d]) = Some (Addr4 [a, b, c, d])"
  unfolding parse_addr_def
  by (subst (2) dotted_def) (simp add: parse_addr_scan_digits parse_ipv4_dotted)

lemma IP_bytes: obtains a b c d where "IP p = [a, b, c, d]"
  by (simp add: IP_def Let_def)

lemma hd_dotted: "dotted bs \<noteq> []" "hd (dotted bs) \<noteq> CHR ''[''"
proof -
  show "dotted bs \<noteq> []" by (simp add: dotted_def)
  have "hd (dotted bs) = hd (show_nat (unat (bs ! 0)))" by (simp add: dotted_def)
  then show "hd (dotted bs) \<noteq> CHR ''[''"
    by (metis hd_in_set show_nat_nonempty show_nat_punct(4))
qed

lemma parse_Address:
  "parse_addr_port ip6 (Address p) = Some (Addr4 (IP p), unat (Port p))"
proof -
  have "unat (Port p) < 2 ^ 16" using unsigned_less [of "Port p"] by simp
  then show ?thesis
    by (cases rule: IP_bytes [of p])
      (simp add: parse_addr_port_def Address_dotted cut_last_here hd_dotted parse_uint_show
        parse_addr_dotted)
qed

lemma NewProxy_Address:
  assumes "protoMap t = Some pr"
  shows "NewProxy ip6 (Address p) t = Some (pack (ucast (drop_bit 32 p)) (Port p) pr)"
proof -
  obtain a b c d where "IP p = [a, b, c, d]" by (rule IP_bytes)
  then have "ipv4_word (IP p) = ucast (ucast (drop_bit 32 p) :: 32 word)"
    using ipv4_word_bytes [of a b c d] bytes_word_IP [of p] by simp
  moreover have "(of_nat (unat (Port p)) :: 64 word) = ucast (Port p)"
    by (simp add: of_nat_unat)
  ultimately show ?thesis
    by (simp add: NewProxy_def parse_Address assms pack_def Let_def)
qed

lemma known_proto:
  "Scheme p \<noteq> [] \<Longrightarrow> protoMap (Scheme p) = Some (Proto p)"
  by (auto simp: Scheme_def reverseProtoMap_def protoMap_def protos split: if_splits)

lemma Scheme_no_colon: "CHR '':'' \<notin> set (Scheme p)"
  by (auto simp: Scheme_def reverseProtoMap_def split: if_splits)

lemma String_split: "str_split ''://'' (String p) = [Scheme p, Address p]"
proof -
  have "CHR ''/'' \<notin> set (Address p)"
    by (auto simp: Address_def Let_def)
  then have "str_split ''://'' (Address p) = [Address p]"
    by (intro str_split_none [of "CHR ''/''"]) auto
  then show ?thesis
    using str_split_here [OF Scheme_no_colon, of "''//''" p "Address p"] by (simp add: String_def)
qed

lemma NewProxyFromURL_String: "Scheme p \<noteq> [] \<Longrightarrow> NewProxyFromURL ip6 (String p) = Some p"
  by (simp add: NewProxyFromURL_def String_split NewProxy_Address [OF known_proto] pack_fields)

text \<open>
  C33. The text form of a proxy with a known protocol parses back to the same proxy, whatever
  the parser of IPv6 addresses does.
\<close>

theorem proxy_string_roundtrip:
  assumes "Scheme p \<noteq> []"
  shows "NewProxyFromURL ip6 (String p) = Some p"
  using assms by (rule NewProxyFromURL_String)

theorem proxy_string_roundtrip_witness:
  "Scheme 0x7F0000010BB80003 \<noteq> [] \<and>
   NewProxyFromURL (\<lambda>_. None) (String 0x7F0000010BB80003) = Some 0x7F0000010BB80003"
proof -
  have "Scheme 0x7F0000010BB80003 \<noteq> []" by code_simp
  then show ?thesis using proxy_string_roundtrip by blast
qed

section \<open>Protocol changes and buckets\<close>

lemma drop_AsHttp [simp]: "drop_bit 32 (AsHttp p) = drop_bit 32 p"
  and drop_AsHttps [simp]: "drop_bit 32 (AsHttps p) = drop_bit 32 p"
proof -
  have "ucast (ucast (drop_bit 32 p) :: 32 word) = (drop_bit 32 p :: proxy)"
    by (rule bit_word_eqI) (auto simp: bit_simps dest: bit_imp_le_length)
  then show "drop_bit 32 (AsHttp p) = drop_bit 32 p" and "drop_bit 32 (AsHttps p) = drop_bit 32 p"
    by (simp_all add: AsHttp_pack AsHttps_pack ip_pack)
qed

lemma Port_AsHttp [simp]: "Port (AsHttp p) = Port p" "Port (AsHttps p) = Port p"
  and Proto_AsHttp [simp]: "Proto (AsHttp p) = HTTP" "Proto (AsHttps p) = HTTPS"
  by (simp_all add: AsHttp_pack AsHttps_pack Port_pack Proto_pack)

lemma IP_AsHttp [simp]: "IP (AsHttp p) = IP p" "IP (AsHttps p) = IP p"
  by (simp_all add: IP_def)

lemma AsHttp_id: "Proto p = HTTP \<Longrightarrow> AsHttp p = p" "Proto p = HTTPS \<Longrightarrow> AsHttps p = p"
  by (simp_all add: proxy_eqI)

lemma AsHttp_AsHttps [simp]: "AsHttp (AsHttps p) = AsHttp p" "AsHttps (AsHttp p) = AsHttps p"
  by (simp_all add: proxy_eqI)

lemma HttpProxy_Address [simp]: "HttpProxy ip6 (Address p) = Some (AsHttp p)"
  and HttpsProxy_Address [simp]: "HttpsProxy ip6 (Address p) = Some (AsHttps p)"
  by (simp_all add: HttpProxy_def HttpsProxy_def AsHttp_pack AsHttps_pack NewProxy_Address protoMap_def)

text \<open>
  C39. Rewriting the protocol through the text of the address (as the re-verification does)
  or on the word (as the rescue of HTTP proxies does) is the same function: it changes the
  protocol, keeps address and port, and is undone by the opposite rewriting.
\<close>

theorem proxy_protocol_rewrite:
  "HttpProxy ip6 (Address p) = Some (AsHttp p) \<and> HttpsProxy ip6 (Address p) = Some (AsHttps p) \<and>
   Proto (AsHttp p) = HTTP \<and> Proto (AsHttps p) = HTTPS \<and>
   IP (AsHttp p) = IP p \<and> Port (AsHttp p) = Port p \<and> AsHttp (AsHttps p) = AsHttp p"
  by simp

lemma Bucket_range: "0 < n \<Longrightarrow> \<exists>b. Bucket p n = Some b \<and> 0 \<le> b \<and> b < n"
  using smod_abs_bound [of n "sint p"] by (auto simp: Bucket_def Let_def)

text \<open>
  With at least one shard, every proxy has a bucket, and it is the index of a shard.
\<close>

theorem bucket_in_range:
  assumes "0 < n"
  shows "\<exists>b. Bucket p n = Some b \<and> 0 \<le> b \<and> b < n"
  using assms by (rule Bucket_range)

theorem bucket_in_range_witness:
  "(0 :: int) < 31 \<and> (\<exists>b. Bucket 0xFF0000010BB80003 31 = Some b \<and> 0 \<le> b \<and> b < 31)"
proof -
  have "(0 :: int) < 31" by simp
  then show ?thesis using bucket_in_range by blast
qed

end
