(* ===== verification/Counter.thy ===== *)
theory Counter
  imports Prelude
begin

text \<open>
  \<open>RollingCounter\<close> of \<open>pool/counter\<close>: a ring of \<open>window\<close> counts, one per interval, with their
  sum. The widths are the code's: \<open>int32\<close> counts, \<open>int16\<close> window and position, and the number
  of intervals since the last update cut from 64 to 16 bits. The abstraction of a counter is
  the list of its counts by age, youngest first; a counter that is used often enough holds,
  for every age, the amounts added in that interval (\<open>tracks\<close>).
\<close>

record rolling =
  rc_buf :: "32 word list"
  rc_updated :: time
  rc_window :: "16 word"
  rc_interval :: duration
  rc_sum :: "32 word"
  rc_pos :: "16 word"

section \<open>Operations\<close>

text \<open>\<open>make\<close> panics on a negative length.\<close>

definition NewRollingCounter :: "time \<Rightarrow> 16 word \<Rightarrow> duration \<Rightarrow> rolling option" where
  "NewRollingCounter now window interval =
     (if sint window < 0 then None
      else Some \<lparr>rc_buf = replicate (nat (sint window)) 0, rc_updated = time_round now interval,
                 rc_window = window, rc_interval = interval, rc_sum = 0, rc_pos = 0\<rparr>)"

definition in_range :: "'a list \<Rightarrow> 16 word \<Rightarrow> bool" where
  "in_range xs i \<longleftrightarrow> 0 \<le> sint i \<and> sint i < int (length xs)"

definition at :: "'a list \<Rightarrow> 16 word \<Rightarrow> 'a" where
  "at xs i = xs ! nat (sint i)"

definition put :: "'a list \<Rightarrow> 16 word \<Rightarrow> 'a \<Rightarrow> 'a list" where
  "put xs i v = xs[nat (sint i) := v]"

definition Series :: "rolling \<Rightarrow> 32 word list option" where
  "Series r =
     (if 0 \<le> sint (rc_pos r) \<and> sint (rc_pos r) \<le> int (length (rc_buf r))
      then Some (drop (nat (sint (rc_pos r))) (rc_buf r) @ take (nat (sint (rc_pos r))) (rc_buf r))
      else None)"

text \<open>One turn of the clearing loop; the remainder by a zero window and a bad index panic.\<close>

definition clear_next :: "rolling \<Rightarrow> rolling option" where
  "clear_next r =
     (if rc_window r = 0 then None
      else let p = word_of_int (sint (rc_pos r + 1) smod sint (rc_window r))
           in if in_range (rc_buf r) p
              then Some (r\<lparr>rc_pos := p, rc_sum := rc_sum r - at (rc_buf r) p,
                           rc_buf := put (rc_buf r) p 0\<rparr>)
              else None)"

fun clear_times :: "nat \<Rightarrow> rolling \<Rightarrow> rolling option" where
  "clear_times 0 r = Some r"
| "clear_times (Suc n) r = (case clear_next r of None \<Rightarrow> None | Some r \<Rightarrow> clear_times n r)"

definition clear_intervals :: "time \<Rightarrow> rolling \<Rightarrow> 16 word" where
  "clear_intervals now r =
     (let n = word_of_int (time_sub now (rc_updated r) sdiv rc_interval r)
      in if sint n > sint (rc_window r) then rc_window r else n)"

definition Add :: "time \<Rightarrow> 32 word \<Rightarrow> rolling \<Rightarrow> rolling option" where
  "Add clock what r =
     (let now = time_truncate clock (rc_interval r)
      in if rc_interval r = 0 then None
         else case clear_times (nat (sint (clear_intervals now r))) r of
                None \<Rightarrow> None
              | Some r \<Rightarrow>
                  if in_range (rc_buf r) (rc_pos r)
                  then Some (r\<lparr>rc_updated := now,
                               rc_buf := put (rc_buf r) (rc_pos r) (at (rc_buf r) (rc_pos r) + what),
                               rc_sum := rc_sum r + what\<rparr>)
                  else None)"

definition Increment :: "time \<Rightarrow> rolling \<Rightarrow> rolling option" where
  "Increment clock r = Add clock 1 r"

definition Sum :: "rolling \<Rightarrow> int" where
  "Sum r = sint (rc_sum r)"

section \<open>Well-formed counters\<close>

definition rolling_ok :: "rolling \<Rightarrow> bool" where
  "rolling_ok r \<longleftrightarrow>
     0 < rc_interval r \<and> rc_interval r dvd rc_updated r \<and>
     0 < sint (rc_window r) \<and> int (length (rc_buf r)) = sint (rc_window r) \<and>
     in_range (rc_buf r) (rc_pos r) \<and> rc_sum r = sum_list (rc_buf r)"

abbreviation posn :: "rolling \<Rightarrow> nat" where "posn r \<equiv> nat (sint (rc_pos r))"

definition ages :: "rolling \<Rightarrow> 32 word list" where
  "ages r = rev (rotate (Suc (posn r)) (rc_buf r))"

lemma sum_list_rotate [simp]: "sum_list (rotate n xs) = sum_list (xs :: 'a :: comm_monoid_add list)"
  by (metis add.commute append_take_drop_id rotate_drop_take sum_list_append)

lemma sum_list_rev_word [simp]: "sum_list (rev xs) = sum_list (xs :: 'a :: comm_monoid_add list)"
  by (metis mset_rev sum_mset_sum_list)

lemma length_ages [simp]: "length (ages r) = length (rc_buf r)"
  by (simp add: ages_def)

lemma sum_ages: "rolling_ok r \<Longrightarrow> rc_sum r = sum_list (ages r)"
  by (simp add: rolling_ok_def ages_def del: rotate_Suc)

lemma rolling_okD:
  assumes "rolling_ok r"
  shows "posn r < length (rc_buf r)" "rc_buf r \<noteq> []" "rc_window r \<noteq> 0" "rc_interval r \<noteq> 0"
    "length (rc_buf r) < 2 ^ 15"
proof -
  show "posn r < length (rc_buf r)" using assms by (auto simp: rolling_ok_def in_range_def)
  then show "rc_buf r \<noteq> []" by auto
  show "rc_window r \<noteq> 0" "rc_interval r \<noteq> 0" using assms by (auto simp: rolling_ok_def)
  have "sint (rc_window r) < 2 ^ (LENGTH(16) - 1)" by (rule sint_lt)
  with assms show "length (rc_buf r) < 2 ^ 15" by (auto simp: rolling_ok_def)
qed

lemma update_sum_list:
  "i < length xs \<Longrightarrow> sum_list (xs[i := v]) = sum_list xs - xs ! i + (v :: 'a :: ab_group_add)"
proof (induction xs arbitrary: i)
  case Nil
  then show ?case by simp
next
  case (Cons x xs)
  then show ?case by (cases i) (auto simp: algebra_simps)
qed

lemma rotate_update:
  assumes "p < length xs"
  shows "rotate (Suc p) (xs[p := v]) = butlast (rotate (Suc p) xs) @ [v]"
proof -
  have "rotate (Suc p) (ys :: 'a list) = drop (Suc p) ys @ take (Suc p) ys"
    if "length ys = length xs" for ys
    using assms that by (cases "Suc p = length ys") (auto simp: rotate_drop_take)
  then show ?thesis
    using assms by (simp add: take_Suc_conv_app_nth butlast_append)
qed

lemma butlast_rotate_Suc:
  "xs \<noteq> [] \<Longrightarrow> butlast (rotate (Suc n) xs) = tl (rotate n xs)"
  by (cases "rotate n xs") (auto simp: rotate_Suc rotate1_hd_tl)

section \<open>Clearing and adding, on ages\<close>

lemma next_pos:
  assumes "rolling_ok r"
  defines "p \<equiv> word_of_int (sint (rc_pos r + 1) smod sint (rc_window r)) :: 16 word"
  shows "sint p = int (Suc (posn r) mod length (rc_buf r))"
    and "in_range (rc_buf r) p" and "nat (sint p) = Suc (posn r) mod length (rc_buf r)"
proof -
  let ?n = "length (rc_buf r)"
  note ok = rolling_okD [OF assms(1)]
  have win: "sint (rc_window r) = int ?n" and pos: "0 \<le> sint (rc_pos r)"
    using assms(1) by (auto simp: rolling_ok_def in_range_def)
  obtain P where P: "sint (rc_pos r) = int P" using pos by (metis nonneg_int_cases)
  have lt: "P < ?n" and P15: "int P + 1 < 2 ^ 15" using ok(1,5) by (simp_all add: P)
  have "rc_pos r + 1 = word_of_int (int P + 1)"
    by (simp flip: P)
  moreover have "sint (word_of_int (int P + 1) :: 16 word) = int P + 1"
    using P15 by (intro sint_word_of_int_small) simp_all
  ultimately have "sint (rc_pos r + 1) = int P + 1" by simp
  then have eq: "sint (rc_pos r + 1) smod sint (rc_window r) = int (Suc (posn r) mod ?n)"
    using lt ok(2) smod_nonneg [of "int P + 1" "int ?n"] by (simp add: win P zmod_int add.commute)
  have lt: "Suc (posn r) mod ?n < ?n" using ok(1) by (intro mod_less_divisor) linarith
  have "\<And>a. a < ?n \<Longrightarrow> int a < 2 ^ 15" using ok(5) by simp
  then have "int (Suc (posn r) mod ?n) < 2 ^ 15" using lt by blast
  then have "sint (word_of_int (int (Suc (posn r) mod ?n)) :: 16 word) = int (Suc (posn r) mod ?n)"
    by (intro sint_word_of_int_small) simp_all
  then show sp: "sint p = int (Suc (posn r) mod ?n)" by (simp only: p_def eq)
  then show "in_range (rc_buf r) p" and "nat (sint p) = Suc (posn r) mod ?n"
    using lt by (simp_all add: in_range_def)
qed

lemma clear_next_ages:
  assumes ok: "rolling_ok r"
  obtains r' where "clear_next r = Some r'" and "rolling_ok r'" and "ages r' = 0 # butlast (ages r)"
    and "rc_updated r' = rc_updated r" and "rc_interval r' = rc_interval r"
    and "rc_window r' = rc_window r"
proof -
  let ?n = "length (rc_buf r)" and ?i = "Suc (posn r) mod length (rc_buf r)"
  let ?p = "word_of_int (sint (rc_pos r + 1) smod sint (rc_window r)) :: 16 word"
  let ?r = "r\<lparr>rc_pos := ?p, rc_sum := rc_sum r - at (rc_buf r) ?p, rc_buf := put (rc_buf r) ?p 0\<rparr>"
  note p = next_pos [OF ok] and D = rolling_okD [OF ok]
  have lt: "?i < ?n" using D(1) by (intro mod_less_divisor) linarith
  have "clear_next r = Some ?r" using D(3) p(2) by (simp add: clear_next_def Let_def)
  moreover have "rolling_ok ?r"
    using ok p lt by (simp add: rolling_ok_def at_def put_def in_range_def update_sum_list)
  moreover have "ages ?r = 0 # butlast (ages r)"
  proof -
    have "ages ?r = rev (rotate (Suc ?i) ((rc_buf r)[?i := 0]))"
      using p(3) by (simp add: ages_def put_def del: rotate_Suc)
    also have "\<dots> = 0 # rev (butlast (rotate (Suc ?i) (rc_buf r)))"
      using rotate_update [OF lt] by simp
    also have "butlast (rotate (Suc ?i) (rc_buf r)) = tl (rotate ?i (rc_buf r))"
      using D(2) by (rule butlast_rotate_Suc)
    also have "rotate ?i (rc_buf r) = rotate (Suc (posn r)) (rc_buf r)"
      by (metis rotate_conv_mod)
    finally show ?thesis by (simp add: ages_def butlast_rev del: rotate_Suc)
  qed
  ultimately show thesis using that by simp
qed

lemma clear_times_ages:
  assumes "rolling_ok r" and "n \<le> length (rc_buf r)"
  shows "\<exists>r'. clear_times n r = Some r' \<and> rolling_ok r' \<and>
    ages r' = replicate n 0 @ take (length (rc_buf r) - n) (ages r) \<and>
    rc_updated r' = rc_updated r \<and> rc_interval r' = rc_interval r \<and> rc_window r' = rc_window r"
  using assms
proof (induction n arbitrary: r)
  case 0
  then show ?case by simp
next
  case (Suc n)
  obtain r1 where r1: "clear_next r = Some r1" "rolling_ok r1" "ages r1 = 0 # butlast (ages r)"
    "rc_updated r1 = rc_updated r" "rc_interval r1 = rc_interval r" "rc_window r1 = rc_window r"
    by (rule clear_next_ages [OF Suc.prems(1)])
  have len: "length (rc_buf r1) = length (rc_buf r)"
    using r1(2,6) Suc.prems(1) by (simp add: rolling_ok_def)
  from Suc.IH [OF r1(2)] len Suc.prems(2) r1 show ?case
    by (auto simp: butlast_conv_take take_Cons' replicate_append_same [symmetric] min_def)
qed

text \<open>How many of the youngest counts an update clears: the elapsed intervals, cut to 16 bits.\<close>

definition cleared :: "time \<Rightarrow> rolling \<Rightarrow> nat" where
  "cleared now r = nat (sint (clear_intervals now r))"

definition age_by :: "nat \<Rightarrow> 32 word list \<Rightarrow> 32 word list" where
  "age_by n xs = replicate n 0 @ take (length xs - n) xs"

lemma length_age_by [simp]: "n \<le> length xs \<Longrightarrow> length (age_by n xs) = length xs"
  by (simp add: age_by_def)

lemma cleared_le: "rolling_ok r \<Longrightarrow> cleared now r \<le> length (rc_buf r)"
  by (auto simp: cleared_def clear_intervals_def Let_def rolling_ok_def)

lemma ages_put:
  assumes "rolling_ok r"
  shows "ages (r\<lparr>rc_updated := t, rc_buf := put (rc_buf r) (rc_pos r) v, rc_sum := x\<rparr>) = (ages r)[0 := v]"
proof -
  let ?b = "rotate (Suc (posn r)) (rc_buf r)"
  have "?b \<noteq> []" using rolling_okD(2) [OF assms] by simp
  then have "rev (butlast ?b @ [v]) = (rev ?b)[0 := v]"
    by (cases ?b rule: rev_cases) simp_all
  then show ?thesis
    using rotate_update [OF rolling_okD(1) [OF assms], of v]
    by (simp add: ages_def put_def del: rotate_Suc)
qed

lemma ages_0: "rolling_ok r \<Longrightarrow> ages r ! 0 = at (rc_buf r) (rc_pos r)"
  using rolling_okD(1,2) [of r]
  by (simp add: ages_def at_def rev_nth nth_rotate del: rotate_Suc)

text \<open>An update never panics on a well-formed counter, and this is its effect.\<close>

lemma Add_ages:
  fixes clock what
  assumes ok: "rolling_ok r"
  defines "now \<equiv> time_truncate clock (rc_interval r)"
  defines "xs \<equiv> age_by (cleared now r) (ages r)"
  obtains r' where "Add clock what r = Some r'" and "rolling_ok r'"
    and "ages r' = xs[0 := xs ! 0 + what]" and "rc_updated r' = now"
    and "rc_interval r' = rc_interval r" and "rc_window r' = rc_window r"
proof -
  obtain r1 where r1: "clear_times (cleared now r) r = Some r1" "rolling_ok r1" "ages r1 = xs"
    "rc_interval r1 = rc_interval r" "rc_window r1 = rc_window r"
    using clear_times_ages [OF ok cleared_le [OF ok]] by (auto simp: xs_def age_by_def)
  let ?v = "at (rc_buf r1) (rc_pos r1) + what"
  let ?r = "r1\<lparr>rc_updated := now, rc_buf := put (rc_buf r1) (rc_pos r1) ?v, rc_sum := rc_sum r1 + what\<rparr>"
  note D = rolling_okD [OF r1(2)]
  have dvd: "rc_interval r1 dvd now"
    using ok by (simp add: now_def r1(4) rolling_ok_def)
  have "Add clock what r = Some ?r"
    using r1 rolling_okD(4) [OF ok] by (simp add: Add_def now_def [symmetric] cleared_def rolling_ok_def)
  moreover have "rolling_ok ?r"
    using r1(2) dvd D(1) by (simp add: rolling_ok_def in_range_def put_def at_def update_sum_list)
  moreover have "ages ?r = xs[0 := xs ! 0 + what]"
    using ages_put [OF r1(2)] ages_0 [OF r1(2)] r1(3) by simp
  ultimately show thesis using that r1(4,5) by simp
qed

lemma Add_total [panic_free]: "rolling_ok r \<Longrightarrow> \<exists>r'. Add clock what r = Some r' \<and> rolling_ok r'"
  by (metis Add_ages)

lemma Increment_total [panic_free]: "rolling_ok r \<Longrightarrow> \<exists>r'. Increment clock r = Some r' \<and> rolling_ok r'"
  by (simp add: Increment_def Add_total)

lemma NewRollingCounter_ok:
  assumes "0 < sint w" and "0 < d"
  shows "\<exists>r. NewRollingCounter now w d = Some r \<and> rolling_ok r \<and> ages r = replicate (nat (sint w)) 0 \<and>
    rc_updated r = time_round now d \<and> rc_interval r = d \<and> rc_window r = w"
proof -
  have "rotate n (replicate m (0 :: 32 word)) = replicate m 0" for n m
    by (intro nth_equalityI) (simp_all add: nth_rotate)
  then show ?thesis
    using assms by (auto simp: NewRollingCounter_def rolling_ok_def in_range_def ages_def sum_list_replicate
        simp del: rotate_Suc)
qed

section \<open>The sliding window\<close>

text \<open>
  The specification: the amounts added in the interval with number \<open>i\<close>. A counter tracks a
  list of updates when its count of age \<open>k\<close> is the amount of the interval \<open>k\<close> before the last.
\<close>

definition bucket_sum :: "duration \<Rightarrow> (time \<times> 32 word) list \<Rightarrow> int \<Rightarrow> 32 word" where
  "bucket_sum d evs i = sum_list (map snd (filter (\<lambda>(t, a). t div d = i) evs))"

definition tracks :: "rolling \<Rightarrow> (time \<times> 32 word) list \<Rightarrow> bool" where
  "tracks r evs \<longleftrightarrow>
     rolling_ok r \<and>
     (\<forall>k < length (rc_buf r).
        ages r ! k = bucket_sum (rc_interval r) evs (rc_updated r div rc_interval r - int k)) \<and>
     (\<forall>ev \<in> set evs. fst ev div rc_interval r \<le> rc_updated r div rc_interval r)"

lemma bucket_sum_Nil [simp]: "bucket_sum d [] i = 0"
  and bucket_sum_Cons [simp]:
    "bucket_sum d ((t, a) # evs) i = (if t div d = i then a else 0) + bucket_sum d evs i"
  by (simp_all add: bucket_sum_def)

lemma bucket_sum_later: "(\<forall>ev \<in> set evs. fst ev div d < i) \<Longrightarrow> bucket_sum d evs i = 0"
  by (induction evs) auto

lemma cleared_gap:
  assumes ok: "rolling_ok r"
    and g: "g = clock div rc_interval r - rc_updated r div rc_interval r"
    and "- (2 ^ 15) \<le> g" "g < 2 ^ 15"
    and "2 ^ 15 * rc_interval r \<le> max_duration"
  shows "cleared (time_truncate clock (rc_interval r)) r = min (length (rc_buf r)) (nat g)"
proof -
  let ?d = "rc_interval r"
  have d: "0 < ?d" and dvd: "?d dvd rc_updated r" using ok by (auto simp: rolling_ok_def)
  have eq: "time_truncate clock ?d - rc_updated r = g * ?d"
    using dvd d by (simp add: time_truncate_div g left_diff_distrib)
  have "g * ?d \<le> 2 ^ 15 * ?d" and "- (2 ^ 15) * ?d \<le> g * ?d"
    using assms(3,4) d by (intro mult_right_mono; simp)+
  then have "g * ?d \<le> max_duration" and "min_duration \<le> g * ?d"
    using assms(5) by (simp_all add: max_duration_def min_duration_def)
  then have "time_sub (time_truncate clock ?d) (rc_updated r) = g * ?d"
    by (simp add: time_sub_exact eq)
  moreover have "(g * ?d) sdiv ?d = g" using d by (simp add: signed_divide_int_def abs_mult sgn_mult mult_sgn_abs)
  moreover have "sint (word_of_int g :: 16 word) = g"
    using assms(3,4) by (intro sint_word_of_int_small)
  moreover have "sint (rc_window r) = int (length (rc_buf r))" using ok by (simp add: rolling_ok_def)
  ultimately show ?thesis by (simp add: cleared_def clear_intervals_def Let_def)
qed

lemma nth_age_by:
  "n \<le> length xs \<Longrightarrow> k < length xs \<Longrightarrow> age_by n xs ! k = (if k < n then 0 else xs ! (k - n))"
  by (auto simp: age_by_def nth_append)

lemma tracks_Add:
  assumes tr: "tracks r evs"
    and g: "g = clock div rc_interval r - rc_updated r div rc_interval r"
    and "evs \<noteq> [] \<Longrightarrow> 0 \<le> g" "- (2 ^ 15) \<le> g" "g < 2 ^ 15"
    and "2 ^ 15 * rc_interval r \<le> max_duration"
  obtains r' where "Add clock a r = Some r'" and "tracks r' ((clock, a) # evs)"
    and "rc_updated r' div rc_interval r' = clock div rc_interval r"
    and "rc_interval r' = rc_interval r" and "rc_window r' = rc_window r"
proof -
  let ?d = "rc_interval r" and ?n = "length (rc_buf r)" and ?now = "time_truncate clock (rc_interval r)"
  have ok: "rolling_ok r" and old: "\<forall>ev \<in> set evs. fst ev div ?d \<le> rc_updated r div ?d"
    and ag: "\<And>k. k < ?n \<Longrightarrow> ages r ! k = bucket_sum ?d evs (rc_updated r div ?d - int k)"
    using tr by (auto simp: tracks_def)
  define c where "c = min ?n (nat g)"
  have c: "cleared ?now r = c" unfolding c_def using ok g assms(4-6) by (rule cleared_gap)
  obtain r' where r': "Add clock a r = Some r'" "rolling_ok r'"
    "ages r' = (age_by c (ages r))[0 := age_by c (ages r) ! 0 + a]" "rc_updated r' = ?now"
    "rc_interval r' = ?d" "rc_window r' = rc_window r"
    using Add_ages [OF ok, of clock a] c by metis
  have d: "0 < ?d" using ok by (simp add: rolling_ok_def)
  then have idx: "?now div ?d = clock div ?d" by (simp add: time_truncate_div)
  have len: "length (rc_buf r') = ?n" using r'(2,6) ok by (simp add: rolling_ok_def)
  have npos: "0 < ?n" using rolling_okD(2) [OF ok] by simp
  have later: "bucket_sum ?d evs i = 0" if "rc_updated r div ?d < i" for i
    using old that by (intro bucket_sum_later) force
  have xs: "age_by c (ages r) ! k = bucket_sum ?d evs (clock div ?d - int k)" if "k < ?n" for k
  proof (cases "evs = []")
    case True
    with that ag show ?thesis by (simp add: nth_age_by c_def)
  next
    case False
    then have "0 \<le> g" by (rule assms(3))
    then show ?thesis using that ag g later [of "clock div ?d - int k"]
      by (auto simp: nth_age_by c_def of_nat_diff algebra_simps min_def split: if_splits)
  qed
  have "tracks r' ((clock, a) # evs)"
    unfolding tracks_def
  proof (intro conjI allI impI ballI)
    show "rolling_ok r'" by (rule r'(2))
    fix k assume "k < length (rc_buf r')"
    then show "ages r' ! k = bucket_sum (rc_interval r') ((clock, a) # evs)
        (rc_updated r' div rc_interval r' - int k)"
      using xs [of k] npos by (cases k) (auto simp: r' len idx c_def add.commute)
  next
    fix ev assume "ev \<in> set ((clock, a) # evs)"
    then show "fst ev div rc_interval r' \<le> rc_updated r' div rc_interval r'"
      using old assms(3) g by (fastforce simp: r' idx)
  qed
  then show thesis using that r' idx by simp
qed

text \<open>A run of updates, oldest first, with gaps of less than \<open>2 ^ 15\<close> intervals.\<close>

fun adds :: "(time \<times> 32 word) list \<Rightarrow> rolling \<Rightarrow> rolling option" where
  "adds [] r = Some r"
| "adds ((t, a) # evs) r = (case Add t a r of None \<Rightarrow> None | Some r \<Rightarrow> adds evs r)"

fun paced :: "duration \<Rightarrow> int \<Rightarrow> (time \<times> 32 word) list \<Rightarrow> bool" where
  "paced d i [] = True"
| "paced d i ((t, a) # evs) = (i \<le> t div d \<and> t div d - i < 2 ^ 15 - 1 \<and> paced d (t div d) evs)"

lemma adds_tracks:
  assumes "tracks r done" and "done \<noteq> []" and "rc_interval r = d"
    and "paced d (rc_updated r div d) evs" and "2 ^ 15 * d \<le> max_duration"
  shows "\<exists>r'. adds evs r = Some r' \<and> tracks r' (rev evs @ done) \<and> rc_interval r' = d \<and>
    rc_window r' = rc_window r \<and>
    rc_updated r' div d = (if evs = [] then rc_updated r div d else fst (last evs) div d)"
  using assms
proof (induction evs arbitrary: r "done")
  case Nil
  then show ?case by simp
next
  case (Cons ev evs)
  obtain t a where ev: "ev = (t, a)" by (cases ev)
  obtain r1 where r1: "Add t a r = Some r1" "tracks r1 ((t, a) # done)" "rc_updated r1 div d = t div d"
    "rc_interval r1 = d" "rc_window r1 = rc_window r"
    using Cons.prems by (auto simp: ev intro: tracks_Add [OF Cons.prems(1) refl, of t a])
  then show ?case
    using Cons.IH [OF r1(2)] Cons.prems by (auto simp: ev)
qed

lemma sum_buckets:
  "(\<Sum>k < n. bucket_sum d evs (i - int k)) =
     sum_list (map snd (filter (\<lambda>ev. i - int n < fst ev div d \<and> fst ev div d \<le> i) evs))"
proof (induction evs)
  case Nil
  show ?case by simp
next
  case (Cons ev evs)
  obtain t a where ev: "ev = (t, a)" by (cases ev)
  have "(\<Sum>k < n. if t div d = i - int k then a else 0) =
      (if i - int n < t div d \<and> t div d \<le> i then a else 0)"
  proof (cases "i - int n < t div d \<and> t div d \<le> i")
    case True
    then have "(\<Sum>k < n. if t div d = i - int k then a else 0) =
        (\<Sum>k < n. if k = nat (i - t div d) then a else 0)"
      by (intro sum.cong) auto
    with True show ?thesis by (simp add: sum.delta nat_less_iff)
  next
    case False
    then show ?thesis by (intro sum.neutral [THEN trans]) auto
  qed
  then show ?case using Cons by (simp add: ev sum.distrib)
qed

lemma tracks_sum:
  assumes "tracks r evs"
  shows "rc_sum r = sum_list (map snd (filter (\<lambda>ev.
    rc_updated r div rc_interval r - sint (rc_window r) < fst ev div rc_interval r) evs))"
proof -
  let ?i = "rc_updated r div rc_interval r" and ?d = "rc_interval r" and ?n = "length (rc_buf r)"
  have ok: "rolling_ok r" using assms by (simp add: tracks_def)
  have "ages r = map (\<lambda>k. bucket_sum ?d evs (?i - int k)) [0..<?n]"
    using assms by (intro nth_equalityI) (simp_all add: tracks_def)
  then have "rc_sum r = (\<Sum>k < ?n. bucket_sum ?d evs (?i - int k))"
    by (simp add: sum_ages [OF ok] interv_sum_list_conv_sum_set_nat atLeast0LessThan)
  also have "\<dots> = sum_list (map snd (filter (\<lambda>ev. ?i - int ?n < fst ev div ?d \<and> fst ev div ?d \<le> ?i) evs))"
    by (rule sum_buckets)
  also have "filter (\<lambda>ev. ?i - int ?n < fst ev div ?d \<and> fst ev div ?d \<le> ?i) evs =
      filter (\<lambda>ev. ?i - sint (rc_window r) < fst ev div ?d) evs"
    using assms ok by (intro filter_cong) (auto simp: tracks_def rolling_ok_def)
  finally show ?thesis .
qed

lemma tracks_new:
  assumes "0 < sint w" and "0 < d" and "NewRollingCounter t0 w d = Some r"
  shows "tracks r [] \<and> rc_interval r = d \<and> rc_window r = w \<and>
    t0 div d \<le> rc_updated r div d \<and> rc_updated r div d \<le> t0 div d + 1"
proof -
  have r: "rolling_ok r" "ages r = replicate (nat (sint w)) 0" "rc_updated r = time_round t0 d"
    "rc_interval r = d" "rc_window r = w"
    using NewRollingCounter_ok [OF assms(1,2), of t0] assms(3) by auto
  then have "tracks r []" using assms(1) by (auto simp: tracks_def rolling_ok_def)
  moreover have "t0 div d \<le> time_round t0 d div d" and "time_round t0 d div d \<le> t0 div d + 1"
  proof -
    have "t0 - t0 mod d = t0 div d * d" by (rule minus_mod_eq_div_mult)
    moreover have "t0 + (d - t0 mod d) = (t0 div d + 1) * d"
      by (simp add: algebra_simps flip: minus_mod_eq_div_mult)
    ultimately have "time_round t0 d = t0 div d * d \<or> time_round t0 d = (t0 div d + 1) * d"
      using assms(2) by (auto simp: time_round_def Let_def)
    then show "t0 div d \<le> time_round t0 d div d" and "time_round t0 d div d \<le> t0 div d + 1"
      using assms(2) by auto
  qed
  ultimately show ?thesis using r by simp
qed

text \<open>
  C34. A counter is a sliding window: after any run of updates whose gaps stay below
  \<open>2 ^ 15 - 1\<close> intervals, its sum is the total of the amounts of the last \<open>window\<close> intervals,
  and no update panicked.
\<close>

theorem rolling_counter_window:
  assumes "0 < sint w" and "0 < d" and "2 ^ 15 * d \<le> max_duration"
    and "NewRollingCounter t0 w d = Some r0" and "evs \<noteq> []" and "paced d (t0 div d) evs"
  shows "\<exists>r. adds evs r0 = Some r \<and> rc_sum r =
    sum_list (map snd (filter (\<lambda>ev. fst (last evs) div d - sint w < fst ev div d) evs))"
proof -
  obtain t a rest where evs: "evs = (t, a) # rest" using assms(5) by (cases evs) auto
  have new: "tracks r0 []" "rc_interval r0 = d" "rc_window r0 = w"
    "t0 div d \<le> rc_updated r0 div d" "rc_updated r0 div d \<le> t0 div d + 1"
    using tracks_new [OF assms(1,2,4)] by auto
  obtain r1 where r1: "Add t a r0 = Some r1" "tracks r1 [(t, a)]" "rc_updated r1 div d = t div d"
    "rc_interval r1 = d" "rc_window r1 = w"
    by (rule tracks_Add [OF new(1) refl, of t a]) (use assms(3,6) new that in \<open>auto simp: evs\<close>)
  obtain r where r: "adds rest r1 = Some r" "tracks r (rev rest @ [(t, a)])" "rc_interval r = d"
    "rc_window r = w" "rc_updated r div d = fst (last evs) div d"
    using adds_tracks [OF r1(2) _ r1(4) _ assms(3), of rest] assms(6) r1(3,5)
    by (auto simp: evs split: if_splits)
  let ?P = "\<lambda>ev :: time \<times> 32 word. fst (last evs) div d - sint w < fst ev div d"
  have eq: "rev rest @ [(t, a)] = rev evs" by (simp add: evs)
  have "rc_sum r = sum_list (map snd (filter ?P (rev evs)))"
    using tracks_sum [OF r(2)] by (simp only: r(3,4,5) eq)
  also have "\<dots> = sum_list (map snd (filter ?P evs))"
    by (simp add: rev_filter [symmetric] rev_map [symmetric])
  finally have "rc_sum r = sum_list (map snd (filter ?P evs))" .
  moreover have "adds evs r0 = Some r" by (simp add: evs r1(1) r(1))
  ultimately show ?thesis by blast
qed

theorem rolling_counter_window_witness:
  "\<exists>r. adds [(10 * minute, 1), (11 * minute, 2), (16 * minute, 4)]
      (the (NewRollingCounter (10 * minute) 5 minute)) = Some r \<and>
    rc_sum r = 4"
proof -
  let ?evs = "[(10 * minute, 1), (11 * minute, 2), (16 * minute, 4)] :: (time \<times> 32 word) list"
  have "sint (5 :: 16 word) = 5" by simp
  moreover have "NewRollingCounter (10 * minute) 5 minute = Some (the (NewRollingCounter (10 * minute) 5 minute))"
    using NewRollingCounter_ok [of 5 minute "10 * minute"] by force
  moreover have "2 ^ 15 * minute \<le> max_duration" by (simp add: go_time max_duration_def)
  moreover have "paced minute (10 * minute div minute) ?evs" by simp
  ultimately show ?thesis
    using rolling_counter_window [of 5 minute "10 * minute" "the (NewRollingCounter (10 * minute) 5 minute)" ?evs]
      minute_pos by (simp del: adds.simps minute_pos)
qed

text \<open>
  The elapsed intervals are cut to 16 bits: when between \<open>2 ^ 15\<close> and \<open>2 ^ 16\<close> intervals
  have passed (23 to 45 days, for intervals of a minute), nothing is cleared, and
  the counts of long ago still stand as recent ones. Reading a saved counter does such an
  update of 0.
\<close>

theorem rolling_counter_stale:
  assumes "rolling_ok r" and "2 ^ 16 * rc_interval r \<le> max_duration"
    and "2 ^ 15 \<le> clock div rc_interval r - rc_updated r div rc_interval r"
    and "clock div rc_interval r - rc_updated r div rc_interval r < 2 ^ 16"
  shows "\<exists>r'. Add clock 0 r = Some r' \<and> ages r' = ages r \<and> Sum r' = Sum r"
proof -
  let ?d = "rc_interval r" and ?now = "time_truncate clock (rc_interval r)"
  define g where "g = clock div ?d - rc_updated r div ?d"
  have d: "0 < ?d" and dvd: "?d dvd rc_updated r" using assms(1) by (auto simp: rolling_ok_def)
  have eq: "?now - rc_updated r = g * ?d"
    using dvd d by (simp add: time_truncate_div g_def left_diff_distrib)
  have "g * ?d \<le> 2 ^ 16 * ?d" and "0 \<le> g * ?d"
    using assms(3,4) d by (simp_all add: g_def)
  then have sub: "time_sub ?now (rc_updated r) = g * ?d"
    using assms(2) by (simp add: time_sub_exact eq max_duration_def min_duration_def)
  have "(g * ?d) sdiv ?d = g"
    using d by (simp add: signed_divide_int_def abs_mult sgn_mult mult_sgn_abs)
  moreover have "sint (word_of_int g :: 16 word) = g - 2 ^ 16"
  proof -
    have "(word_of_int g :: 16 word) = word_of_int (g - 2 ^ 16)" by (simp add: word_of_int_eq_iff take_bit_eq_mod)
    moreover have "sint (word_of_int (g - 2 ^ 16) :: 16 word) = g - 2 ^ 16"
      using assms(3,4) by (intro sint_word_of_int_small) (simp_all add: g_def)
    ultimately show ?thesis by (simp only:)
  qed
  ultimately have "cleared ?now r = 0"
    using assms(4) by (simp add: cleared_def clear_intervals_def Let_def sub g_def)
  then obtain r' where r': "Add clock 0 r = Some r'" "rolling_ok r'" "ages r' = ages r"
    using Add_ages [OF assms(1), of clock 0] by (auto simp: age_by_def)
  then have "Sum r' = Sum r" using assms(1) by (simp add: Sum_def sum_ages)
  with r' show ?thesis by blast
qed

theorem rolling_counter_stale_witness:
  "\<exists>r'. Add (33000 * minute) 0 (the (Add 0 3 (the (NewRollingCounter 0 5 minute)))) = Some r' \<and> Sum r' = 3"
proof -
  let ?r = "the (Add 0 3 (the (NewRollingCounter 0 5 minute)))"
  have r: "?r = \<lparr>rc_buf = [3, 0, 0, 0, 0], rc_updated = 0, rc_window = 5, rc_interval = minute, rc_sum = 3, rc_pos = 0\<rparr>"
    by code_simp
  have "rolling_ok ?r" unfolding r by (simp add: rolling_ok_def in_range_def)
  moreover have "2 ^ 16 * rc_interval ?r \<le> max_duration"
    unfolding r by (simp add: go_time max_duration_def)
  moreover have "2 ^ 15 \<le> 33000 * minute div rc_interval ?r - rc_updated ?r div rc_interval ?r"
    and "33000 * minute div rc_interval ?r - rc_updated ?r div rc_interval ?r < 2 ^ 16"
    unfolding r by (simp_all add: go_time)
  ultimately obtain r' where "Add (33000 * minute) 0 ?r = Some r'" "Sum r' = Sum ?r"
    using rolling_counter_stale [of ?r "33000 * minute"] by blast
  moreover have "Sum ?r = 3" unfolding r by (simp add: Sum_def)
  ultimately show ?thesis by metis
qed

end
