(* ===== verification/CounterCodec.thy ===== *)
theory CounterCodec
  imports Counter
begin

text \<open>
  \<open>MarshalBinary\<close> and \<open>UnmarshalBinary\<close> of a rolling counter: its fields in a fixed order, as
  big-endian integers (\<open>encoding/binary\<close>). Reading back also performs an update of 0, which
  clears the intervals of the downtime.
\<close>

unbundle bit_operations_syntax

type_synonym byte = "8 word"

section \<open>Big-endian integers\<close>

fun be_bytes :: "nat \<Rightarrow> 'a :: len word \<Rightarrow> byte list" where
  "be_bytes 0 w = []"
| "be_bytes (Suc n) w = be_bytes n (drop_bit 8 w) @ [ucast w]"

definition be_value :: "byte list \<Rightarrow> 'a :: len word" where
  "be_value bs = foldl (\<lambda>acc b. push_bit 8 acc OR ucast b) 0 bs"

datatype io_error = EOF | UnexpectedEOF

text \<open>\<open>binary.Read\<close> of a fixed-width integer: the value and the unread bytes.\<close>

definition read_be :: "nat \<Rightarrow> byte list \<Rightarrow> io_error + ('a :: len word \<times> byte list)" where
  "read_be n bs =
     (if bs = [] then Inl EOF
      else if length bs < n then Inl UnexpectedEOF
      else Inr (be_value (take n bs), drop n bs))"

text \<open>\<open>binary.Read\<close> of a slice of \<open>k\<close> integers of 4 bytes; an empty slice needs no byte.\<close>

fun read_words :: "nat \<Rightarrow> byte list \<Rightarrow> 32 word list" where
  "read_words 0 bs = []"
| "read_words (Suc k) bs = be_value (take 4 bs) # read_words k (drop 4 bs)"

definition read_slice :: "nat \<Rightarrow> byte list \<Rightarrow> io_error + (32 word list \<times> byte list)" where
  "read_slice k bs =
     (if k = 0 then Inr ([], bs)
      else if bs = [] then Inl EOF
      else if length bs < 4 * k then Inl UnexpectedEOF
      else Inr (read_words k bs, drop (4 * k) bs))"

lemma length_be_bytes [simp]: "length (be_bytes n w) = n"
  by (induction n arbitrary: w) auto

lemma be_value_bytes: "be_value (be_bytes n w) = take_bit (8 * n) (w :: 'a :: len word)"
proof (induction n arbitrary: w)
  case 0
  then show ?case by (simp add: be_value_def)
next
  case (Suc n)
  have "be_value (be_bytes (Suc n) w) =
      push_bit 8 (take_bit (8 * n) (drop_bit 8 w)) OR (ucast (ucast w :: byte) :: 'a word)"
    using Suc [of "drop_bit 8 w"] by (simp add: be_value_def)
  also have "\<dots> = take_bit (8 * Suc n) w"
  proof (rule bit_word_eqI)
    fix i assume "i < LENGTH('a)"
    then show "bit (push_bit 8 (take_bit (8 * n) (drop_bit 8 w)) OR (ucast (ucast w :: byte) :: 'a word)) i
        = bit (take_bit (8 * Suc n) w) i"
      by (cases "i < 8") (auto simp: bit_simps)
  qed
  finally show ?case .
qed

lemma be_value_bytes_full: "LENGTH('a) \<le> 8 * n \<Longrightarrow> be_value (be_bytes n w) = (w :: 'a :: len word)"
  by (simp add: be_value_bytes take_bit_word_eq_self)

lemma read_be_bytes:
  "LENGTH('a) \<le> 8 * n \<Longrightarrow> 0 < n \<Longrightarrow> read_be n (be_bytes n w @ rest) = Inr (w :: 'a :: len word, rest)"
  using length_be_bytes [of n w] by (auto simp: read_be_def be_value_bytes_full simp del: length_be_bytes)

lemma read_words_bytes: "read_words (length xs) (concat (map (be_bytes 4) xs) @ rest) = xs"
  by (induction xs) (simp_all add: be_value_bytes_full)

lemma length_concat_bytes: "length (concat (map (be_bytes n) xs)) = n * length xs"
  by (induction xs) simp_all

lemma read_slice_bytes:
  "read_slice (length xs) (concat (map (be_bytes 4) xs) @ rest) = Inr (xs, rest)"
proof (cases "xs = []")
  case True
  then show ?thesis by (simp add: read_slice_def)
next
  case False
  then have "concat (map (be_bytes 4) xs) \<noteq> []"
    using length_concat_bytes [of 4 xs] by fastforce
  with False show ?thesis
    by (simp add: read_slice_def read_words_bytes length_concat_bytes)
qed

section \<open>The codec\<close>

definition MarshalBinary :: "rolling \<Rightarrow> byte list" where
  "MarshalBinary r =
     be_bytes 8 (word_of_int (int (length (rc_buf r))) :: 64 word) @
     concat (map (be_bytes 4) (rc_buf r)) @
     be_bytes 8 (word_of_int (unix_nano (rc_updated r)) :: 64 word) @
     be_bytes 2 (rc_window r) @
     be_bytes 8 (word_of_int (rc_interval r) :: 64 word) @
     be_bytes 4 (rc_sum r) @
     be_bytes 2 (rc_pos r)"

text \<open>\<open>time.Unix(0, nsec)\<close>.\<close>

definition from_unix_nano :: "int \<Rightarrow> time" where
  "from_unix_nano n = n + epoch_seconds * second"

text \<open>
  Bytes that end early are an error (\<open>Inl\<close>); a negative length panics in \<open>make\<close> (\<open>None\<close>), and
  so does the final update when the fields do not fit together.
\<close>

definition UnmarshalBinary :: "time \<Rightarrow> byte list \<Rightarrow> (io_error + rolling) option" where
  "UnmarshalBinary clock data =
     (case read_be 8 data of
        Inl e \<Rightarrow> Some (Inl e)
      | Inr (bufLen :: 64 word, data) \<Rightarrow>
     if sint bufLen < 0 then None else
     (case read_slice (nat (sint bufLen)) data of
        Inl e \<Rightarrow> Some (Inl e)
      | Inr (buf, data) \<Rightarrow>
     (case read_be 8 data of
        Inl e \<Rightarrow> Some (Inl e)
      | Inr (updatedNano :: 64 word, data) \<Rightarrow>
     (case read_be 2 data of
        Inl e \<Rightarrow> Some (Inl e)
      | Inr (window :: 16 word, data) \<Rightarrow>
     (case read_be 8 data of
        Inl e \<Rightarrow> Some (Inl e)
      | Inr (intervalNano :: 64 word, data) \<Rightarrow>
     (case read_be 4 data of
        Inl e \<Rightarrow> Some (Inl e)
      | Inr (tot :: 32 word, data) \<Rightarrow>
     (case read_be 2 data of
        Inl e \<Rightarrow> Some (Inl e)
      | Inr (pos :: 16 word, data) \<Rightarrow>
          map_option Inr
            (Add clock 0
               \<lparr>rc_buf = buf, rc_updated = from_unix_nano (sint updatedNano), rc_window = window,
                rc_interval = sint intervalNano, rc_sum = tot, rc_pos = pos\<rparr>))))))))"

lemma sint_64: "- (2 ^ 63) \<le> i \<Longrightarrow> i < 2 ^ 63 \<Longrightarrow> sint (word_of_int i :: 64 word) = i"
  by (simp add: sint_sbintrunc' signed_take_bit_int_eq_self)

definition storable :: "rolling \<Rightarrow> bool" where
  "storable r \<longleftrightarrow>
     int (length (rc_buf r)) < 2 ^ 63 \<and>
     - (2 ^ 63) \<le> unix_nano (rc_updated r) \<and> unix_nano (rc_updated r) < 2 ^ 63 \<and>
     - (2 ^ 63) \<le> rc_interval r \<and> rc_interval r < 2 ^ 63"

text \<open>
  C35. Reading back what was written gives the counter after an update of 0 at the time of
  the reading, for every counter whose fields fit their encoding.
\<close>

theorem counter_codec_roundtrip:
  assumes "storable r"
  shows "UnmarshalBinary clock (MarshalBinary r) = map_option Inr (Add clock 0 r)"
proof -
  have len: "sint (word_of_int (int (length (rc_buf r))) :: 64 word) = int (length (rc_buf r))"
    and upd: "sint (word_of_int (unix_nano (rc_updated r)) :: 64 word) = unix_nano (rc_updated r)"
    and ivl: "sint (word_of_int (rc_interval r) :: 64 word) = rc_interval r"
    using assms by (auto simp only: storable_def intro!: sint_64)
  have last: "read_be 2 (be_bytes 2 (rc_pos r)) = Inr (rc_pos r, [])"
    using read_be_bytes [of 2 "rc_pos r" "[]"] by simp
  have "from_unix_nano (unix_nano (rc_updated r)) = rc_updated r"
    by (simp add: from_unix_nano_def unix_nano_def)
  then have "UnmarshalBinary clock (MarshalBinary r) = map_option Inr (Add clock 0
      \<lparr>rc_buf = rc_buf r, rc_updated = rc_updated r, rc_window = rc_window r,
       rc_interval = rc_interval r, rc_sum = rc_sum r, rc_pos = rc_pos r\<rparr>)"
    by (simp add: UnmarshalBinary_def MarshalBinary_def read_be_bytes read_slice_bytes last len upd ivl
        del: be_bytes.simps of_int_of_nat_eq)
  then show ?thesis by (cases r) simp
qed

theorem counter_codec_roundtrip_witness:
  "UnmarshalBinary (from_unix_nano (7 * minute))
       (MarshalBinary (the (NewRollingCounter (from_unix_nano 0) 5 minute))) =
     map_option Inr (Add (from_unix_nano (7 * minute)) 0
       (the (NewRollingCounter (from_unix_nano 0) 5 minute)))"
proof -
  have "storable (the (NewRollingCounter (from_unix_nano 0) 5 minute))"
    by (simp add: storable_def NewRollingCounter_def unix_nano_def from_unix_nano_def
        epoch_seconds_def go_time time_round_def)
  then show ?thesis by (rule counter_codec_roundtrip)
qed

end
