(* ===== verification/Entry.thy ===== *)
theory Entry
  imports Pmux Counter "HOL-Library.Monad_Syntax"
begin

text \<open>
  \<open>pool/entry.go\<close>: what the pool knows of one proxy, and how an offer, a reply, the passing of
  time and the eviction policy change it. The clock is an argument; a method that reads it
  several times is given one instant. \<open>None\<close> is the panic of a counter.
\<close>

record monitorConfig =
  shards :: int
  offerLimit :: int
  evictSpanMinutes :: int
  shortTimeoutSleep :: duration
  longTimeoutSleep :: duration
  evictThresholdTimeouts :: int
  evictThresholdFailures :: int
  evictThresholdReanimations :: int

record entry =
  e_proxy :: proxy
  FirstSeen :: int
  LastSeen :: int
  ReanimateAfter :: time
  e_ok :: bool
  Speed :: duration
  Timeouts :: int
  Failures :: int
  Offered :: int
  Reanimated :: int
  Succeed :: int
  OfferShort :: rolling
  SuccessShort :: rolling
  TimeoutShort :: rolling
  FailureShort :: rolling
  Offer1D :: rolling
  Success1D :: rolling
  Timeout1D :: rolling
  Failure1D :: rolling
  HourOffered :: "int list"
  HourSucceed :: "int list"

section \<open>Operations\<close>

definition newEntry :: "time \<Rightarrow> proxy \<Rightarrow> duration \<Rightarrow> 16 word \<Rightarrow> entry option" where
  "newEntry now proxy speed span = do {
     short \<leftarrow> NewRollingCounter now span minute;
     day \<leftarrow> NewRollingCounter now 24 hour;
     Some \<lparr>e_proxy = proxy, FirstSeen = unix now, LastSeen = unix now, ReanimateAfter = 0,
       e_ok = True, Speed = speed, Timeouts = 0, Failures = 0, Offered = 0, Reanimated = 0,
       Succeed = 0, OfferShort = short, SuccessShort = short, TimeoutShort = short,
       FailureShort = short, Offer1D = day, Success1D = day, Timeout1D = day, Failure1D = day,
       HourOffered = replicate 24 0, HourSucceed = replicate 24 0\<rparr>
   }"

definition bump_at :: "nat \<Rightarrow> int list \<Rightarrow> int list" where
  "bump_at h xs = xs[h := xs ! h + 1]"

definition MarkSuccess :: "duration \<Rightarrow> time \<Rightarrow> entry \<Rightarrow> entry option" where
  "MarkSuccess zone now e = do {
     short \<leftarrow> Increment now (SuccessShort e);
     day \<leftarrow> Increment now (Success1D e);
     let e = e\<lparr>SuccessShort := short, Success1D := day\<rparr>;
     let h = hour_of zone now;
     let e = (if Succeed e + 1 < Offered e
              then e\<lparr>HourSucceed := bump_at h (HourSucceed e), Succeed := Succeed e + 1\<rparr>
              else e\<lparr>HourSucceed := (HourSucceed e)[h := HourOffered e ! h], Succeed := Offered e\<rparr>);
     Some (e\<lparr>e_ok := True, LastSeen := unix now, ReanimateAfter := 0\<rparr>)
   }"

text \<open>\<open>timeout\<close>: the error has a method \<open>Timeout\<close> and it returns true.\<close>

definition MarkFailure :: "time \<Rightarrow> bool \<Rightarrow> duration \<Rightarrow> entry \<Rightarrow> entry option" where
  "MarkFailure now timeout sleep e = do {
     let e = e\<lparr>e_ok := False, ReanimateAfter := now + sleep\<rparr>;
     (if timeout then do {
        short \<leftarrow> Increment now (TimeoutShort e);
        day \<leftarrow> Increment now (Timeout1D e);
        Some (e\<lparr>TimeoutShort := short, Timeout1D := day, Timeouts := Timeouts e + 1\<rparr>)
      } else do {
        short \<leftarrow> Increment now (FailureShort e);
        day \<leftarrow> Increment now (Failure1D e);
        Some (e\<lparr>FailureShort := short, Failure1D := day, Failures := Failures e + 1\<rparr>)
      })
   }"

definition RequestsShort :: "entry \<Rightarrow> int" where
  "RequestsShort e = Sum (SuccessShort e) + Sum (TimeoutShort e) + Sum (FailureShort e)"

definition RequestsComplete :: "entry \<Rightarrow> bool" where
  "RequestsComplete e =
     (let offers = Sum (OfferShort e)
      in if offers = 0 then False else offers = RequestsShort e)"

definition RequestsLong :: "entry \<Rightarrow> int" where
  "RequestsLong e = Sum (Success1D e) + Sum (Timeout1D e) + Sum (Failure1D e)"

definition Eviction :: "time \<Rightarrow> int \<Rightarrow> int \<Rightarrow> int \<Rightarrow> duration \<Rightarrow> entry \<Rightarrow> entry \<times> bool" where
  "Eviction now thTimeouts thFailures thReanimations sleep e =
     (if \<not> RequestsComplete e then (e, False)
      else
        let suceeded = Sum (SuccessShort e); timedOut = Sum (TimeoutShort e);
            failed = Sum (FailureShort e)
        in if suceeded = 0 \<and> timedOut > thTimeouts
           then (e\<lparr>e_ok := False, ReanimateAfter := now + sleep\<rparr>, False)
           else if suceeded = 0 \<and> failed > thFailures then (e\<lparr>e_ok := False\<rparr>, True)
           else if suceeded = 0 \<and> Reanimated e > thReanimations \<and> (timedOut > 0 \<or> failed > 0)
           then (e\<lparr>e_ok := False\<rparr>, True)
           else (e, False))"

definition ConsiderSkip :: "duration \<Rightarrow> time \<Rightarrow> int \<Rightarrow> entry \<Rightarrow> (entry \<times> bool) option" where
  "ConsiderSkip zone now limit e =
     (if Sum (OfferShort e) > limit then Some (e, True)
      else if Sum (SuccessShort e) = 0 \<and> Sum (FailureShort e) = 3
      then Some (e\<lparr>e_ok := False, ReanimateAfter := now + 30 * second\<rparr>, True)
      else if ReanimateAfter e > now then Some (e, True)
      else
        let e = (if ReanimateAfter e \<noteq> 0
                 then e\<lparr>ReanimateAfter := 0, Reanimated := Reanimated e + 1, e_ok := True\<rparr> else e)
        in if \<not> e_ok e then Some (e, True)
           else do {
             let e = e\<lparr>HourOffered := bump_at (hour_of zone now) (HourOffered e), Offered := Offered e + 1\<rparr>;
             short \<leftarrow> Increment now (OfferShort e);
             day \<leftarrow> Increment now (Offer1D e);
             Some (e\<lparr>OfferShort := short, Offer1D := day\<rparr>, False)
           })"

definition ReanimateIfNeeded :: "time \<Rightarrow> entry \<Rightarrow> entry \<times> bool" where
  "ReanimateIfNeeded now e =
     (if ReanimateAfter e = 0 then (e, False)
      else if ReanimateAfter e > now then (e, False)
      else (e\<lparr>ReanimateAfter := 0, Reanimated := Reanimated e + 1, e_ok := True\<rparr>, True))"

definition ForceReanimate :: "entry \<Rightarrow> entry" where
  "ForceReanimate e =
     (let e = e\<lparr>ReanimateAfter := 0\<rparr>
      in if \<not> e_ok e then e\<lparr>Reanimated := Reanimated e + 1, e_ok := True\<rparr> else e)"

definition SinceLastSeen :: "time \<Rightarrow> entry \<Rightarrow> duration" where
  "SinceLastSeen now e = time_sub now ((LastSeen e + epoch_seconds) * second)"

section \<open>Invariants\<close>

text \<open>
  The shape of an entry (its counters and arrays), and the relation between its fields that
  the pool keeps: successes do not exceed offers, and an entry that is not ok has a time
  after which it is tried again.
\<close>

definition counters_ok :: "entry \<Rightarrow> bool" where
  "counters_ok e \<longleftrightarrow>
     rolling_ok (OfferShort e) \<and> rolling_ok (SuccessShort e) \<and> rolling_ok (TimeoutShort e) \<and>
     rolling_ok (FailureShort e) \<and> rolling_ok (Offer1D e) \<and> rolling_ok (Success1D e) \<and>
     rolling_ok (Timeout1D e) \<and> rolling_ok (Failure1D e)"

definition entry_ok :: "entry \<Rightarrow> bool" where
  "entry_ok e \<longleftrightarrow>
     counters_ok e \<and> length (HourOffered e) = 24 \<and> length (HourSucceed e) = 24 \<and>
     0 \<le> Succeed e \<and> Succeed e \<le> Offered e"

definition waits :: "entry \<Rightarrow> bool" where
  "waits e \<longleftrightarrow> e_ok e \<or> ReanimateAfter e \<noteq> 0"

named_theorems entry_ops \<open>the operations on an entry\<close>
declare MarkSuccess_def [entry_ops] MarkFailure_def [entry_ops] Eviction_def [entry_ops]
  ConsiderSkip_def [entry_ops] ReanimateIfNeeded_def [entry_ops] ForceReanimate_def [entry_ops]

lemma counters_okD:
  assumes "counters_ok e"
  shows "rolling_ok (OfferShort e)" "rolling_ok (SuccessShort e)" "rolling_ok (TimeoutShort e)"
    "rolling_ok (FailureShort e)" "rolling_ok (Offer1D e)" "rolling_ok (Success1D e)"
    "rolling_ok (Timeout1D e)" "rolling_ok (Failure1D e)"
  using assms by (simp_all add: counters_ok_def)

lemma newEntry_ok:
  assumes "0 < sint span"
  shows "\<exists>e. newEntry now p sp span = Some e \<and> entry_ok e \<and> waits e \<and> e_proxy e = p \<and> Speed e = sp"
proof -
  obtain short day where "NewRollingCounter now span minute = Some short" "rolling_ok short"
    "NewRollingCounter now 24 hour = Some day" "rolling_ok day"
    using NewRollingCounter_ok [OF assms minute_pos, of now] NewRollingCounter_ok [of 24 hour now]
    by force
  then show ?thesis
    by (auto simp: newEntry_def entry_ok_def counters_ok_def waits_def)
qed

lemma length_bump_at [simp]: "length (bump_at h xs) = length xs"
  by (simp add: bump_at_def)

lemma MarkSuccess_total [panic_free]:
  assumes "entry_ok e"
  shows "\<exists>e'. MarkSuccess zone now e = Some e' \<and> entry_ok e' \<and> waits e' \<and>
    e_proxy e' = e_proxy e \<and> Speed e' = Speed e"
proof -
  note c = counters_okD [OF assms [unfolded entry_ok_def, THEN conjunct1]]
  obtain s d where "Increment now (SuccessShort e) = Some s" "rolling_ok s"
    "Increment now (Success1D e) = Some d" "rolling_ok d"
    using Increment_total [OF c(2)] Increment_total [OF c(6)] by metis
  then show ?thesis
    using assms by (auto simp: MarkSuccess_def Let_def entry_ok_def counters_ok_def waits_def)
qed

lemma MarkFailure_total [panic_free]:
  assumes "entry_ok e"
  shows "\<exists>e'. MarkFailure now timeout sleep e = Some e' \<and> entry_ok e' \<and>
    \<not> e_ok e' \<and> ReanimateAfter e' = now + sleep \<and> e_proxy e' = e_proxy e \<and> Speed e' = Speed e"
proof -
  note c = counters_okD [OF assms [unfolded entry_ok_def, THEN conjunct1]]
  obtain s d s' d' where "Increment now (TimeoutShort e) = Some s" "rolling_ok s"
    "Increment now (Timeout1D e) = Some d" "rolling_ok d"
    "Increment now (FailureShort e) = Some s'" "rolling_ok s'"
    "Increment now (Failure1D e) = Some d'" "rolling_ok d'"
    using Increment_total [OF c(3)] Increment_total [OF c(7)]
      Increment_total [OF c(4)] Increment_total [OF c(8)] by metis
  then show ?thesis
    using assms by (auto simp: MarkFailure_def Let_def entry_ok_def counters_ok_def)
qed

lemma Eviction_ok:
  assumes "entry_ok e" and "Eviction now t f r sleep e = (e', gone)"
  shows "entry_ok e' \<and> e_proxy e' = e_proxy e \<and> Speed e' = Speed e"
  using assms by (auto simp: Eviction_def Let_def entry_ok_def counters_ok_def split: if_splits)

lemma Eviction_waits:
  assumes "waits e" and "0 < now" and "0 \<le> sleep" and "Eviction now t f r sleep e = (e', False)"
  shows "waits e'"
  using assms by (auto simp: Eviction_def Let_def waits_def split: if_splits)

lemma ReanimateIfNeeded_ok:
  assumes "entry_ok e" and "ReanimateIfNeeded now e = (e', b)"
  shows "entry_ok e' \<and> (waits e \<longrightarrow> waits e') \<and> e_proxy e' = e_proxy e \<and> Speed e' = Speed e"
  using assms by (auto simp: ReanimateIfNeeded_def entry_ok_def counters_ok_def waits_def split: if_splits)

lemma ForceReanimate_ok:
  "entry_ok e \<Longrightarrow> entry_ok (ForceReanimate e)" "e_ok (ForceReanimate e)"
  "e_proxy (ForceReanimate e) = e_proxy e" "Speed (ForceReanimate e) = Speed e"
  by (auto simp: ForceReanimate_def entry_ok_def counters_ok_def Let_def)

text \<open>When an entry can be offered, and what the offer leaves behind.\<close>

definition offerable :: "time \<Rightarrow> int \<Rightarrow> entry \<Rightarrow> bool" where
  "offerable now limit e \<longleftrightarrow>
     Sum (OfferShort e) \<le> limit \<and> \<not> (Sum (SuccessShort e) = 0 \<and> Sum (FailureShort e) = 3) \<and>
     ReanimateAfter e \<le> now \<and> (e_ok e \<or> ReanimateAfter e \<noteq> 0)"

lemma ConsiderSkip_cases:
  assumes "entry_ok e"
  obtains (offer) e' where "offerable now limit e" "ConsiderSkip zone now limit e = Some (e', False)"
      "entry_ok e'" "e_ok e'" "ReanimateAfter e' = 0" "Offered e' = Offered e + 1"
      "Reanimated e' = Reanimated e + (if ReanimateAfter e = 0 then 0 else 1)"
      "e_proxy e' = e_proxy e" "Speed e' = Speed e"
    | (skip) e' where "\<not> offerable now limit e" "ConsiderSkip zone now limit e = Some (e', True)"
      "entry_ok e'" "e' = e \<or> Sum (FailureShort e) = 3 \<and> e' = e\<lparr>e_ok := False, ReanimateAfter := now + 30 * second\<rparr>"
proof (cases "offerable now limit e")
  case True
  obtain s d where inc: "Increment now (OfferShort e) = Some s" "rolling_ok s"
    "Increment now (Offer1D e) = Some d" "rolling_ok d"
    using Increment_total counters_okD [OF assms [unfolded entry_ok_def, THEN conjunct1]] by metis
  let ?e = "e\<lparr>ReanimateAfter := 0, e_ok := True,
    Reanimated := Reanimated e + (if ReanimateAfter e = 0 then 0 else 1),
    HourOffered := bump_at (hour_of zone now) (HourOffered e), Offered := Offered e + 1,
    OfferShort := s, Offer1D := d\<rparr>"
  have "ConsiderSkip zone now limit e = Some (?e, False)"
    using True inc by (cases e) (auto simp: ConsiderSkip_def offerable_def Let_def)
  then show ?thesis
    using inc assms by (intro offer [OF True, of ?e]) (auto simp: entry_ok_def counters_ok_def)
next
  case False
  let ?e = "if Sum (SuccessShort e) = 0 \<and> Sum (FailureShort e) = 3 \<and> \<not> Sum (OfferShort e) > limit
    then e\<lparr>e_ok := False, ReanimateAfter := now + 30 * second\<rparr> else e"
  from False have "ConsiderSkip zone now limit e = Some (?e, True)"
    by (auto simp: ConsiderSkip_def offerable_def Let_def)
  then show ?thesis using assms
    by (intro skip [OF False, of ?e]) (auto simp: entry_ok_def counters_ok_def)
qed

lemma ConsiderSkip_keeps [panic_free]:
  assumes "entry_ok e" and "0 < now"
  shows "\<exists>e' skip. ConsiderSkip zone now limit e = Some (e', skip) \<and> entry_ok e' \<and>
    e_proxy e' = e_proxy e \<and> Speed e' = Speed e \<and> (waits e \<longrightarrow> waits e')"
proof -
  have "0 < now + 30 * second" using assms(2) by (simp add: add_pos_pos)
  then show ?thesis
    by (cases rule: ConsiderSkip_cases [OF assms(1), of now limit zone]) (auto simp: waits_def)
qed

section \<open>The life of an entry\<close>

text \<open>
  What a shard does with one entry: offer it to a request, book the reply, the tick of a minute
  (\<open>handleReanimate\<close> then \<open>checkEviction\<close>) and the reanimation at the start. The life ends when
  the entry is evicted.
\<close>

datatype event = Offer time | Replied time | Failed time bool | Minute time | Revive

datatype outcome = Taken | Skipped | Kept | Gone

fun apply_event :: "monitorConfig \<Rightarrow> duration \<Rightarrow> event \<Rightarrow> entry \<Rightarrow> (entry \<times> outcome) option" where
  "apply_event c zone (Offer now) e =
     map_option (\<lambda>(e, skip). (e, if skip then Skipped else Taken)) (ConsiderSkip zone now (offerLimit c) e)"
| "apply_event c zone (Replied now) e = map_option (\<lambda>e. (e, Kept)) (MarkSuccess zone now e)"
| "apply_event c zone (Failed now timeout) e =
     map_option (\<lambda>e. (e, Kept)) (MarkFailure now timeout (shortTimeoutSleep c) e)"
| "apply_event c zone (Minute now) e =
     (let (e, gone) = Eviction now (evictThresholdTimeouts c) (evictThresholdFailures c)
            (evictThresholdReanimations c) (longTimeoutSleep c) (fst (ReanimateIfNeeded now e))
      in Some (e, if gone then Gone else Kept))"
| "apply_event c zone Revive e = Some (ForceReanimate e, Kept)"

fun life :: "monitorConfig \<Rightarrow> duration \<Rightarrow> event list \<Rightarrow> entry \<Rightarrow> (entry \<times> outcome list) option" where
  "life c zone [] e = Some (e, [])"
| "life c zone (ev # evs) e = (case apply_event c zone ev e of
     None \<Rightarrow> None
   | Some (e, Gone) \<Rightarrow> Some (e, [Gone])
   | Some (e, out) \<Rightarrow> map_option (\<lambda>(e, outs). (e, out # outs)) (life c zone evs e))"

fun event_time :: "event \<Rightarrow> time option" where
  "event_time (Offer now) = Some now"
| "event_time (Replied now) = Some now"
| "event_time (Failed now timeout) = Some now"
| "event_time (Minute now) = Some now"
| "event_time Revive = None"

definition clocked :: "event list \<Rightarrow> bool" where
  "clocked evs \<longleftrightarrow> (\<forall>t. Some t \<in> event_time ` set evs \<longrightarrow> 0 < t)"

text \<open>An invariant of single events that rules out the panic holds along a life.\<close>

lemma life_invariant:
  assumes "\<And>e ev. ev \<in> set evs \<Longrightarrow> I e \<Longrightarrow>
      \<exists>e' out. apply_event c zone ev e = Some (e', out) \<and> (out \<noteq> Gone \<longrightarrow> I e') \<and> J e' \<and> P out"
    and "I e" and "J e"
  shows "\<exists>e' outs. life c zone evs e = Some (e', outs) \<and>
    (Gone \<notin> set outs \<longrightarrow> I e') \<and> J e' \<and> (\<forall>out \<in> set outs. P out)"
  using assms
proof (induction evs arbitrary: e)
  case Nil
  then show ?case by simp
next
  case (Cons ev evs)
  obtain e1 out where e1: "apply_event c zone ev e = Some (e1, out)" "out \<noteq> Gone \<longrightarrow> I e1" "J e1" "P out"
    using Cons.prems(1) [of ev e] Cons.prems(2) by auto
  show ?case
  proof (cases "out = Gone")
    case True
    with e1 show ?thesis by simp
  next
    case False
    then obtain e' outs where "life c zone evs e1 = Some (e', outs)" "Gone \<notin> set outs \<longrightarrow> I e'"
      "J e'" "\<forall>out \<in> set outs. P out"
      using Cons.IH [of e1] Cons.prems(1) e1 by auto
    with e1 False show ?thesis by (cases out) auto
  qed
qed

lemma apply_event_ok:
  assumes "entry_ok e" and "waits e" and "\<And>t. event_time ev = Some t \<Longrightarrow> 0 < t"
    and "0 \<le> shortTimeoutSleep c" and "0 \<le> longTimeoutSleep c"
  shows "\<exists>e' out. apply_event c zone ev e = Some (e', out) \<and> entry_ok e' \<and> (out \<noteq> Gone \<longrightarrow> waits e') \<and>
    e_proxy e' = e_proxy e"
proof (cases ev)
  case (Offer now)
  then have "0 < now + 30 * second" using assms(3) [of now] by (simp add: add_pos_pos)
  then show ?thesis
    by (cases rule: ConsiderSkip_cases [OF assms(1), of now "offerLimit c" zone])
      (use Offer assms in \<open>auto simp: waits_def\<close>)
next
  case (Replied now)
  then show ?thesis using MarkSuccess_total [OF assms(1), of zone now] by auto
next
  case (Failed now timeout)
  then show ?thesis
    using MarkFailure_total [OF assms(1), of now timeout "shortTimeoutSleep c"] assms(3,4)
    by (auto simp: waits_def)
next
  case (Minute now)
  obtain e1 b where r: "ReanimateIfNeeded now e = (e1, b)" by force
  obtain e2 gone where v: "Eviction now (evictThresholdTimeouts c) (evictThresholdFailures c)
      (evictThresholdReanimations c) (longTimeoutSleep c) e1 = (e2, gone)" by force
  show ?thesis
    using ReanimateIfNeeded_ok [OF assms(1) r] Eviction_ok [OF _ v] Eviction_waits [of e1 now] v assms Minute r
    by auto
next
  case Revive
  then show ?thesis using assms ForceReanimate_ok [of e] by (simp add: waits_def)
qed

text \<open>Once the offers are over the limit nothing but a restart brings them down.\<close>

definition starved :: "monitorConfig \<Rightarrow> entry \<Rightarrow> bool" where
  "starved c e \<longleftrightarrow> offerLimit c < Sum (OfferShort e)"

lemma apply_event_starved:
  assumes "entry_ok e" and "starved c e"
  shows "\<exists>e' out. apply_event c zone ev e = Some (e', out) \<and> (entry_ok e' \<and> starved c e') \<and> out \<noteq> Taken"
proof (cases ev)
  case (Offer now)
  show ?thesis
    by (rule ConsiderSkip_cases [OF assms(1), of now "offerLimit c" zone])
      (use Offer assms in \<open>auto simp: starved_def offerable_def\<close>)
next
  case (Replied now)
  then obtain e' where "MarkSuccess zone now e = Some e'" "entry_ok e'" 
    using MarkSuccess_total [OF assms(1), of zone now] by auto
  moreover from this have "OfferShort e' = OfferShort e"
    by (auto simp: MarkSuccess_def Let_def split: bind_splits if_splits)
  ultimately show ?thesis using Replied assms by (simp add: starved_def)
next
  case (Failed now timeout)
  then obtain e' where "MarkFailure now timeout (shortTimeoutSleep c) e = Some e'" "entry_ok e'" 
    using MarkFailure_total [OF assms(1), of now timeout "shortTimeoutSleep c"] by auto
  moreover from this have "OfferShort e' = OfferShort e"
    by (auto simp: MarkFailure_def Let_def split: bind_splits if_splits)
  ultimately show ?thesis using Failed assms by (simp add: starved_def)
next
  case (Minute now)
  obtain e1 b where r: "ReanimateIfNeeded now e = (e1, b)" by force
  obtain e2 gone where v: "Eviction now (evictThresholdTimeouts c) (evictThresholdFailures c)
      (evictThresholdReanimations c) (longTimeoutSleep c) e1 = (e2, gone)" by force
  have "OfferShort e2 = OfferShort e"
    using r v by (auto simp: ReanimateIfNeeded_def Eviction_def Let_def split: if_splits)
  then show ?thesis
    using ReanimateIfNeeded_ok [OF assms(1) r] Eviction_ok [OF _ v] v assms Minute r
    by (auto simp: starved_def)
next
  case Revive
  then show ?thesis using assms ForceReanimate_ok [of e]
    by (auto simp: starved_def ForceReanimate_def Let_def)
qed

text \<open>
  An entry that timed out too often is put to sleep by every minute's eviction check, since
  its counts do not age while it is not used.
\<close>

fun ticking :: "duration \<Rightarrow> time \<Rightarrow> event list \<Rightarrow> bool" where
  "ticking d t [] = True"
| "ticking d t (Offer now # evs) = (t \<le> now \<and> now < t + d \<and> ticking d t evs)"
| "ticking d t (Minute now # evs) = (t \<le> now \<and> now < t + d \<and> ticking d now evs)"
| "ticking d t (ev # evs) = False"

definition timed_out :: "monitorConfig \<Rightarrow> entry \<Rightarrow> bool" where
  "timed_out c e \<longleftrightarrow> entry_ok e \<and> RequestsComplete e \<and> Sum (SuccessShort e) = 0 \<and>
     evictThresholdTimeouts c < Sum (TimeoutShort e)"

lemma timed_out_Minute:
  assumes "timed_out c e"
  shows "\<exists>e'. apply_event c zone (Minute now) e = Some (e', Kept) \<and> timed_out c e' \<and>
    ReanimateAfter e' = now + longTimeoutSleep c"
  using assms
  by (auto simp: timed_out_def ReanimateIfNeeded_def Eviction_def RequestsComplete_def
      RequestsShort_def entry_ok_def counters_ok_def Let_def)

lemma timed_out_Offer:
  assumes "timed_out c e" and "now < ReanimateAfter e \<or> Sum (FailureShort e) = 3"
  shows "\<exists>e'. apply_event c zone (Offer now) e = Some (e', Skipped) \<and> timed_out c e' \<and>
    (e' = e \<or> Sum (FailureShort e') = 3)"
  by (rule ConsiderSkip_cases [of e now "offerLimit c" zone])
    (use assms in \<open>auto simp: timed_out_def offerable_def RequestsComplete_def RequestsShort_def Let_def\<close>)

lemma timed_out_life:
  assumes "timed_out c e" and "ReanimateAfter e = t + longTimeoutSleep c \<or> Sum (FailureShort e) = 3"
    and "ticking (longTimeoutSleep c) t evs"
  shows "\<exists>e' outs. life c zone evs e = Some (e', outs) \<and> timed_out c e' \<and> Taken \<notin> set outs \<and> Gone \<notin> set outs"
  using assms
proof (induction "longTimeoutSleep c" t evs arbitrary: e rule: ticking.induct)
  case (2 t now evs)
  then obtain e1 where e1: "apply_event c zone (Offer now) e = Some (e1, Skipped)" "timed_out c e1"
    "e1 = e \<or> Sum (FailureShort e1) = 3"
    using timed_out_Offer [of c e now zone] by auto
  have "ReanimateAfter e1 = t + longTimeoutSleep c \<or> Sum (FailureShort e1) = 3"
    and "ticking (longTimeoutSleep c) t evs" using "2.prems" e1(3) by auto
  then obtain e' outs where "life c zone evs e1 = Some (e', outs)" "timed_out c e'"
    "Taken \<notin> set outs" "Gone \<notin> set outs"
    using "2.hyps" [OF e1(2)] by blast
  with e1 show ?case by (simp del: apply_event.simps)
next
  case (3 t now evs)
  obtain e1 where e1: "apply_event c zone (Minute now) e = Some (e1, Kept)" "timed_out c e1"
    "ReanimateAfter e1 = now + longTimeoutSleep c"
    using timed_out_Minute [OF "3.prems"(1)] by blast
  have "ticking (longTimeoutSleep c) now evs" using "3.prems" by simp
  then obtain e' outs where "life c zone evs e1 = Some (e', outs)" "timed_out c e'"
    "Taken \<notin> set outs" "Gone \<notin> set outs"
    using "3.hyps" [OF e1(2)] e1(3) by blast
  with e1 show ?case by (simp del: apply_event.simps)
qed simp_all

section \<open>Properties\<close>

text \<open>\<open>http://5.6.7.8:80\<close>.\<close>

abbreviation sample_proxy :: proxy where "sample_proxy \<equiv> 0x0506070800500000"

definition default_config :: monitorConfig where
  "default_config = \<lparr>shards = 1, offerLimit = 25, evictSpanMinutes = 5, shortTimeoutSleep = minute,
     longTimeoutSleep = hour, evictThresholdTimeouts = 3, evictThresholdFailures = 3,
     evictThresholdReanimations = 10\<rparr>"

text \<open>
  C30. Over any life of an entry of the pool nothing panics, its proxy stays, its successes
  never exceed its offers, its arrays keep a slot per hour, and, until it is evicted, an entry
  that is not ok has a time set for its reanimation: the branch of \<open>ConsiderSkip\<close> that the
  code asks about ("is this statement even reachable?") is not.
\<close>

theorem entry_lifecycle:
  assumes "0 < sint span" and "newEntry t0 p speed span = Some e0" and "clocked evs"
    and "0 \<le> shortTimeoutSleep c" and "0 \<le> longTimeoutSleep c"
  shows "\<exists>e outs. life c zone evs e0 = Some (e, outs) \<and> e_proxy e = p \<and> Succeed e \<le> Offered e \<and>
    length (HourOffered e) = 24 \<and> length (HourSucceed e) = 24 \<and>
    (Gone \<notin> set outs \<longrightarrow> e_ok e \<or> ReanimateAfter e \<noteq> 0)"
proof -
  have new: "entry_ok e0 \<and> waits e0" "e_proxy e0 = p"
    using newEntry_ok [OF assms(1), of t0 p speed] assms(2) by auto
  have "\<exists>e' out. apply_event c zone ev e = Some (e', out) \<and> (out \<noteq> Gone \<longrightarrow> entry_ok e' \<and> waits e' \<and> e_proxy e' = p) \<and>
      (entry_ok e' \<and> e_proxy e' = p) \<and> True"
    if "ev \<in> set evs" "entry_ok e \<and> waits e \<and> e_proxy e = p" for e ev
    using apply_event_ok [of e ev c zone] that assms(3,4,5) by (fastforce simp: clocked_def image_iff)
  from life_invariant [where P = "\<lambda>_. True", OF this, of evs e0] new
  show ?thesis by (auto simp: entry_ok_def waits_def)
qed

theorem entry_lifecycle_witness:
  "\<exists>e outs. life default_config 0 [Offer minute, Failed minute True, Minute (3 * minute), Offer (3 * minute), Replied (3 * minute)]
     (the (newEntry minute sample_proxy second 5)) = Some (e, outs) \<and> Succeed e \<le> Offered e"
proof -
  let ?e = "newEntry minute sample_proxy second 5"
  have "?e = Some (the ?e)" using newEntry_ok [of 5 minute sample_proxy second] by force
  moreover have "clocked [Offer minute, Failed minute True, Minute (3 * minute), Offer (3 * minute), Replied (3 * minute)]"
    by (auto simp: clocked_def)
  ultimately show ?thesis
    using entry_lifecycle [of 5 minute sample_proxy second "the ?e" _ default_config 0]
    by (fastforce simp: default_config_def go_time)
qed

text \<open>
  C29. An entry is offered exactly when it had no more offers than the limit, has not failed three times
  without a success, is not asleep, and is ok or due for reanimation. The offer is counted once,
  and clears the sleep.
\<close>

theorem consider_skip_spec:
  assumes "entry_ok e"
  shows "\<exists>e' skipped. ConsiderSkip zone now limit e = Some (e', skipped) \<and>
    (skipped \<longleftrightarrow> Sum (OfferShort e) > limit \<or> Sum (SuccessShort e) = 0 \<and> Sum (FailureShort e) = 3 \<or>
       ReanimateAfter e > now \<or> \<not> e_ok e \<and> ReanimateAfter e = 0) \<and>
    (if skipped then Offered e' = Offered e \<and> OfferShort e' = OfferShort e
     else Offered e' = Offered e + 1 \<and> e_ok e' \<and> ReanimateAfter e' = 0 \<and>
       Reanimated e' = Reanimated e + (if ReanimateAfter e = 0 then 0 else 1))"
  by (rule ConsiderSkip_cases [OF assms, of now limit zone]) (fastforce simp: offerable_def)+

theorem consider_skip_spec_witness:
  "\<exists>e'. ConsiderSkip 0 minute 25 (the (newEntry minute sample_proxy second 5)) = Some (e', False) \<and>
    Offered e' = 1"
proof -
  obtain e where e: "newEntry minute sample_proxy second 5 = Some e" "entry_ok e"
    using newEntry_ok [of 5 minute sample_proxy second] by auto
  have "Offered e = 0" "ReanimateAfter e = 0" "e_ok e" "Sum (OfferShort e) = 0" "Sum (FailureShort e) = 0"
    using e(1) by (auto simp: newEntry_def NewRollingCounter_def Sum_def split: bind_splits if_splits)
  then show ?thesis using consider_skip_spec [OF e(2), of 0 minute 25] e(1)
    by (auto simp: go_time split: if_splits)
qed

text \<open>
  The offer limit is meant for the last minutes, but the count only ages when an offer is
  counted, and no offer is counted over the limit: once over it, an entry is never offered
  again, whatever the time and the events.
\<close>

theorem offer_limit_is_final:
  assumes "entry_ok e" and "offerLimit c < Sum (OfferShort e)"
  shows "\<exists>e' outs. life c zone evs e = Some (e', outs) \<and> Taken \<notin> set outs"
proof -
  have step: "\<exists>e' out. apply_event c zone ev e = Some (e', out) \<and> (out \<noteq> Gone \<longrightarrow> entry_ok e' \<and> starved c e') \<and>
      True \<and> out \<noteq> Taken" if "entry_ok e \<and> starved c e" for e ev
    using apply_event_starved [of e c zone ev] that by blast
  have "entry_ok e \<and> starved c e" using assms by (simp add: starved_def)
  from life_invariant [where P = "\<lambda>out. out \<noteq> Taken", OF step this TrueI]
  show ?thesis by blast
qed

definition one_offer_config :: monitorConfig where
  "one_offer_config = default_config\<lparr>offerLimit := 0\<rparr>"

theorem offer_limit_is_final_witness:
  "\<exists>e' outs. life one_offer_config 0 [Minute (1000 * hour), Offer (1000 * hour)]
     (fst (the (ConsiderSkip 0 minute 0 (the (newEntry minute sample_proxy second 5))))) = Some (e', outs) \<and>
    Taken \<notin> set outs"
proof -
  let ?n = "the (newEntry minute sample_proxy second 5)"
  let ?e = "fst (the (ConsiderSkip 0 minute 0 ?n))"
  have n: "entry_ok ?n" using newEntry_ok [of 5 minute sample_proxy second] by force
  have "entry_ok ?e"
    by (rule ConsiderSkip_cases [OF n, of minute 0 0]) auto
  moreover have "offerLimit one_offer_config < Sum (OfferShort ?e)" by code_simp
  ultimately show ?thesis by (rule offer_limit_is_final)
qed

text \<open>
  An entry whose requests of the short window all timed out, more of them than the threshold,
  is never offered and never evicted as long as the minutes tick: each eviction check, meant to make it
  sleep for \<open>longTimeoutSleep\<close>, puts the end of the sleep off again.
\<close>

theorem timeouts_sleep_forever:
  assumes "entry_ok e" and "RequestsComplete e" and "Sum (SuccessShort e) = 0"
    and "evictThresholdTimeouts c < Sum (TimeoutShort e)"
    and "ReanimateAfter e = t + longTimeoutSleep c" and "ticking (longTimeoutSleep c) t evs"
  shows "\<exists>e' outs. life c zone evs e = Some (e', outs) \<and> Taken \<notin> set outs \<and> Gone \<notin> set outs"
  using timed_out_life [of c e t evs zone] assms by (auto simp: timed_out_def)

definition times_out_once :: monitorConfig where
  "times_out_once = default_config\<lparr>evictThresholdTimeouts := 0\<rparr>"

theorem timeouts_sleep_forever_witness:
  "\<exists>e' outs. life times_out_once 0 [Offer (30 * minute), Minute (31 * minute), Minute (61 * minute), Offer (70 * minute)]
     (fst (the (life times_out_once 0 [Offer minute, Failed minute True, Minute minute]
        (the (newEntry minute sample_proxy second 5))))) = Some (e', outs) \<and>
    Taken \<notin> set outs \<and> Gone \<notin> set outs"
proof -
  let ?n = "the (newEntry minute sample_proxy second 5)"
  let ?evs = "[Offer minute, Failed minute True, Minute minute]"
  let ?e = "fst (the (life times_out_once 0 ?evs ?n))"
  have n: "newEntry minute sample_proxy second 5 = Some ?n" "entry_ok ?n \<and> waits ?n"
    using newEntry_ok [of 5 minute sample_proxy second] by force+
  have pol: "0 \<le> shortTimeoutSleep times_out_once" "0 \<le> longTimeoutSleep times_out_once"
    by (simp_all add: times_out_once_def default_config_def go_time)
  have "\<exists>e' out. apply_event times_out_once 0 ev e = Some (e', out) \<and> (out \<noteq> Gone \<longrightarrow> entry_ok e' \<and> waits e') \<and>
      entry_ok e' \<and> True" if "ev \<in> set ?evs" "entry_ok e \<and> waits e" for e ev
    using apply_event_ok [of e ev times_out_once 0, OF _ _ _ pol] that by fastforce
  from life_invariant [where P = "\<lambda>_. True", OF this n(2) conjunct1 [OF n(2)]]
  obtain e outs where "life times_out_once 0 ?evs ?n = Some (e, outs)" "entry_ok e" by blast
  then have "entry_ok ?e" by simp
  moreover have "RequestsComplete ?e" and "Sum (SuccessShort ?e) = 0"
    and "evictThresholdTimeouts times_out_once < Sum (TimeoutShort ?e)"
    and "ReanimateAfter ?e = minute + longTimeoutSleep times_out_once" by code_simp+
  moreover have "ticking (longTimeoutSleep times_out_once) minute
      [Offer (30 * minute), Minute (31 * minute), Minute (61 * minute), Offer (70 * minute)]"
    by code_simp
  ultimately show ?thesis by (rule timeouts_sleep_forever)
qed

end
