(* ===== verification/Http.thy ===== *)
theory Http
  imports Pmux
begin

text \<open>
  The part of Go's \<open>net/http\<close> the program uses: headers as multi-valued maps (the program only
  names headers in their canonical spelling), requests with the proxy their context
  carries, and responses. A body is the bytes that are left to read.
\<close>

type_synonym header = "string \<rightharpoonup> string list"

definition header_get :: "header \<Rightarrow> string \<Rightarrow> string" where
  "header_get h k = (case h k of Some (v # vs) \<Rightarrow> v | _ \<Rightarrow> [])"

definition header_set :: "string \<Rightarrow> string \<Rightarrow> header \<Rightarrow> header" where
  "header_set k v h = h(k \<mapsto> [v])"

definition header_add :: "string \<Rightarrow> string \<Rightarrow> header \<Rightarrow> header" where
  "header_add k v h = h(k \<mapsto> (case h k of None \<Rightarrow> [] | Some vs \<Rightarrow> vs) @ [v])"

definition header_del :: "string \<Rightarrow> header \<Rightarrow> header" where
  "header_del k h = h(k := None)"

lemma header_get_set [simp]: "header_get (header_set k v h) k' = (if k' = k then v else header_get h k')"
  by (simp add: header_get_def header_set_def)

lemma header_get_del [simp]: "header_get (header_del k h) k' = (if k' = k then [] else header_get h k')"
  by (simp add: header_get_def header_del_def)

lemma header_get_add: "header_get h k = [] \<Longrightarrow> h k = None \<Longrightarrow> header_get (header_add k v h) k = v"
  by (simp add: header_get_def header_add_def)

record http_request =
  Method :: string
  URL :: string
  RqHeader :: header
  RqBody :: "8 word list"
  RqProxy :: "proxy option"

record http_response =
  StatusCode :: int
  Status :: string
  RsHeader :: header
  RsBody :: "8 word list"

text \<open>An error, by its text and the answer of its \<open>Timeout\<close> method (false where it has none).\<close>

record go_error =
  err_text :: string
  err_timeout :: bool

text \<open>\<open>pmux.Proxy.InContext\<close> and \<open>pmux.GetProxyFromContext\<close>.\<close>

definition InContext :: "proxy \<Rightarrow> http_request \<Rightarrow> http_request" where
  "InContext p rq = rq\<lparr>RqProxy := Some p\<rparr>"

definition GetProxyFromContext :: "http_request \<Rightarrow> proxy" where
  "GetProxyFromContext rq = (case RqProxy rq of None \<Rightarrow> 0 | Some p \<Rightarrow> p)"

text \<open>\<open>pmux.ProxyFromContext\<close>: the URL the transport dials, none for a direct connection.\<close>

definition ProxyFromContext :: "http_request \<Rightarrow> string option" where
  "ProxyFromContext rq = (let p = GetProxyFromContext rq in if p = 0 then None else Some (String p))"

lemma GetProxyFromContext_InContext [simp]: "GetProxyFromContext (InContext p rq) = p"
  by (simp add: GetProxyFromContext_def InContext_def)

end
