(* ===== verification/Floats.thy ===== *)
theory Floats
  imports Prelude Complex_Main
begin

text \<open>
  Go's \<open>float32\<close> and \<open>float64\<close>: IEEE 754 binary formats. A finite value is the rational it
  denotes, so \<open>+0\<close> and \<open>-0\<close> coincide (the program never tells them apart); every operation
  computes the exact rational result and rounds it to nearest, ties to even, at the
  precision and exponent range of the format.
\<close>

datatype gofloat = NaN | NInf | Fin rat | PInf

section \<open>Rounding\<close>

text \<open>A format: bits of the significand, least exponent of a unit, largest exponent.\<close>

record format =
  prec :: nat
  emin :: int
  emax :: int

definition binary32 :: format where "binary32 = \<lparr>prec = 24, emin = -149, emax = 127\<rparr>"
definition binary64 :: format where "binary64 = \<lparr>prec = 53, emin = -1074, emax = 1023\<rparr>"

fun bit_length :: "nat \<Rightarrow> nat" where
  "bit_length n = (if n = 0 then 0 else Suc (bit_length (n div 2)))"

declare bit_length.simps [simp del]

definition two_to :: "int \<Rightarrow> rat" where
  "two_to e = (if 0 \<le> e then 2 ^ nat e else 1 / 2 ^ nat (- e))"

text \<open>The exponent \<open>k\<close> with \<open>2^k \<le> q < 2^(k+1)\<close>, for a positive \<open>q\<close>.\<close>

definition exponent_of :: "rat \<Rightarrow> int" where
  "exponent_of q =
     (let (n, d) = quotient_of q;
          k = int (bit_length (nat n)) - int (bit_length (nat d))
      in if two_to k \<le> q then k else k - 1)"

definition round_half_even :: "rat \<Rightarrow> int" where
  "round_half_even q =
     (let f = \<lfloor>q\<rfloor>; r = q - of_int f
      in if r < 1 / 2 then f else if r > 1 / 2 then f + 1
         else if even f then f else f + 1)"

definition round_pos :: "format \<Rightarrow> rat \<Rightarrow> gofloat" where
  "round_pos fmt q =
     (let e = max (emin fmt) (exponent_of q - int (prec fmt) + 1);
          v = of_int (round_half_even (q / two_to e)) * two_to e
      in if two_to (emax fmt + 1) \<le> v then PInf else Fin v)"

fun flt_neg :: "gofloat \<Rightarrow> gofloat" where
  "flt_neg NaN = NaN"
| "flt_neg NInf = PInf"
| "flt_neg (Fin q) = Fin (- q)"
| "flt_neg PInf = NInf"

definition round_flt :: "format \<Rightarrow> rat \<Rightarrow> gofloat" where
  "round_flt fmt q =
     (if q = 0 then Fin 0 else if 0 < q then round_pos fmt q
      else flt_neg (round_pos fmt (- q)))"

section \<open>Operations the program uses\<close>

definition flt_of_int :: "format \<Rightarrow> int \<Rightarrow> gofloat" where
  "flt_of_int fmt i = round_flt fmt (of_int i)"

fun flt_sign :: "gofloat \<Rightarrow> rat" where
  "flt_sign NaN = 0"
| "flt_sign NInf = -1"
| "flt_sign (Fin q) = sgn q"
| "flt_sign PInf = 1"

definition signed_inf :: "rat \<Rightarrow> gofloat" where
  "signed_inf s = (if s = 0 then NaN else if 0 < s then PInf else NInf)"

fun flt_mul :: "format \<Rightarrow> gofloat \<Rightarrow> gofloat \<Rightarrow> gofloat" where
  "flt_mul fmt (Fin a) (Fin b) = round_flt fmt (a * b)"
| "flt_mul fmt a b = signed_inf (flt_sign a * flt_sign b)"

fun flt_div :: "format \<Rightarrow> gofloat \<Rightarrow> gofloat \<Rightarrow> gofloat" where
  "flt_div fmt (Fin a) (Fin b) =
     (if b = 0 then signed_inf (sgn a) else round_flt fmt (a / b))"
| "flt_div fmt NaN b = NaN"
| "flt_div fmt a NaN = NaN"
| "flt_div fmt (Fin a) b = Fin 0"
| "flt_div fmt a (Fin b) = (if 0 \<le> b then a else flt_neg a)"
| "flt_div fmt a b = NaN"

text \<open>Comparisons: every comparison with a NaN is false.\<close>

fun flt_less :: "gofloat \<Rightarrow> gofloat \<Rightarrow> bool" where
  "flt_less NaN _ = False"
| "flt_less _ NaN = False"
| "flt_less NInf b = (b \<noteq> NInf)"
| "flt_less (Fin a) (Fin b) = (a < b)"
| "flt_less (Fin a) b = (b = PInf)"
| "flt_less PInf b = False"

fun flt_eq :: "gofloat \<Rightarrow> gofloat \<Rightarrow> bool" where
  "flt_eq NaN _ = False"
| "flt_eq a b = (a = b)"

text \<open>
  \<open>int(f)\<close> drops the fraction. For a NaN, an infinity or a value outside \<open>int\<close> the language
  leaves the result to the implementation: \<open>None\<close>.
\<close>

fun int_of_flt :: "gofloat \<Rightarrow> int option" where
  "int_of_flt (Fin q) =
     (let i = (if 0 \<le> q then \<lfloor>q\<rfloor> else \<lceil>q\<rceil>)
      in if - (2 ^ 63) \<le> i \<and> i < 2 ^ 63 then Some i else None)"
| "int_of_flt _ = None"

section \<open>Facts\<close>

lemma flt_less_irrefl [simp]: "\<not> flt_less a a"
  by (cases a) auto

lemma flt_less_trans: "flt_less a b \<Longrightarrow> flt_less b c \<Longrightarrow> flt_less a c"
  by (cases a; cases b; cases c) auto

lemma flt_less_negtrans: "b \<noteq> NaN \<Longrightarrow> flt_less a c \<Longrightarrow> flt_less a b \<or> flt_less b c"
  by (cases a; cases b; cases c) auto

lemma flt_trichotomy:
  "a \<noteq> NaN \<Longrightarrow> b \<noteq> NaN \<Longrightarrow> flt_less a b \<or> flt_eq a b \<or> flt_less b a"
  by (cases a; cases b) auto

lemma two_to_pos [simp]: "0 < two_to e"
  by (simp add: two_to_def)

lemma round_half_even_nonneg: "0 \<le> q \<Longrightarrow> 0 \<le> round_half_even q"
  by (simp add: round_half_even_def Let_def)

lemma round_half_even_int [simp]: "round_half_even (of_int i) = i"
  by (simp add: round_half_even_def)

lemma round_pos_nonneg: "0 \<le> q \<Longrightarrow> round_pos fmt q = Fin v \<Longrightarrow> 0 \<le> v"
  by (auto simp: round_pos_def Let_def less_imp_le split: if_splits
      intro!: mult_nonneg_nonneg round_half_even_nonneg divide_nonneg_nonneg)

lemma round_pos_not_nan [simp]: "round_pos fmt q \<noteq> NaN" "round_pos fmt q \<noteq> NInf"
  by (simp_all add: round_pos_def Let_def)

lemma round_flt_not_nan [simp]: "round_flt fmt q \<noteq> NaN"
  by (cases "round_pos fmt (- q)") (auto simp: round_flt_def)

lemma round_flt_nonneg: "0 \<le> q \<Longrightarrow> round_flt fmt q = Fin v \<Longrightarrow> 0 \<le> v"
  by (auto simp: round_flt_def dest: round_pos_nonneg split: if_splits)

lemma round_flt_not_ninf: "0 \<le> q \<Longrightarrow> round_flt fmt q \<noteq> NInf"
  by (simp add: round_flt_def)

lemma flt_of_int_not_nan [simp]: "flt_of_int fmt i \<noteq> NaN"
  by (simp add: flt_of_int_def)

lemma int_of_flt_nonneg:
  "int_of_flt (Fin q) = Some i \<Longrightarrow> 0 \<le> q \<Longrightarrow> 0 \<le> i"
  by (auto simp: Let_def split: if_splits)

end
