(* ===== verification/Sorter.thy ===== *)
theory Sorter
  imports Floats
begin

text \<open>
  The package \<open>sorter\<close> (comparison keys and their chains) and the two sorting routines of the
  library the program calls. \<open>slices.SortStableFunc\<close> is \<open>sort_by\<close>: for a strict weak order
  the result of a stable sort is unique (\<open>stable_sort_unique\<close>). \<open>sort.Slice\<close> leaves the order of
  equal elements open, so the components that call it take the sorting function as an
  argument, with the documented behaviour as the hypothesis \<open>sorts\<close>.
\<close>

section \<open>Strict weak orders and stable sorting\<close>

fun insert_by :: "('a \<Rightarrow> 'a \<Rightarrow> bool) \<Rightarrow> 'a \<Rightarrow> 'a list \<Rightarrow> 'a list" where
  "insert_by lt x [] = [x]"
| "insert_by lt x (y # ys) = (if lt y x then y # insert_by lt x ys else x # y # ys)"

fun sort_by :: "('a \<Rightarrow> 'a \<Rightarrow> bool) \<Rightarrow> 'a list \<Rightarrow> 'a list" where
  "sort_by lt [] = []"
| "sort_by lt (x # xs) = insert_by lt x (sort_by lt xs)"

definition in_order :: "('a \<Rightarrow> 'a \<Rightarrow> bool) \<Rightarrow> 'a list \<Rightarrow> bool" where
  "in_order lt xs \<longleftrightarrow> sorted_wrt (\<lambda>x y. \<not> lt y x) xs"

definition equiv_by :: "('a \<Rightarrow> 'a \<Rightarrow> bool) \<Rightarrow> 'a \<Rightarrow> 'a \<Rightarrow> bool" where
  "equiv_by lt x y \<longleftrightarrow> \<not> lt x y \<and> \<not> lt y x"

lemma mset_insert_by [simp]: "mset (insert_by lt x xs) = add_mset x (mset xs)"
  by (induction xs) auto

lemma mset_sort_by [simp]: "mset (sort_by lt xs) = mset xs"
  by (induction xs) auto

lemma set_insert_by [simp]: "set (insert_by lt x xs) = insert x (set xs)"
  by (metis mset_insert_by set_mset_add_mset_insert set_mset_mset)

lemma set_sort_by [simp]: "set (sort_by lt xs) = set xs"
  by (metis mset_sort_by set_mset_mset)

lemma length_sort_by [simp]: "length (sort_by lt xs) = length xs"
  by (metis mset_sort_by size_mset)

lemma in_order_Nil [simp]: "in_order lt []"
  and in_order_Cons [simp]:
    "in_order lt (x # xs) \<longleftrightarrow> (\<forall>y \<in> set xs. \<not> lt y x) \<and> in_order lt xs"
  by (simp_all add: in_order_def)

lemma in_order_filter: "in_order lt xs \<Longrightarrow> in_order lt (filter P xs)"
  by (simp add: in_order_def sorted_wrt_filter)

locale strict_weak =
  fixes lt :: "'a \<Rightarrow> 'a \<Rightarrow> bool"
  assumes irrefl: "\<not> lt x x"
    and trans: "lt x y \<Longrightarrow> lt y z \<Longrightarrow> lt x z"
    and negtrans: "lt x z \<Longrightarrow> lt x y \<or> lt y z"
begin

lemma asym: "lt x y \<Longrightarrow> \<not> lt y x"
  using irrefl trans by blast

lemma in_order_insert: "in_order lt xs \<Longrightarrow> in_order lt (insert_by lt x xs)"
  using asym negtrans by (induction xs) (auto, blast)

lemma in_order_sort: "in_order lt (sort_by lt xs)"
  by (induction xs) (simp_all add: in_order_insert)

lemma filter_equiv_insert:
  "filter (equiv_by lt z) (insert_by lt x xs) =
     (if equiv_by lt z x then x # filter (equiv_by lt z) xs
      else filter (equiv_by lt z) xs)"
  using negtrans by (induction xs) (auto simp: equiv_by_def)

lemma stable: "filter (equiv_by lt z) (sort_by lt xs) = filter (equiv_by lt z) xs"
  by (induction xs) (simp_all add: filter_equiv_insert)

lemma ordered_unique:
  assumes "in_order lt xs" and "in_order lt ys"
    and "\<And>z. filter (equiv_by lt z) xs = filter (equiv_by lt z) ys"
  shows "xs = ys"
  using assms
proof (induction xs arbitrary: ys)
  case Nil
  have "filter (equiv_by lt (hd ys)) ys = []" using Nil.prems(3) by (metis filter.simps(1))
  then show ?case using irrefl by (cases ys) (auto simp: equiv_by_def)
next
  case (Cons x xs)
  have eqx: "equiv_by lt z z" for z using irrefl by (simp add: equiv_by_def)
  obtain y ys' where ys: "ys = y # ys'"
    using Cons.prems(3) [of x] eqx by (cases ys) auto
  have "x \<in> set (filter (equiv_by lt x) ys)"
    using Cons.prems(3) [of x] eqx [of x] by (metis filter.simps(2) list.set_intros(1))
  then have "x \<in> set ys" by simp
  have "y \<in> set (filter (equiv_by lt y) (x # xs))"
    using Cons.prems(3) [of y] eqx [of y] ys by (metis filter.simps(2) list.set_intros(1))
  then have "y \<in> set (x # xs)" by (auto split: if_splits)
  have "\<not> lt x y"
    using \<open>x \<in> set ys\<close> Cons.prems(2) irrefl by (auto simp: ys)
  moreover have "\<not> lt y x"
    using \<open>y \<in> set (x # xs)\<close> Cons.prems(1) irrefl by auto
  ultimately have "equiv_by lt x y" by (simp add: equiv_by_def)
  then have "x = y"
    using Cons.prems(3) [of x] eqx [of x] by (simp add: ys)
  have "filter (equiv_by lt z) xs = filter (equiv_by lt z) ys'" for z
    using Cons.prems(3) [of z] by (auto simp: ys \<open>x = y\<close> split: if_splits)
  then have "xs = ys'"
    using Cons.IH [of ys'] Cons.prems(1,2) by (simp add: ys)
  then show ?case by (simp add: ys \<open>x = y\<close>)
qed

text \<open>Any stable sorting routine computes \<open>sort_by\<close>.\<close>

lemma stable_sort_unique:
  assumes "in_order lt ys"
    and "\<And>z. filter (equiv_by lt z) ys = filter (equiv_by lt z) xs"
  shows "ys = sort_by lt xs"
  by (rule ordered_unique) (simp_all add: assms in_order_sort stable)

lemma sort_by_id: "in_order lt xs \<Longrightarrow> sort_by lt xs = xs"
  by (rule ordered_unique) (simp_all add: in_order_sort stable)

end

lemma strict_weak_key: "strict_weak (\<lambda>x y. (f x :: 'k :: linorder) < f y)"
  by unfold_locales auto

lemma strict_weak_key_desc: "strict_weak (\<lambda>x y. (f x :: 'k :: linorder) > f y)"
  by unfold_locales auto

text \<open>What the documentation of \<open>sort.Slice\<close> promises of a sorting function.\<close>

definition sorts :: "(('a \<Rightarrow> 'a \<Rightarrow> bool) \<Rightarrow> 'a list \<Rightarrow> 'a list) \<Rightarrow> bool" where
  "sorts srt \<longleftrightarrow>
     (\<forall>lt xs. mset (srt lt xs) = mset xs \<and> (strict_weak lt \<longrightarrow> in_order lt (srt lt xs)))"

lemma sorts_sort_by: "sorts sort_by"
  by (simp add: sorts_def strict_weak.in_order_sort)

lemma sorts_mset: "sorts srt \<Longrightarrow> mset (srt lt xs) = mset xs"
  by (simp add: sorts_def)

lemma sorts_set: "sorts srt \<Longrightarrow> set (srt lt xs) = set xs"
  by (metis sorts_mset set_mset_mset)

lemma sorts_length: "sorts srt \<Longrightarrow> length (srt lt xs) = length xs"
  by (metis sorts_mset size_mset)

lemma sorts_in_order: "sorts srt \<Longrightarrow> strict_weak lt \<Longrightarrow> in_order lt (srt lt xs)"
  by (simp add: sorts_def)

text \<open>
  A chain of comparators, tried in order until one tells the elements apart: the loop
  of \<open>Chain2.Less\<close> and of \<open>Sorters.Sort\<close>.
\<close>

fun chain_by :: "('a \<Rightarrow> 'a \<Rightarrow> bool) list \<Rightarrow> 'a \<Rightarrow> 'a \<Rightarrow> bool" where
  "chain_by [] l r = False"
| "chain_by (c # cs) l r = (if c l r then True else if c r l then False else chain_by cs l r)"

lemma chain_by_Cons: "chain_by (c # cs) = (\<lambda>l r. c l r \<or> (\<not> c r l \<and> chain_by cs l r))"
  by (auto simp: fun_eq_iff)

lemma strict_weak_then:
  assumes c: "strict_weak c" and d: "strict_weak d"
  shows "strict_weak (\<lambda>l r. c l r \<or> (\<not> c r l \<and> d l r))"
proof
  note c' = strict_weak.irrefl [OF c] strict_weak.trans [OF c] strict_weak.negtrans [OF c]
  note d' = strict_weak.irrefl [OF d] strict_weak.trans [OF d] strict_weak.negtrans [OF d]
  fix x y z
  show "\<not> (c x x \<or> (\<not> c x x \<and> d x x))" using c'(1) d'(1) by blast
  assume *: "c x z \<or> (\<not> c z x \<and> d x z)"
  show "(c x y \<or> (\<not> c y x \<and> d x y)) \<or> c y z \<or> (\<not> c z y \<and> d y z)"
    using * c'(2,3) d'(3) by meson
next
  note c' = strict_weak.trans [OF c] strict_weak.negtrans [OF c]
  note d' = strict_weak.trans [OF d]
  fix x y z
  assume "c x y \<or> (\<not> c y x \<and> d x y)" and "c y z \<or> (\<not> c z y \<and> d y z)"
  then show "c x z \<or> (\<not> c z x \<and> d x z)"
    using c' d' by meson
qed

lemma strict_weak_chain:
  "(\<And>c. c \<in> set cs \<Longrightarrow> strict_weak c) \<Longrightarrow> strict_weak (chain_by cs)"
proof (induction cs)
  case Nil
  show ?case by unfold_locales auto
next
  case (Cons c cs)
  then show ?case unfolding chain_by_Cons by (intro strict_weak_then) auto
qed

section \<open>The package sorter\<close>

text \<open>
  The implementations of the interface \<open>Cmp\<close>. \<open>Less\<close> asserts that the other key has its own
  type and panics (\<open>None\<close>) when it has not.
\<close>

datatype cmp =
    FloatAsc gofloat
  | FloatDesc gofloat
  | IntAsc int
  | IntDesc int
  | StrAsc string
  | StrDesc string
  | Chain "cmp list"
  | Chain2 "cmp list"

text \<open>\<open>==\<close> on two values of the interface; two slices are not comparable and panic.\<close>

fun iface_eq :: "cmp \<Rightarrow> cmp \<Rightarrow> bool option" where
  "iface_eq (FloatAsc a) (FloatAsc b) = Some (flt_eq a b)"
| "iface_eq (FloatDesc a) (FloatDesc b) = Some (flt_eq a b)"
| "iface_eq (IntAsc a) (IntAsc b) = Some (a = b)"
| "iface_eq (IntDesc a) (IntDesc b) = Some (a = b)"
| "iface_eq (StrAsc a) (StrAsc b) = Some (a = b)"
| "iface_eq (StrDesc a) (StrDesc b) = Some (a = b)"
| "iface_eq (Chain _) (Chain _) = None"
| "iface_eq (Chain2 _) (Chain2 _) = None"
| "iface_eq _ _ = Some False"

function cmp_less :: "cmp \<Rightarrow> cmp \<Rightarrow> bool option" where
  "cmp_less (FloatAsc f) k = (case k of FloatAsc g \<Rightarrow> Some (flt_less f g) | _ \<Rightarrow> None)"
| "cmp_less (FloatDesc f) k = (case k of FloatDesc g \<Rightarrow> Some (flt_less g f) | _ \<Rightarrow> None)"
| "cmp_less (IntAsc a) k = (case k of IntAsc b \<Rightarrow> Some (a < b) | _ \<Rightarrow> None)"
| "cmp_less (IntDesc a) k = (case k of IntDesc b \<Rightarrow> Some (a > b) | _ \<Rightarrow> None)"
| "cmp_less (StrAsc a) k = (case k of StrAsc b \<Rightarrow> Some (a < b) | _ \<Rightarrow> None)"
| "cmp_less (StrDesc a) k = (case k of StrDesc b \<Rightarrow> Some (a > b) | _ \<Rightarrow> None)"
| "cmp_less (Chain c) k =
     (case k of
        Chain d \<Rightarrow>
          (case (c, d) of
             (x # xs, y # ys) \<Rightarrow>
               (case iface_eq x y of
                  None \<Rightarrow> None
                | Some True \<Rightarrow> cmp_less (Chain xs) (Chain ys)
                | Some False \<Rightarrow> cmp_less x y)
           | _ \<Rightarrow> Some False)
      | _ \<Rightarrow> None)"
| "cmp_less (Chain2 c) k =
     (case k of
        Chain2 d \<Rightarrow>
          (case c of
             [] \<Rightarrow> Some False
           | x # xs \<Rightarrow>
               (case d of
                  [] \<Rightarrow> None
                | y # ys \<Rightarrow>
                    (case cmp_less x y of
                       None \<Rightarrow> None
                     | Some True \<Rightarrow> Some True
                     | Some False \<Rightarrow>
                         (case cmp_less y x of
                            None \<Rightarrow> None
                          | Some True \<Rightarrow> Some False
                          | Some False \<Rightarrow> cmp_less (Chain2 xs) (Chain2 ys)))))
      | _ \<Rightarrow> None)"
  by pat_completeness auto
termination
  by (relation "measure (\<lambda>(a, b). size a + size b)") auto

text \<open>
  \<open>Slice\<close> without the cache (\<open>withCaching\<close> is false): \<open>sort.Slice\<close> with the comparison of the
  keys of the two elements.
\<close>

definition key_less :: "('a \<Rightarrow> cmp) \<Rightarrow> 'a \<Rightarrow> 'a \<Rightarrow> bool" where
  "key_less fn a b \<longleftrightarrow> cmp_less (fn a) (fn b) = Some True"

definition Slice ::
  "(('a \<Rightarrow> 'a \<Rightarrow> bool) \<Rightarrow> 'a list \<Rightarrow> 'a list) \<Rightarrow> 'a list \<Rightarrow> ('a \<Rightarrow> cmp) \<Rightarrow> 'a list" where
  "Slice srt s fn = srt (key_less fn) s"

subsection \<open>Chains of scalar keys\<close>

datatype kind = KFloatAsc | KFloatDesc | KIntAsc | KIntDesc | KStrAsc | KStrDesc

fun has_kind :: "kind \<Rightarrow> cmp \<Rightarrow> bool" where
  "has_kind KFloatAsc (FloatAsc f) = (f \<noteq> NaN)"
| "has_kind KFloatDesc (FloatDesc f) = (f \<noteq> NaN)"
| "has_kind KIntAsc (IntAsc _) = True"
| "has_kind KIntDesc (IntDesc _) = True"
| "has_kind KStrAsc (StrAsc _) = True"
| "has_kind KStrDesc (StrDesc _) = True"
| "has_kind _ _ = False"

definition has_shape :: "kind list \<Rightarrow> cmp list \<Rightarrow> bool" where
  "has_shape ks c = list_all2 has_kind ks c"

lemma has_shape_Nil [simp]: "has_shape [] c \<longleftrightarrow> c = []"
  and has_shape_Cons: "has_shape (k # ks) c \<longleftrightarrow> (\<exists>x xs. c = x # xs \<and> has_kind k x \<and> has_shape ks xs)"
  by (auto simp: has_shape_def list_all2_Cons1)

text \<open>Two scalar keys of one kind are comparable without a panic, and exactly one way.\<close>

definition compares :: "cmp \<Rightarrow> cmp \<Rightarrow> bool \<Rightarrow> bool \<Rightarrow> bool \<Rightarrow> bool" where
  "compares x y l e g \<longleftrightarrow>
     cmp_less x y = Some l \<and> iface_eq x y = Some e \<and> cmp_less y x = Some g"

lemma flt_compares:
  assumes "a \<noteq> NaN" and "b \<noteq> NaN"
  shows "(flt_less a b \<and> \<not> flt_eq a b \<and> \<not> flt_less b a) \<or> (\<not> flt_less a b \<and> flt_eq a b \<and> \<not> flt_less b a)
    \<or> (\<not> flt_less a b \<and> \<not> flt_eq a b \<and> flt_less b a)"
  using assms by (cases a; cases b) auto

lemma scalar_compares:
  assumes "has_kind k x" and "has_kind k y"
  shows "compares x y True False False \<or> compares x y False True False
    \<or> compares x y False False True"
  using assms flt_compares
  by (elim has_kind.elims; simp) (fastforce simp: compares_def)+

lemma chain_less_Cons:
  "compares x y l e g \<Longrightarrow>
     cmp_less (Chain (x # xs)) (Chain (y # ys)) =
       (if e then cmp_less (Chain xs) (Chain ys) else Some l)"
  by (cases e) (simp_all add: compares_def)

lemma chain2_less_Cons:
  "compares x y l e g \<Longrightarrow>
     cmp_less (Chain2 (x # xs)) (Chain2 (y # ys)) =
       (if l then Some True else if g then Some False else cmp_less (Chain2 xs) (Chain2 ys))"
  by (cases l; cases g) (simp_all add: compares_def)

lemma chain_chain2:
  "has_shape ks c \<Longrightarrow> has_shape ks d \<Longrightarrow> cmp_less (Chain2 c) (Chain2 d) = cmp_less (Chain c) (Chain d)"
proof (induction ks arbitrary: c d)
  case Nil
  then show ?case by simp
next
  case (Cons k ks)
  then obtain x xs y ys where c: "c = x # xs" "has_kind k x" "has_shape ks xs"
    and d: "d = y # ys" "has_kind k y" "has_shape ks ys"
    by (auto simp: has_shape_Cons)
  with Cons.IH have "cmp_less (Chain2 xs) (Chain2 ys) = cmp_less (Chain xs) (Chain ys)" by blast
  moreover obtain l e g where cmp: "compares x y l e g" and "e \<longleftrightarrow> \<not> l \<and> \<not> g" "\<not> (l \<and> g)"
    using scalar_compares [OF c(2) d(2)] by blast
  ultimately show ?case
    by (auto simp: c(1) d(1) chain_less_Cons [OF cmp] chain2_less_Cons [OF cmp]
        simp del: cmp_less.simps)
qed

lemma chain_no_panic:
  "has_shape ks c \<Longrightarrow> has_shape ks d \<Longrightarrow> cmp_less (Chain c) (Chain d) \<noteq> None"
proof (induction ks arbitrary: c d)
  case Nil
  then show ?case by simp
next
  case (Cons k ks)
  then obtain x xs y ys where c: "c = x # xs" "has_kind k x" "has_shape ks xs"
    and d: "d = y # ys" "has_kind k y" "has_shape ks ys"
    by (auto simp: has_shape_Cons)
  with Cons.IH have "cmp_less (Chain xs) (Chain ys) \<noteq> None" by blast
  moreover obtain l e g where "compares x y l e g" using scalar_compares [OF c(2) d(2)] by blast
  ultimately show ?case by (simp add: c(1) d(1) chain_less_Cons del: cmp_less.simps)
qed

lemma strict_weak_scalar:
  assumes "\<And>x. has_kind k (f x)"
  shows "strict_weak (key_less f)"
proof
  fix x y z
  have k: "has_kind k (f x)" "has_kind k (f y)" "has_kind k (f z)" by (rule assms)+
  show "\<not> key_less f x x"
    using scalar_compares [OF k(1) k(1)] by (auto simp: key_less_def compares_def)
  show "key_less f x y \<Longrightarrow> key_less f y z \<Longrightarrow> key_less f x z"
    using k by (elim has_kind.elims; simp) (auto simp: key_less_def intro: flt_less_trans)
  show "key_less f x z \<Longrightarrow> key_less f x y \<or> key_less f y z"
    using k by (elim has_kind.elims; simp) (auto simp: key_less_def dest: flt_less_negtrans)
qed

lemma strict_weak_shape:
  "(\<And>x. has_shape ks (f x)) \<Longrightarrow> strict_weak (key_less (\<lambda>x. Chain (f x)))"
proof (induction ks arbitrary: f)
  case Nil
  then have "key_less (\<lambda>x. Chain (f x)) = (\<lambda>_ _. False)"
    by (simp add: key_less_def fun_eq_iff)
  then show ?case by unfold_locales auto
next
  case (Cons k ks)
  let ?h = "\<lambda>x. hd (f x)" and ?t = "\<lambda>x. tl (f x)"
  have f: "f x = ?h x # ?t x" "has_kind k (?h x)" "has_shape ks (?t x)" for x
    using Cons.prems [of x] by (auto simp: has_shape_Cons)
  have "key_less (\<lambda>x. Chain (f x)) a b \<longleftrightarrow>
      key_less ?h a b \<or> (\<not> key_less ?h b a \<and> key_less (\<lambda>x. Chain (?t x)) a b)" for a b
  proof -
    obtain l e g where cmp: "compares (?h a) (?h b) l e g" and "e \<longleftrightarrow> \<not> l \<and> \<not> g" "\<not> (l \<and> g)"
      using scalar_compares [OF f(2) f(2), of a b] by blast
    moreover have "cmp_less (Chain (f a)) (Chain (f b)) =
        (if e then cmp_less (Chain (?t a)) (Chain (?t b)) else Some l)"
      using chain_less_Cons [OF cmp, of "?t a" "?t b"] f(1) by metis
    ultimately show ?thesis by (auto simp: key_less_def compares_def)
  qed
  then have "key_less (\<lambda>x. Chain (f x)) = (\<lambda>a b.
      key_less ?h a b \<or> (\<not> key_less ?h b a \<and> key_less (\<lambda>x. Chain (?t x)) a b))"
    by (simp add: fun_eq_iff)
  then show ?case
    using strict_weak_then [OF strict_weak_scalar [OF f(2)] Cons.IH [OF f(3)]] by simp
qed

end
