(* ===== verification/Shard.thy ===== *)
theory Shard
  imports Entry Http Sorter
begin

text \<open>
  \<open>pool/shard.go\<close>: the goroutine that owns a part of the pool. The entries are shared by
  pointer with the requests in flight, so a shard is a list of addresses and a heap; an entry
  that was removed lives on in the heap until its last reply. The channels of \<open>main\<close> are
  the messages, one handler each, and what a handler sends is its list of outgoing values. \<open>None\<close> is a
  panic. \<open>srt\<close> is \<open>sort.Slice\<close>, the offset of a request is the result of \<open>rand.Intn\<close>.
\<close>

type_synonym loc = nat

record request =
  rq_in :: http_request
  rq_out :: nat
  rq_start :: time
  rq_attempt :: int
  rq_serial :: int

record reply =
  rp_request :: request
  rp_response :: http_response
  rp_entry :: loc
  rp_err :: "go_error option"

record shard =
  Entries :: "loc list"
  evictions :: "proxy list"
  heap :: "loc \<Rightarrow> entry"
  fresh :: loc

type_synonym sorting = "(loc \<Rightarrow> loc \<Rightarrow> bool) \<Rightarrow> loc list \<Rightarrow> loc list"

datatype message =
    Snapshot
  | Tick time
  | Reanimate
  | Remove proxy
  | Incoming time proxy duration
  | Request time string nat request
  | Reply time reply
  | Evictions

text \<open>
  \<open>Sent c r\<close>: a response, or nil, on the reply channel \<open>c\<close> of a request; \<open>Work\<close>: a piece of work
  for the workers.
\<close>

datatype outgoing =
    Listed "entry list"
  | Beat
  | Removed bool
  | Sent nat "http_response option"
  | Work request loc
  | Evicted "proxy list"

section \<open>Handlers\<close>

definition entries :: "shard \<Rightarrow> entry list" where
  "entries s = map (heap s) (Entries s)"

definition store :: "loc \<Rightarrow> entry \<Rightarrow> shard \<Rightarrow> shard" where
  "store l e s = s\<lparr>heap := (heap s)(l := e)\<rparr>"

definition speed_less :: "(loc \<Rightarrow> entry) \<Rightarrow> loc \<Rightarrow> loc \<Rightarrow> bool" where
  "speed_less h i j \<longleftrightarrow> Speed (h i) < Speed (h j)"

definition add :: "monitorConfig \<Rightarrow> sorting \<Rightarrow> time \<Rightarrow> proxy \<Rightarrow> duration \<Rightarrow> shard \<Rightarrow> shard option" where
  "add c srt now p speed s = do {
     e \<leftarrow> newEntry now p speed (word_of_int (evictSpanMinutes c));
     let l = fresh s;
     let s = (store l e s)\<lparr>fresh := l + 1\<rparr>;
     Some (s\<lparr>Entries := srt (speed_less (heap s)) (Entries s @ [l])\<rparr>)
   }"

text \<open>The loop keeps the entries that stay and the proxies that go, in order.\<close>

fun evict_all :: "monitorConfig \<Rightarrow> time \<Rightarrow> loc list \<Rightarrow> shard \<Rightarrow> shard \<times> loc list \<times> proxy list" where
  "evict_all c now [] s = (s, [], [])"
| "evict_all c now (l # ls) s =
     (let (e, gone) = Eviction now (evictThresholdTimeouts c) (evictThresholdFailures c)
            (evictThresholdReanimations c) (longTimeoutSleep c) (heap s l);
          (s, replace, evict) = evict_all c now ls (store l e s)
      in if gone then (s, replace, e_proxy e # evict) else (s, l # replace, evict))"

definition checkEviction :: "monitorConfig \<Rightarrow> time \<Rightarrow> shard \<Rightarrow> shard \<times> bool" where
  "checkEviction c now s =
     (let (s, replace, evict) = evict_all c now (Entries s) s
      in if evict \<noteq> [] then (s\<lparr>Entries := replace, evictions := evictions s @ evict\<rparr>, True)
         else (s, False))"

fun reanimate_all :: "time \<Rightarrow> loc list \<Rightarrow> shard \<Rightarrow> shard \<times> bool" where
  "reanimate_all now [] s = (s, False)"
| "reanimate_all now (l # ls) s =
     (let (e, b) = ReanimateIfNeeded now (heap s l); (s, heartbeat) = reanimate_all now ls (store l e s)
      in (s, b \<or> heartbeat))"

definition handleReanimate :: "time \<Rightarrow> shard \<Rightarrow> shard \<times> bool" where
  "handleReanimate now s = reanimate_all now (Entries s) s"

definition forceReanimate :: "shard \<Rightarrow> shard" where
  "forceReanimate s = fold (\<lambda>l s. store l (ForceReanimate (heap s l)) s) (Entries s) s"

definition removeProxy :: "proxy \<Rightarrow> shard \<Rightarrow> shard \<times> bool" where
  "removeProxy p s =
     (let newEntries = filter (\<lambda>l. e_proxy (heap s l) \<noteq> p) (Entries s);
          found = (\<exists>l \<in> set (Entries s). e_proxy (heap s l) = p)
      in (s\<lparr>Entries := newEntries\<rparr>, found))"

fun first_not_skipped :: "monitorConfig \<Rightarrow> duration \<Rightarrow> time \<Rightarrow> loc list \<Rightarrow> shard \<Rightarrow> (shard \<times> loc option) option" where
  "first_not_skipped c zone now [] s = Some (s, None)"
| "first_not_skipped c zone now (l # ls) s = do {
     (e, skip) \<leftarrow> ConsiderSkip zone now (offerLimit c) (heap s l);
     let s = store l e s;
     (if skip then first_not_skipped c zone now ls s else Some (s, Some l))
   }"

text \<open>The only entry of a shard is returned as it is, without \<open>ConsiderSkip\<close>.\<close>

definition firstAvailableProxy :: "monitorConfig \<Rightarrow> duration \<Rightarrow> time \<Rightarrow> nat \<Rightarrow> shard \<Rightarrow> (shard \<times> loc option) option" where
  "firstAvailableProxy c zone now offset s =
     (case Entries s of
        [] \<Rightarrow> Some (s, None)
      | [l] \<Rightarrow> Some (s, Some l)
      | ls \<Rightarrow> first_not_skipped c zone now (drop offset ls) s)"

definition exhausted :: "request \<Rightarrow> http_response" where
  "exhausted r = \<lparr>StatusCode = 552, Status = ''Proxy Pool Exhausted'',
     RsHeader = header_add ''X-Proxy-Serial'' (show_int (rq_serial r)) Map.empty, RsBody = []\<rparr>"

definition handleRequest ::
  "monitorConfig \<Rightarrow> duration \<Rightarrow> time \<Rightarrow> string \<Rightarrow> nat \<Rightarrow> request \<Rightarrow> shard \<Rightarrow> (shard \<times> outgoing list) option" where
  "handleRequest c zone now agent offset r s = do {
     let rq = (rq_in r)\<lparr>RqHeader := header_set ''User-Agent'' agent (RqHeader (rq_in r))\<rparr>;
     let r = r\<lparr>rq_in := rq\<rparr>;
     (s, entry) \<leftarrow> firstAvailableProxy c zone now offset s;
     (case entry of
        None \<Rightarrow> Some (s, [Sent (rq_out r) (Some (exhausted r))])
      | Some l \<Rightarrow> Some (s, [Work (r\<lparr>rq_in := InContext (e_proxy (heap s l)) rq\<rparr>) l]))
   }"

text \<open>The headers a response carries back.\<close>

definition forwarded :: "request \<Rightarrow> entry \<Rightarrow> http_response \<Rightarrow> http_response" where
  "forwarded r e res = res\<lparr>RsHeader :=
     header_set ''X-Proxy-Serial'' (show_int (rq_serial r))
      (header_set ''X-Proxy-Succeed'' (show_int (Succeed e))
       (header_set ''X-Proxy-Offered'' (show_int (Offered e))
        (header_set ''X-Proxy-Attempt'' (show_int (rq_attempt r))
         (header_set ''X-Proxy-Through'' (String (e_proxy e)) (RsHeader res)))))\<rparr>"

definition too_many :: "request \<Rightarrow> string \<Rightarrow> http_response" where
  "too_many r msg = \<lparr>StatusCode = 429, Status = msg,
     RsHeader = header_add ''X-Proxy-Serial'' (show_int (rq_serial r)) Map.empty, RsBody = []\<rparr>"

text \<open>
  A status of 400 or more becomes an error with the status line as its text (taken as it is: a \<open>%\<close>
  in it would be read as a formatting verb).
\<close>

definition reply_error :: "reply \<Rightarrow> go_error option" where
  "reply_error rp =
     (if rp_err rp = None \<and> StatusCode (rp_response rp) \<ge> 400
      then Some \<lparr>err_text = Status (rp_response rp), err_timeout = False\<rparr> else rp_err rp)"

definition handleReply ::
  "monitorConfig \<Rightarrow> duration \<Rightarrow> time \<Rightarrow> reply \<Rightarrow> shard \<Rightarrow> (shard \<times> outgoing list) option" where
  "handleReply c zone now rp s =
     (let r = rp_request rp; l = rp_entry rp
      in case reply_error rp of
           None \<Rightarrow> do {
             e \<leftarrow> MarkSuccess zone now (heap s l);
             Some (store l e s, [Sent (rq_out r) (Some (forwarded r e (rp_response rp)))])
           }
         | Some err \<Rightarrow> do {
             e \<leftarrow> MarkFailure now (err_timeout err) (shortTimeoutSleep c) (heap s l);
             let s = store l e s;
             (if rq_attempt r \<ge> 10 then Some (s, [Sent (rq_out r) (Some (too_many r (err_text err)))])
              else Some (s, [Sent (rq_out r) None]))
           })"

fun main :: "monitorConfig \<Rightarrow> duration \<Rightarrow> sorting \<Rightarrow> message \<Rightarrow> shard \<Rightarrow> (shard \<times> outgoing list) option" where
  "main c zone srt Snapshot s = Some (s, [Listed (entries s)])"
| "main c zone srt (Tick now) s =
     (let (s, a) = handleReanimate now s; (s, b) = checkEviction c now s
      in Some (s, (if a then [Beat] else []) @ (if b then [Beat] else [])))"
| "main c zone srt Reanimate s = Some (forceReanimate s, [])"
| "main c zone srt (Remove p) s = (let (s, found) = removeProxy p s in Some (s, [Removed found, Beat]))"
| "main c zone srt (Incoming now p speed) s = map_option (\<lambda>s. (s, [Beat])) (add c srt now p speed s)"
| "main c zone srt (Request now agent offset r) s = handleRequest c zone now agent offset r s"
| "main c zone srt (Reply now rp) s = handleReply c zone now rp s"
| "main c zone srt Evictions s = Some (s\<lparr>evictions := []\<rparr>, [Evicted (evictions s)])"

definition new_shard :: shard where
  "new_shard = \<lparr>Entries = [], evictions = [], heap = (\<lambda>_. undefined), fresh = 0\<rparr>"

section \<open>The order of the entries\<close>

interpretation by_speed: strict_weak "speed_less h" for h
  unfolding speed_less_def [abs_def] by (rule strict_weak_key)

lemma heap_store [simp]: "heap (store l e s) = (heap s)(l := e)"
  and Entries_store [simp]: "Entries (store l e s) = Entries s"
  and evictions_store [simp]: "evictions (store l e s) = evictions s"
  and fresh_store [simp]: "fresh (store l e s) = fresh s"
  by (simp_all add: store_def)

lemma speed_less_update:
  "Speed e = Speed (h l) \<Longrightarrow> speed_less (h(l := e)) = speed_less h"
  by (auto simp: speed_less_def fun_eq_iff)

section \<open>The invariant of a shard\<close>

text \<open>
  Every allocated entry is well formed; the listed ones are allocated, distinct, sorted by speed, and not
  waiting for nothing.
\<close>

definition shard_ok :: "shard \<Rightarrow> bool" where
  "shard_ok s \<longleftrightarrow>
     (\<forall>l < fresh s. entry_ok (heap s l)) \<and> (\<forall>l \<in> set (Entries s). l < fresh s \<and> waits (heap s l)) \<and>
     distinct (Entries s) \<and> in_order (speed_less (heap s)) (Entries s)"

lemma shard_okD:
  assumes "shard_ok s"
  shows "l < fresh s \<Longrightarrow> entry_ok (heap s l)" "l \<in> set (Entries s) \<Longrightarrow> l < fresh s"
    "l \<in> set (Entries s) \<Longrightarrow> waits (heap s l)" "l \<in> set (Entries s) \<Longrightarrow> entry_ok (heap s l)"
    "distinct (Entries s)" "in_order (speed_less (heap s)) (Entries s)"
  using assms by (auto simp: shard_ok_def)

text \<open>An operation on entries that keeps the shape of the shard.\<close>

definition tended :: "shard \<Rightarrow> shard \<Rightarrow> bool" where
  "tended s s' \<longleftrightarrow>
     Entries s' = Entries s \<and> fresh s' = fresh s \<and> evictions s' = evictions s \<and>
     (\<forall>l. e_proxy (heap s' l) = e_proxy (heap s l) \<and> Speed (heap s' l) = Speed (heap s l)) \<and>
     (\<forall>l < fresh s. entry_ok (heap s l) \<longrightarrow> entry_ok (heap s' l) \<and> (waits (heap s l) \<longrightarrow> waits (heap s' l)))"

lemma tended_refl [simp]: "tended s s"
  by (simp add: tended_def)

lemma tended_trans: "tended s s' \<Longrightarrow> tended s' s'' \<Longrightarrow> tended s s''"
  by (auto simp: tended_def)

lemma tended_store:
  assumes "e_proxy e = e_proxy (heap s l)" and "Speed e = Speed (heap s l)"
    and "l < fresh s \<Longrightarrow> entry_ok (heap s l) \<Longrightarrow> entry_ok e \<and> (waits (heap s l) \<longrightarrow> waits e)"
  shows "tended s (store l e s)"
  using assms by (auto simp: tended_def)

lemma tended_less: "tended s s' \<Longrightarrow> speed_less (heap s') = speed_less (heap s)"
  by (simp add: tended_def speed_less_def fun_eq_iff)

lemma tended_ok: "tended s s' \<Longrightarrow> shard_ok s \<Longrightarrow> shard_ok s'"
  using tended_less [of s s'] by (auto simp: shard_ok_def tended_def)

lemma shard_ok_filter: "shard_ok s \<Longrightarrow> shard_ok (s\<lparr>Entries := filter P (Entries s), evictions := ev\<rparr>)"
  by (auto simp: shard_ok_def in_order_filter)

lemma reanimate_all_tended: "tended s (fst (reanimate_all now ls s))"
proof (induction ls arbitrary: s)
  case Nil
  show ?case by simp
next
  case (Cons l ls)
  obtain e b where r: "ReanimateIfNeeded now (heap s l) = (e, b)" by force
  have "e_proxy e = e_proxy (heap s l) \<and> Speed e = Speed (heap s l)"
    using r by (auto simp: ReanimateIfNeeded_def split: if_splits)
  then have "tended s (store l e s)"
    using ReanimateIfNeeded_ok [OF _ r] by (intro tended_store) auto
  with Cons [of "store l e s"] r show ?case by (auto simp: split_beta intro: tended_trans)
qed

lemma forceReanimate_tended: "tended s (forceReanimate s)"
proof -
  have "tended s (fold (\<lambda>l s. store l (ForceReanimate (heap s l)) s) ls s)" for ls
  proof (induction ls arbitrary: s)
    case (Cons l ls)
    have "tended s (store l (ForceReanimate (heap s l)) s)"
      using ForceReanimate_ok [of "heap s l"] by (intro tended_store) (auto simp: waits_def)
    with Cons [of "store l (ForceReanimate (heap s l)) s"] show ?case by (auto intro: tended_trans)
  qed simp
  then show ?thesis by (simp add: forceReanimate_def)
qed

text \<open>The verdict of the eviction check on an address.\<close>

definition goes :: "monitorConfig \<Rightarrow> time \<Rightarrow> entry \<Rightarrow> bool" where
  "goes c now e \<longleftrightarrow> snd (Eviction now (evictThresholdTimeouts c) (evictThresholdFailures c)
     (evictThresholdReanimations c) (longTimeoutSleep c) e)"

lemma Eviction_same: "e_proxy (fst (Eviction now a b d g e)) = e_proxy e" "Speed (fst (Eviction now a b d g e)) = Speed e"
  by (auto simp: Eviction_def Let_def)

lemma evict_all_spec:
  assumes "distinct ls" and "evict_all c now ls s = (s', replace, evict)"
    and "0 < now" and "0 \<le> longTimeoutSleep c"
  shows "replace = filter (\<lambda>l. \<not> goes c now (heap s l)) ls \<and>
    evict = map (\<lambda>l. e_proxy (heap s l)) (filter (\<lambda>l. goes c now (heap s l)) ls) \<and>
    Entries s' = Entries s \<and> fresh s' = fresh s \<and> evictions s' = evictions s \<and>
    (\<forall>l. e_proxy (heap s' l) = e_proxy (heap s l) \<and> Speed (heap s' l) = Speed (heap s l) \<and>
      (entry_ok (heap s l) \<longrightarrow> entry_ok (heap s' l)) \<and>
      (waits (heap s l) \<and> (l \<in> set ls \<longrightarrow> \<not> goes c now (heap s l)) \<longrightarrow> waits (heap s' l)))"
  using assms
proof (induction ls arbitrary: s s' replace evict)
  case Nil
  then show ?case by simp
next
  case (Cons l ls)
  obtain e gone where v: "Eviction now (evictThresholdTimeouts c) (evictThresholdFailures c)
      (evictThresholdReanimations c) (longTimeoutSleep c) (heap s l) = (e, gone)" by force
  obtain s1 replace1 evict1 where r: "evict_all c now ls (store l e s) = (s1, replace1, evict1)"
    by (cases "evict_all c now ls (store l e s)") auto
  have gone: "gone = goes c now (heap s l)" using v by (simp add: goes_def)
  have same: "e_proxy e = e_proxy (heap s l)" "Speed e = Speed (heap s l)"
    using v Eviction_same [of now _ _ _ _ "heap s l"] by (metis fst_conv)+
  have le: "entry_ok (heap s l) \<longrightarrow> entry_ok e" "waits (heap s l) \<and> \<not> gone \<longrightarrow> waits e"
    using Eviction_ok [OF _ v] Eviction_waits [OF _ Cons.prems(3,4)] v by auto
  have other: "heap (store l e s) k = heap s k" if "k \<in> set ls" for k
    using that Cons.prems(1) by auto
  have *: "replace1 = filter (\<lambda>l. \<not> goes c now (heap s l)) ls \<and>
      evict1 = map (\<lambda>l. e_proxy (heap s l)) (filter (\<lambda>l. goes c now (heap s l)) ls)"
    using Cons.IH [OF _ r Cons.prems(3,4)] Cons.prems(1) other by (auto cong: filter_cong)
  have **: "Entries s1 = Entries s \<and> fresh s1 = fresh s \<and> evictions s1 = evictions s"
    using Cons.IH [OF _ r Cons.prems(3,4)] Cons.prems(1) by auto
  have ***: "e_proxy (heap s1 k) = e_proxy (heap s k) \<and> Speed (heap s1 k) = Speed (heap s k) \<and>
      (entry_ok (heap s k) \<longrightarrow> entry_ok (heap s1 k)) \<and>
      (waits (heap s k) \<and> (k \<in> set (l # ls) \<longrightarrow> \<not> goes c now (heap s k)) \<longrightarrow> waits (heap s1 k))" for k
  proof -
    have "e_proxy (heap s1 k) = e_proxy (heap (store l e s) k) \<and> Speed (heap s1 k) = Speed (heap (store l e s) k) \<and>
      (entry_ok (heap (store l e s) k) \<longrightarrow> entry_ok (heap s1 k)) \<and>
      (waits (heap (store l e s) k) \<and> (k \<in> set ls \<longrightarrow> \<not> goes c now (heap (store l e s) k)) \<longrightarrow> waits (heap s1 k))"
      using Cons.IH [OF _ r Cons.prems(3,4)] Cons.prems(1) by auto
    then show ?thesis using same le gone Cons.prems(1) by (cases "k = l") auto
  qed
  have "s' = s1 \<and> replace = (if gone then replace1 else l # replace1) \<and>
      evict = (if gone then e_proxy e # evict1 else evict1)"
    using Cons.prems(2) v r by (auto split: if_splits)
  with * ** *** gone same show ?case by auto
qed

section \<open>Every handler keeps the invariant\<close>

definition config_ok :: "monitorConfig \<Rightarrow> bool" where
  "config_ok c \<longleftrightarrow> 0 < evictSpanMinutes c \<and> evictSpanMinutes c < 2 ^ 15 \<and>
     0 \<le> shortTimeoutSleep c \<and> 0 \<le> longTimeoutSleep c"

fun message_ok :: "shard \<Rightarrow> message \<Rightarrow> bool" where
  "message_ok s (Tick now) = (0 < now)"
| "message_ok s (Request now agent offset r) = (0 < now)"
| "message_ok s (Reply now rp) = (0 < now \<and> rp_entry rp < fresh s)"
| "message_ok s m = True"

lemma add_ok:
  assumes c: "config_ok c" and srt: "sorts srt" and s: "shard_ok s"
  shows "\<exists>s' e. add c srt now p speed s = Some s' \<and> shard_ok s' \<and> fresh s' = fresh s + 1 \<and>
    mset (Entries s') = add_mset (fresh s) (mset (Entries s)) \<and>
    heap s' = (heap s)(fresh s := e) \<and> e_proxy e = p \<and> Speed e = speed \<and> evictions s' = evictions s"
proof -
  have "sint (word_of_int (evictSpanMinutes c) :: 16 word) = evictSpanMinutes c"
    using c by (intro sint_word_of_int_small) (simp_all add: config_ok_def)
  then have "0 < sint (word_of_int (evictSpanMinutes c) :: 16 word)"
    using c by (simp add: config_ok_def)
  then obtain e where e: "newEntry now p speed (word_of_int (evictSpanMinutes c)) = Some e"
    "entry_ok e" "waits e" "e_proxy e = p" "Speed e = speed"
    using newEntry_ok by blast
  let ?h = "(heap s)(fresh s := e)" and ?ls = "Entries s @ [fresh s]"
  let ?s = "s\<lparr>heap := ?h, fresh := fresh s + 1, Entries := srt (speed_less ?h) ?ls\<rparr>"
  have add: "add c srt now p speed s = Some ?s" by (simp add: add_def e(1) store_def Let_def)
  have m: "mset (srt (speed_less ?h) ?ls) = add_mset (fresh s) (mset (Entries s))"
    by (simp add: sorts_mset [OF srt])
  have "fresh s \<notin> set (Entries s)" using shard_okD(2) [OF s] by blast
  then have "distinct (srt (speed_less ?h) ?ls)"
    using shard_okD(5) [OF s] m mset_eq_imp_distinct_iff [of "srt (speed_less ?h) ?ls" ?ls] by simp
  moreover have "in_order (speed_less ?h) (srt (speed_less ?h) ?ls)"
    by (rule sorts_in_order [OF srt by_speed.strict_weak_axioms])
  moreover have "set (srt (speed_less ?h) ?ls) = insert (fresh s) (set (Entries s))"
    by (simp add: sorts_set [OF srt])
  ultimately have "shard_ok ?s"
    using s e(2,3) by (auto simp: shard_ok_def less_Suc_eq)
  with add m e(4,5) show ?thesis by (intro exI [of _ ?s] exI [of _ e]) simp
qed

lemma first_not_skipped_ok:
  assumes "shard_ok s" and "set ls \<subseteq> set (Entries s)" and "0 < now"
  shows "\<exists>s' entry. first_not_skipped c zone now ls s = Some (s', entry) \<and> tended s s' \<and>
    (\<forall>l. entry = Some l \<longrightarrow> l \<in> set ls)"
  using assms
proof (induction ls arbitrary: s)
  case Nil
  then show ?case by simp
next
  case (Cons l ls)
  have l: "entry_ok (heap s l)" using Cons.prems shard_okD(4) by simp
  obtain e skip where e: "ConsiderSkip zone now (offerLimit c) (heap s l) = Some (e, skip)" "entry_ok e"
    "e_proxy e = e_proxy (heap s l)" "Speed e = Speed (heap s l)" "waits (heap s l) \<longrightarrow> waits e"
    using ConsiderSkip_keeps [OF l Cons.prems(3)] by metis
  then have t: "tended s (store l e s)" by (intro tended_store) auto
  show ?case
  proof (cases skip)
    case True
    then obtain s' entry where "first_not_skipped c zone now ls (store l e s) = Some (s', entry)"
      "tended (store l e s) s'" "\<forall>k. entry = Some k \<longrightarrow> k \<in> set ls"
      using Cons.IH [of "store l e s"] tended_ok [OF t Cons.prems(1)] Cons.prems(2,3) by auto
    with e True show ?thesis by (auto intro: tended_trans [OF t])
  next
    case False
    with e t show ?thesis by auto
  qed
qed

lemma firstAvailableProxy_ok:
  assumes "shard_ok s" and "0 < now"
  shows "\<exists>s' entry. firstAvailableProxy c zone now offset s = Some (s', entry) \<and> tended s s' \<and>
    (\<forall>l. entry = Some l \<longrightarrow> l \<in> set (Entries s))"
proof (cases "Entries s")
  case Nil
  then show ?thesis by (simp add: firstAvailableProxy_def)
next
  case (Cons l ls)
  show ?thesis
  proof (cases ls)
    case Nil
    with Cons show ?thesis by (simp add: firstAvailableProxy_def)
  next
    case (Cons k ks)
    have "firstAvailableProxy c zone now offset s = first_not_skipped c zone now (drop offset (Entries s)) s"
      using \<open>Entries s = l # ls\<close> Cons by (simp add: firstAvailableProxy_def)
    moreover have "set (drop offset (Entries s)) \<subseteq> set (Entries s)" by (rule set_drop_subset)
    ultimately show ?thesis
      using first_not_skipped_ok [OF assms(1) _ assms(2), of "drop offset (Entries s)" c zone] by fastforce
  qed
qed

lemma handleRequest_ok:
  assumes "shard_ok s" and "0 < now"
  shows "\<exists>s' out. handleRequest c zone now agent offset r s = Some (s', [out]) \<and> tended s s' \<and>
    ((\<exists>res. out = Sent (rq_out r) (Some res) \<and> StatusCode res = 552) \<or>
     (\<exists>r' l. out = Work r' l \<and> rq_out r' = rq_out r \<and> rq_attempt r' = rq_attempt r \<and> l \<in> set (Entries s) \<and>
        RqProxy (rq_in r') = Some (e_proxy (heap s l))))"
proof -
  obtain s' entry where "firstAvailableProxy c zone now offset s = Some (s', entry)" "tended s s'"
    "\<forall>l. entry = Some l \<longrightarrow> l \<in> set (Entries s)"
    using firstAvailableProxy_ok [OF assms] by blast
  then show ?thesis
    by (cases entry) (auto simp: handleRequest_def exhausted_def InContext_def tended_def)
qed

lemma handleReply_ok:
  assumes "shard_ok s" and "rp_entry rp < fresh s" and "0 < now" and "config_ok c"
  shows "\<exists>s' res. handleReply c zone now rp s = Some (s', [Sent (rq_out (rp_request rp)) res]) \<and> tended s s' \<and>
    (res = None \<longleftrightarrow> reply_error rp \<noteq> None \<and> rq_attempt (rp_request rp) < 10)"
proof -
  have l: "entry_ok (heap s (rp_entry rp))" by (rule shard_okD(1) [OF assms(1,2)])
  show ?thesis
  proof (cases "reply_error rp")
    case None
    obtain e where e: "MarkSuccess zone now (heap s (rp_entry rp)) = Some e" "entry_ok e" "waits e"
      "e_proxy e = e_proxy (heap s (rp_entry rp))" "Speed e = Speed (heap s (rp_entry rp))"
      using MarkSuccess_total [OF l] by blast
    then have "tended s (store (rp_entry rp) e s)" by (intro tended_store) auto
    with e(1) None show ?thesis by (auto simp: handleReply_def Let_def)
  next
    case (Some err)
    obtain e where e: "MarkFailure now (err_timeout err) (shortTimeoutSleep c) (heap s (rp_entry rp)) = Some e"
      "entry_ok e" "ReanimateAfter e = now + shortTimeoutSleep c"
      "e_proxy e = e_proxy (heap s (rp_entry rp))" "Speed e = Speed (heap s (rp_entry rp))"
      using MarkFailure_total [OF l] by blast
    have "waits e" using e(3) assms(3,4) by (simp add: waits_def config_ok_def)
    with e have "tended s (store (rp_entry rp) e s)" by (intro tended_store) auto
    with e(1) Some show ?thesis by (auto simp: handleReply_def Let_def)
  qed
qed

lemma checkEviction_ok:
  assumes "shard_ok s" and "0 < now" and "config_ok c" and "checkEviction c now s = (s', b)"
  shows "shard_ok s' \<and> fresh s' = fresh s \<and> (\<forall>l. e_proxy (heap s' l) = e_proxy (heap s l)) \<and>
    Entries s' = filter (\<lambda>l. \<not> goes c now (heap s l)) (Entries s) \<and>
    evictions s' = evictions s @ map (\<lambda>l. e_proxy (heap s l)) (filter (\<lambda>l. goes c now (heap s l)) (Entries s))"
proof -
  obtain s1 replace evict where r: "evict_all c now (Entries s) s = (s1, replace, evict)"
    by (cases "evict_all c now (Entries s) s") auto
  have long: "0 \<le> longTimeoutSleep c" using assms(3) by (simp add: config_ok_def)
  note spec = evict_all_spec [OF shard_okD(5) [OF assms(1)] r assms(2) long]
  have s': "s' = (if evict = [] then s1 else s1\<lparr>Entries := replace, evictions := evictions s1 @ evict\<rparr>)"
    using assms(4) r by (auto simp: checkEviction_def split: if_splits)
  have "evict = [] \<Longrightarrow> replace = Entries s" using spec by (simp add: filter_empty_conv filter_id_conv)
  with s' spec have E: "Entries s' = filter (\<lambda>l. \<not> goes c now (heap s l)) (Entries s)"
    "evictions s' = evictions s @ map (\<lambda>l. e_proxy (heap s l)) (filter (\<lambda>l. goes c now (heap s l)) (Entries s))"
    "heap s' = heap s1" "fresh s' = fresh s"
    by (auto split: if_splits)
  have less: "speed_less (heap s1) = speed_less (heap s)" using spec by (simp add: speed_less_def fun_eq_iff)
  have "shard_ok s'"
    unfolding shard_ok_def E less
    using spec assms(1) by (auto simp: shard_ok_def in_order_filter)
  with E spec show ?thesis by simp
qed

text \<open>The proxies a shard lists.\<close>

definition contents :: "shard \<Rightarrow> proxy multiset" where
  "contents s = image_mset (\<lambda>l. e_proxy (heap s l)) (mset (Entries s))"

lemma contents_tended: "tended s s' \<Longrightarrow> contents s' = contents s"
  by (simp add: contents_def tended_def)

fun contents_after :: "message \<Rightarrow> proxy multiset \<Rightarrow> proxy multiset \<Rightarrow> bool" where
  "contents_after (Incoming now p speed) ps ps' = (ps' = add_mset p ps)"
| "contents_after (Remove p) ps ps' = (ps' = filter_mset (\<lambda>q. q \<noteq> p) ps)"
| "contents_after (Tick now) ps ps' = (ps' \<subseteq># ps)"
| "contents_after m ps ps' = (ps' = ps)"

fun evictions_after :: "message \<Rightarrow> shard \<Rightarrow> shard \<Rightarrow> bool" where
  "evictions_after (Tick now) s s' =
     (\<exists>new. evictions s' = evictions s @ new \<and> contents s = contents s' + mset new)"
| "evictions_after Evictions s s' = (evictions s' = [])"
| "evictions_after m s s' = (evictions s' = evictions s)"

lemma removeProxy_ok:
  assumes "shard_ok s" and "removeProxy p s = (s', found)"
  shows "shard_ok s' \<and> fresh s' = fresh s \<and> evictions s' = evictions s \<and>
    contents s' = filter_mset (\<lambda>q. q \<noteq> p) (contents s) \<and> (found \<longleftrightarrow> p \<in># contents s)"
  using assms shard_ok_filter [OF assms(1), of "evictions s" "\<lambda>l. e_proxy (heap s l) \<noteq> p"]
  by (auto simp: removeProxy_def Let_def contents_def filter_mset_image_mset image_iff)

lemma Tick_ok:
  assumes "shard_ok s" and "0 < now" and "config_ok c"
    and "handleReanimate now s = (s1, a)" and "checkEviction c now s1 = (s', b)"
  shows "shard_ok s' \<and> fresh s' = fresh s \<and> evictions_after (Tick now) s s'"
proof -
  have t: "tended s s1" using reanimate_all_tended [of s now "Entries s"] assms(4) by (simp add: handleReanimate_def)
  note ok = checkEviction_ok [OF tended_ok [OF t assms(1)] assms(2,3,5)]
  let ?f = "\<lambda>l. e_proxy (heap s1 l)" and ?go = "\<lambda>l. goes c now (heap s1 l)"
  have "mset (Entries s1) = mset (filter (\<lambda>l. \<not> ?go l) (Entries s1)) + mset (filter ?go (Entries s1))"
    using multiset_partition [of "mset (Entries s1)" ?go] by (simp add: add.commute)
  then have "contents s1 = image_mset ?f (mset (filter (\<lambda>l. \<not> ?go l) (Entries s1))) + mset (map ?f (filter ?go (Entries s1)))"
    by (metis contents_def image_mset_union mset_map)
  also have "image_mset ?f (mset (filter (\<lambda>l. \<not> ?go l) (Entries s1))) = contents s'"
    using ok by (simp add: contents_def)
  finally show ?thesis
    using ok t contents_tended [OF t] by (auto simp: tended_def)
qed

text \<open>One lemma per handler gives the step of the whole loop.\<close>

lemma main_ok:
  assumes "config_ok c" and "sorts srt" and "shard_ok s" and "message_ok s m"
  shows "\<exists>s' outs. main c zone srt m s = Some (s', outs) \<and> shard_ok s' \<and> fresh s \<le> fresh s' \<and>
    contents_after m (contents s) (contents s') \<and> evictions_after m s s'"
proof (cases m)
  case Snapshot
  then show ?thesis using assms by simp
next
  case (Tick now)
  obtain s1 a where a: "handleReanimate now s = (s1, a)" by force
  obtain s' b where b: "checkEviction c now s1 = (s', b)" by force
  show ?thesis using Tick_ok [OF assms(3) _ assms(1) a b] assms(4) Tick a b
    by (auto simp del: evictions_after.simps simp: evictions_after.simps(1))
next
  case Reanimate
  then show ?thesis
    using forceReanimate_tended [of s] tended_ok [OF _ assms(3)] contents_tended [of s "forceReanimate s"]
    by (simp add: tended_def)
next
  case (Remove p)
  then show ?thesis using removeProxy_ok [OF assms(3)] by (cases "removeProxy p s") auto
next
  case (Incoming now p speed)
  obtain s' e where "add c srt now p speed s = Some s'" "shard_ok s'" "fresh s' = fresh s + 1"
    "mset (Entries s') = add_mset (fresh s) (mset (Entries s))" "heap s' = (heap s)(fresh s := e)"
    "e_proxy e = p" "evictions s' = evictions s"
    using add_ok [OF assms(1-3)] by blast
  moreover have "fresh s \<notin> set (Entries s)" using shard_okD(2) [OF assms(3)] by blast
  ultimately show ?thesis using Incoming
    by (auto simp: contents_def intro: image_mset_cong)
next
  case (Request now agent offset r)
  obtain s' out where "handleRequest c zone now agent offset r s = Some (s', [out])" "tended s s'"
    using handleRequest_ok [OF assms(3)] assms(4) Request by fastforce
  with Request show ?thesis
    using tended_ok [OF _ assms(3)] contents_tended [of s s'] by (auto simp: tended_def)
next
  case (Reply now rp)
  obtain s' res where "handleReply c zone now rp s = Some (s', [Sent (rq_out (rp_request rp)) res])" "tended s s'"
    using handleReply_ok [OF assms(3) _ _ assms(1)] assms(4) Reply by fastforce
  with Reply show ?thesis
    using tended_ok [OF _ assms(3)] contents_tended [of s s'] by (auto simp: tended_def)
next
  case Evictions
  then show ?thesis using assms by (simp add: shard_ok_def contents_def)
qed

declare main.simps [simp del]

section \<open>A shard and its requests in flight\<close>

text \<open>
  The workers hold the pieces of work a shard has sent out; each comes back as one reply. What was
  received and answered, by reply channel, is history.
\<close>

record world =
  w_shard :: shard
  flight :: "(request \<times> loc) multiset"
  received :: "nat multiset"
  answered :: "(nat \<times> http_response option) multiset"

fun works :: "outgoing list \<Rightarrow> (request \<times> loc) multiset" where
  "works [] = {#}"
| "works (Work r l # outs) = add_mset (r, l) (works outs)"
| "works (_ # outs) = works outs"

fun sents :: "outgoing list \<Rightarrow> (nat \<times> http_response option) multiset" where
  "sents [] = {#}"
| "sents (Sent c res # outs) = add_mset (c, res) (sents outs)"
| "sents (_ # outs) = sents outs"

fun is_control :: "message \<Rightarrow> bool" where
  "is_control (Request now agent offset r) = False"
| "is_control (Reply now rp) = False"
| "is_control m = True"

inductive shard_step :: "monitorConfig \<Rightarrow> duration \<Rightarrow> sorting \<Rightarrow> world \<Rightarrow> world \<Rightarrow> bool"
  for c :: monitorConfig and zone :: duration and srt :: sorting where
  control: "is_control m \<Longrightarrow> message_ok (w_shard w) m \<Longrightarrow> main c zone srt m (w_shard w) = Some (s, outs) \<Longrightarrow>
    shard_step c zone srt w (w\<lparr>w_shard := s\<rparr>)"
| request: "0 < now \<Longrightarrow> main c zone srt (Request now agent offset r) (w_shard w) = Some (s, outs) \<Longrightarrow>
    shard_step c zone srt w (w\<lparr>w_shard := s, flight := flight w + works outs,
      received := add_mset (rq_out r) (received w), answered := answered w + sents outs\<rparr>)"
| reply: "0 < now \<Longrightarrow> (rp_request rp, rp_entry rp) \<in># flight w \<Longrightarrow>
    main c zone srt (Reply now rp) (w_shard w) = Some (s, outs) \<Longrightarrow>
    shard_step c zone srt w (w\<lparr>w_shard := s, flight := flight w - {#(rp_request rp, rp_entry rp)#},
      answered := answered w + sents outs\<rparr>)"


inductive shard_reaches :: "monitorConfig \<Rightarrow> duration \<Rightarrow> sorting \<Rightarrow> world \<Rightarrow> bool"
  for c :: monitorConfig and zone :: duration and srt :: sorting where
  start: "shard_reaches c zone srt \<lparr>w_shard = new_shard, flight = {#}, received = {#}, answered = {#}\<rparr>"
| step: "shard_reaches c zone srt w \<Longrightarrow> shard_step c zone srt w w' \<Longrightarrow> shard_reaches c zone srt w'"




text \<open>The offer of the first entry that can be offered, from the offset on.\<close>

lemma first_not_skipped_find:
  assumes "shard_ok s" and "set ls \<subseteq> set (Entries s)" and "distinct ls" and "0 < now"
  shows "\<exists>s'. first_not_skipped c zone now ls s =
    Some (s', List.find (\<lambda>l. offerable now (offerLimit c) (heap s l)) ls)"
  using assms
proof (induction ls arbitrary: s)
  case Nil
  then show ?case by simp
next
  case (Cons l ls)
  have l: "entry_ok (heap s l)" using Cons.prems shard_okD(4) by simp
  show ?case
  proof (cases rule: ConsiderSkip_cases [OF l, of now "offerLimit c" zone])
    case (1 e)
    then show ?thesis by simp
  next
    case (2 e)
    have "tended s (store l e s)"
      using ConsiderSkip_keeps [OF l Cons.prems(4), of zone "offerLimit c"] 2 by (intro tended_store) auto
    then have "shard_ok (store l e s)" by (rule tended_ok) (rule Cons.prems(1))
    moreover have "List.find (\<lambda>k. offerable now (offerLimit c) (heap (store l e s) k)) ls =
        List.find (\<lambda>k. offerable now (offerLimit c) (heap s k)) ls"
      using Cons.prems(3) by (intro find_cong) auto
    ultimately show ?thesis using Cons.IH [of "store l e s"] Cons.prems(2-4) 2 by auto
  qed
qed

section \<open>A single entry\<close>

text \<open>A shard that works through messages in order.\<close>

fun run :: "monitorConfig \<Rightarrow> duration \<Rightarrow> sorting \<Rightarrow> message list \<Rightarrow> shard \<Rightarrow> (shard \<times> outgoing list list) option" where
  "run c zone srt [] s = Some (s, [])"
| "run c zone srt (m # ms) s = do {
     (s, out) \<leftarrow> main c zone srt m s;
     (s, outs) \<leftarrow> run c zone srt ms s;
     Some (s, out # outs)
   }"

fun traffic :: "shard \<Rightarrow> message \<Rightarrow> bool" where
  "traffic s (Tick now) = (0 < now)"
| "traffic s (Request now agent offset r) = (0 < now)"
| "traffic s (Reply now rp) = (0 < now \<and> rp_entry rp < fresh s)"
| "traffic s m = False"

definition lonely :: "loc \<Rightarrow> shard \<Rightarrow> bool" where
  "lonely l s \<longleftrightarrow> shard_ok s \<and> Entries s = [l] \<and> Sum (OfferShort (heap s l)) = 0"

fun taken :: "loc \<Rightarrow> message \<Rightarrow> outgoing list \<Rightarrow> bool" where
  "taken l (Request now agent offset r) outs = (\<exists>r'. outs = [Work r' l] \<and> rq_out r' = rq_out r)"
| "taken l m outs = True"

lemma MarkSuccess_OfferShort: "MarkSuccess zone now e = Some e' \<Longrightarrow> OfferShort e' = OfferShort e"
  by (auto simp: MarkSuccess_def Let_def split: bind_splits if_splits)

lemma MarkFailure_OfferShort: "MarkFailure now t sleep e = Some e' \<Longrightarrow> OfferShort e' = OfferShort e"
  by (auto simp: MarkFailure_def Let_def split: bind_splits if_splits)

lemma lonely_Reply:
  assumes "config_ok c" and "lonely l s" and "0 < now" and "rp_entry rp < fresh s"
  shows "\<exists>s' res. handleReply c zone now rp s = Some (s', [Sent (rq_out (rp_request rp)) res]) \<and>
    lonely l s' \<and> fresh s' = fresh s"
proof -
  obtain s' res where r: "handleReply c zone now rp s = Some (s', [Sent (rq_out (rp_request rp)) res])" "tended s s'"
    using handleReply_ok [OF _ assms(4,3,1)] assms(2) by (fastforce simp: lonely_def)
  have "Sum (OfferShort (heap s' l)) = Sum (OfferShort (heap s l))"
    using r(1) by (auto simp: handleReply_def Let_def split: option.splits bind_splits if_splits
        dest: MarkSuccess_OfferShort MarkFailure_OfferShort)
  then show ?thesis using r tended_ok [OF r(2)] assms(2) by (auto simp: lonely_def tended_def)
qed

lemma lonely_Tick:
  assumes "config_ok c" and "lonely l s" and "0 < now"
  shows "\<exists>s' outs. main c zone srt (Tick now) s = Some (s', outs) \<and> lonely l s' \<and> fresh s' = fresh s"
proof -
  obtain s1 a where a: "handleReanimate now s = (s1, a)" by force
  obtain s2 b where b: "checkEviction c now s1 = (s2, b)" by force
  have s1: "Entries s1 = [l]" "OfferShort (heap s1 l) = OfferShort (heap s l)"
    using a assms(2) by (auto simp: handleReanimate_def lonely_def ReanimateIfNeeded_def split: prod.splits if_splits)
  then have "Eviction now a b d g (heap s1 l) = (heap s1 l, False)" for a b d g
    using assms(2) by (simp add: Eviction_def RequestsComplete_def lonely_def Let_def)
  then have "checkEviction c now s1 = (store l (heap s1 l) s1, False)"
    using s1 by (simp add: checkEviction_def)
  with b have "heap s2 l = heap s1 l" "Entries s2 = [l]" using s1 by auto
  moreover have "shard_ok s2 \<and> fresh s2 = fresh s"
    using Tick_ok [OF _ assms(3,1) a b] assms(2) by (simp add: lonely_def)
  ultimately show ?thesis using a b s1 assms(2) by (simp add: main.simps lonely_def)
qed

lemma lonely_run:
  assumes "config_ok c" and "lonely l s" and "\<forall>m \<in> set ms. traffic s m"
  shows "\<exists>s' outs. run c zone srt ms s = Some (s', outs) \<and> Entries s' = [l] \<and> list_all2 (taken l) ms outs"
  using assms(2,3)
proof (induction ms arbitrary: s)
  case Nil
  then show ?case by (simp add: lonely_def)
next
  case (Cons m ms)
  have "\<exists>s1 out. main c zone srt m s = Some (s1, out) \<and> lonely l s1 \<and> fresh s1 = fresh s \<and> taken l m out"
  proof (cases m)
    case (Tick now)
    then show ?thesis using lonely_Tick [OF assms(1) Cons.prems(1)] Cons.prems(2) by auto
  next
    case (Request now agent offset r)
    then show ?thesis
      using Cons.prems by (simp add: main.simps handleRequest_def firstAvailableProxy_def lonely_def Let_def)
  next
    case (Reply now rp)
    then show ?thesis
      using lonely_Reply [OF assms(1) Cons.prems(1), of now rp zone] Cons.prems(2) by (auto simp: main.simps)
  qed (use Cons.prems in simp_all)
  then obtain s1 out where s1: "main c zone srt m s = Some (s1, out)" "lonely l s1" "fresh s1 = fresh s" "taken l m out"
    by blast
  have "traffic s1 m' = traffic s m'" for m' using s1(3) by (cases m') auto
  with Cons.IH [OF s1(2)] Cons.prems(2) s1 show ?case by auto
qed

section \<open>Properties\<close>


lemma default_config_ok: "config_ok default_config"
  by (simp add: config_ok_def default_config_def go_time)

definition sample_request :: request where
  "sample_request = \<lparr>rq_in = \<lparr>Method = ''GET'', URL = ''http://a.b/'', RqHeader = Map.empty, RqBody = [], RqProxy = None\<rparr>,
     rq_out = 7, rq_start = minute, rq_attempt = 1, rq_serial = 1\<rparr>"


text \<open>
  C32. No message panics a shard, and its contents follow the messages: an addition adds its proxy, a
  removal removes every entry of its proxy, the minute only moves proxies to the pending evictions, nothing
  else changes what is listed, and only their collection empties the pending evictions.
\<close>

theorem shard_contents:
  assumes "config_ok c" and "sorts srt" and "shard_ok s" and "message_ok s m"
  shows "\<exists>s' outs. main c zone srt m s = Some (s', outs) \<and> shard_ok s' \<and>
    contents_after m (contents s) (contents s') \<and> evictions_after m s s'"
  using main_ok [OF assms, of zone] by blast

theorem shard_contents_witness:
  "\<exists>s' outs. main default_config 0 sort_by (Incoming minute sample_proxy second) new_shard = Some (s', outs) \<and>
    contents s' = {#sample_proxy#}"
  using shard_contents [OF default_config_ok sorts_sort_by, of new_shard "Incoming minute sample_proxy second" 0]
  by (auto simp: shard_ok_def new_shard_def contents_def)

text \<open>
  C31. The outcome of a reply. A response below 400 is forwarded with the proxy's headers and
  booked as a success; anything else is booked as a failure, asks for another attempt (nil) below the tenth attempt
  and gives 429 from then on. The entry of the reply is the only one that changes.
\<close>

theorem reply_outcome:
  assumes "shard_ok s" and "rp_entry rp < fresh s"
  shows "\<exists>s' res. handleReply c zone now rp s = Some (s', [Sent (rq_out (rp_request rp)) res]) \<and>
    (\<forall>l. l \<noteq> rp_entry rp \<longrightarrow> heap s' l = heap s l) \<and>
    (if rp_err rp = None \<and> StatusCode (rp_response rp) < 400
     then e_ok (heap s' (rp_entry rp)) \<and> ReanimateAfter (heap s' (rp_entry rp)) = 0 \<and>
       (\<exists>out. res = Some out \<and> StatusCode out = StatusCode (rp_response rp) \<and> RsBody out = RsBody (rp_response rp) \<and>
          header_get (RsHeader out) ''X-Proxy-Through'' = String (e_proxy (heap s (rp_entry rp))) \<and>
          header_get (RsHeader out) ''X-Proxy-Attempt'' = show_int (rq_attempt (rp_request rp)))
     else \<not> e_ok (heap s' (rp_entry rp)) \<and>
       ReanimateAfter (heap s' (rp_entry rp)) = now + shortTimeoutSleep c \<and>
       (if rq_attempt (rp_request rp) < 10 then res = None
        else \<exists>out. res = Some out \<and> StatusCode out = 429))"
proof -
  have l: "entry_ok (heap s (rp_entry rp))" by (rule shard_okD(1) [OF assms])
  show ?thesis
  proof (cases "rp_err rp = None \<and> StatusCode (rp_response rp) < 400")
    case True
    then have none: "reply_error rp = None" by (simp add: reply_error_def)
    obtain e where e: "MarkSuccess zone now (heap s (rp_entry rp)) = Some e" "e_proxy e = e_proxy (heap s (rp_entry rp))"
      using MarkSuccess_total [OF l] by blast
    then have "e_ok e" "ReanimateAfter e = 0"
      by (auto simp: MarkSuccess_def Let_def split: bind_splits if_splits)
    with e True none show ?thesis by (simp add: handleReply_def Let_def forwarded_def)
  next
    case False
    then obtain err where err: "reply_error rp = Some err"
      by (cases "rp_err rp") (auto simp: reply_error_def)
    obtain e where "MarkFailure now (err_timeout err) (shortTimeoutSleep c) (heap s (rp_entry rp)) = Some e"
      "\<not> e_ok e" "ReanimateAfter e = now + shortTimeoutSleep c"
      using MarkFailure_total [OF l] by blast
    with False err show ?thesis by (simp add: handleReply_def Let_def too_many_def split del: if_split cong: if_cong) (auto)
  qed
qed

definition one_entry :: shard where
  "one_entry = fst (the (main default_config 0 sort_by (Incoming minute sample_proxy second) new_shard))"

lemma one_entry: "shard_ok one_entry" "fresh one_entry = 1" "Entries one_entry = [0]"
  "Sum (OfferShort (heap one_entry 0)) = 0"
proof -
  have "shard_ok new_shard" by (simp add: shard_ok_def new_shard_def)
  from add_ok [OF default_config_ok sorts_sort_by this]
  obtain s' where s': "add default_config sort_by minute sample_proxy second new_shard = Some s'" "shard_ok s'"
    "fresh s' = fresh new_shard + 1" "mset (Entries s') = add_mset (fresh new_shard) (mset (Entries new_shard))"
    by blast
  then show "shard_ok one_entry" "fresh one_entry = 1" "Entries one_entry = [0]"
    by (simp_all add: one_entry_def main.simps new_shard_def)
  show "Sum (OfferShort (heap one_entry 0)) = 0" by code_simp
qed

definition sample_reply :: reply where
  "sample_reply = \<lparr>rp_request = sample_request,
     rp_response = \<lparr>StatusCode = 200, Status = ''200 OK'', RsHeader = Map.empty, RsBody = [104, 105]\<rparr>,
     rp_entry = 0, rp_err = None\<rparr>"

theorem reply_outcome_witness:
  "\<exists>s' out. handleReply default_config 0 minute sample_reply one_entry = Some (s', [Sent 7 (Some out)]) \<and>
    RsBody out = [104, 105]"
proof -
  have "rp_entry sample_reply < fresh one_entry" by (simp add: one_entry sample_reply_def)
  from reply_outcome [OF one_entry(1) this, of default_config 0 minute] show ?thesis
    by (auto simp: sample_reply_def sample_request_def)
qed

text \<open>
  With two entries or more, a request goes to the first entry from the random offset on
  that can be offered; the entries before the offset are not tried, and when none after it can be offered the
  answer is 552, pool exhausted.
\<close>

theorem request_scan:
  assumes "shard_ok s" and "0 < now" and "2 \<le> length (Entries s)"
  shows "\<exists>s'. firstAvailableProxy c zone now offset s =
      Some (s', List.find (\<lambda>l. offerable now (offerLimit c) (heap s l)) (drop offset (Entries s))) \<and>
    ((\<forall>l \<in> set (drop offset (Entries s)). \<not> offerable now (offerLimit c) (heap s l)) \<longrightarrow>
      (\<exists>out. handleRequest c zone now agent offset r s = Some (s', [Sent (rq_out r) (Some out)]) \<and> StatusCode out = 552))"
proof -
  obtain a b ls where "Entries s = a # b # ls"
    using assms(3) by (auto simp: numeral_2_eq_2 Suc_le_length_iff)
  then have "firstAvailableProxy c zone now offset s = first_not_skipped c zone now (drop offset (Entries s)) s"
    by (simp add: firstAvailableProxy_def)
  moreover have "distinct (drop offset (Entries s))" using shard_okD(5) [OF assms(1)] by simp
  ultimately obtain s' where first: "firstAvailableProxy c zone now offset s =
      Some (s', List.find (\<lambda>l. offerable now (offerLimit c) (heap s l)) (drop offset (Entries s)))"
    using first_not_skipped_find [OF assms(1) set_drop_subset _ assms(2)] by metis
  have "handleRequest c zone now agent offset r s =
      Some (s', [Sent (rq_out r) (Some (exhausted r))])"
    if "\<forall>l \<in> set (drop offset (Entries s)). \<not> offerable now (offerLimit c) (heap s l)"
  proof -
    have "List.find (\<lambda>l. offerable now (offerLimit c) (heap s l)) (drop offset (Entries s)) = None"
      using that by (simp add: find_None_iff)
    with first show ?thesis
      by (simp add: handleRequest_def exhausted_def Let_def)
  qed
  with first show ?thesis by (auto simp: exhausted_def)
qed

definition two_entries :: shard where
  "two_entries = fst (the (main default_config 0 sort_by (Incoming minute (AsHttps sample_proxy) (2 * second)) one_entry))"

theorem request_scan_witness:
  "\<exists>s'. firstAvailableProxy default_config 0 minute 1 two_entries = Some (s', Some 1)"
proof -
  have ok: "shard_ok two_entries"
    using add_ok [OF default_config_ok sorts_sort_by one_entry(1), of minute "AsHttps sample_proxy" "2 * second"]
    by (auto simp: two_entries_def main.simps)
  have E: "Entries two_entries = [0, 1]" by code_simp
  have "offerable minute (offerLimit default_config) (heap two_entries 1)" by code_simp
  then show ?thesis
    using request_scan [OF ok minute_pos, of default_config 0 1] by (simp add: E)
qed

text \<open>
  A shard with a single entry hands it to every request, whatever its replies were: it is not
  looked at, so its offers are not counted, its requests never count as complete and it is never evicted.
\<close>

theorem single_entry_never_rests:
  assumes "config_ok c" and "shard_ok s" and "Entries s = [l]" and "Sum (OfferShort (heap s l)) = 0"
    and "\<forall>m \<in> set ms. traffic s m"
  shows "\<exists>s' outs. run c zone srt ms s = Some (s', outs) \<and> Entries s' = [l] \<and> list_all2 (taken l) ms outs"
  using lonely_run [OF assms(1) _ assms(5)] assms(2-4) by (simp add: lonely_def)

theorem single_entry_never_rests_witness:
  "\<exists>s' outs. run default_config 0 sort_by
      [Request minute ''a'' 0 sample_request, Reply minute (sample_reply\<lparr>rp_err := Some \<lparr>err_text = ''refused'', err_timeout = False\<rparr>\<rparr>),
       Tick minute, Request minute ''a'' 0 sample_request] one_entry = Some (s', outs) \<and> Entries s' = [0]"
  using single_entry_never_rests [OF default_config_ok one_entry(1,3,4), of
      "[Request minute ''a'' 0 sample_request, Reply minute (sample_reply\<lparr>rp_err := Some \<lparr>err_text = ''refused'', err_timeout = False\<rparr>\<rparr>),
       Tick minute, Request minute ''a'' 0 sample_request]" 0 sort_by]
  by (auto simp: sample_reply_def one_entry(2))

end
