(* ===== verification/Config.thy ===== *)
theory Config
  imports Prelude
begin

text \<open>
  \<open>app/durations.go\<close> and \<open>app/config.go\<close>: durations with days and weeks, the typed reading of a
  component's configuration, the expansion of environment variables, and the overriding of the
  file's values by variables \<open>SLRP_<component>_<key>\<close>. The environment is an argument; the contents of the
  YAML file are given as the map it decodes to. \<open>strings.ToLower\<close> is that of ASCII.
\<close>

section \<open>Durations\<close>

fun unit_of :: "char \<Rightarrow> duration option" where
  "unit_of c =
     (if c = CHR ''s'' then Some second
      else if c = CHR ''m'' then Some minute
      else if c = CHR ''h'' then Some hour
      else if c = CHR ''d'' then Some (24 * hour)
      else if c = CHR ''w'' then Some (7 * 24 * hour)
      else None)"

declare unit_of.simps [simp del]

text \<open>
  The matches of \<open>(\d+)([wdhms])\<close>, leftmost first: \<open>ds\<close> are the digits just read. A run of
  digits that no unit follows is no match, nor is any part of it.
\<close>

fun duration_matches :: "string \<Rightarrow> string \<Rightarrow> (string \<times> char) list" where
  "duration_matches ds [] = []"
| "duration_matches ds (c # cs) =
     (if char_digit c \<noteq> None then duration_matches (ds @ [c]) cs
      else if ds \<noteq> [] \<and> unit_of c \<noteq> None then (ds, c) # duration_matches [] cs
      else duration_matches [] cs)"

text \<open>Go's product and sum of durations wrap around at 64 bits.\<close>

definition wrap64 :: "int \<Rightarrow> int" where
  "wrap64 i = sint (word_of_int i :: 64 word)"

fun sum_durations :: "duration \<Rightarrow> (string \<times> char) list \<Rightarrow> duration option" where
  "sum_durations result [] = Some result"
| "sum_durations result ((ds, u) # ms) =
     (case (atoi ds, unit_of u) of
        (Some incr, Some multiple) \<Rightarrow> sum_durations (wrap64 (result + wrap64 (incr * multiple))) ms
      | _ \<Rightarrow> None)"

definition ParseDuration :: "string \<Rightarrow> duration option" where
  "ParseDuration dur = sum_durations 0 (duration_matches [] dur)"

section \<open>Environment variables\<close>

definition env_char :: "char \<Rightarrow> bool" where
  "env_char c \<longleftrightarrow> c = CHR ''_'' \<or> (let n = of_char c :: nat in 65 \<le> n \<and> n \<le> 90)"

text \<open>The names of the matches of \<open>\$([A-Z_]+)\<close>, in order.\<close>

fun env_matches :: "string option \<Rightarrow> string \<Rightarrow> string list" where
  "env_matches None [] = []"
| "env_matches (Some name) [] = (if name = [] then [] else [name])"
| "env_matches None (c # cs) = (if c = CHR ''$'' then env_matches (Some []) cs else env_matches None cs)"
| "env_matches (Some name) (c # cs) =
     (if env_char c then env_matches (Some (name @ [c])) cs
      else (if name = [] then [] else [name]) @
        (if c = CHR ''$'' then env_matches (Some []) cs else env_matches None cs))"

text \<open>\<open>strings.ReplaceAll(s, old, new)\<close> for an \<open>old\<close> that is not empty.\<close>

function replace_all :: "string \<Rightarrow> string \<Rightarrow> string \<Rightarrow> string" where
  "replace_all old new s =
     (if old = [] then s else
      case cut_first old s of None \<Rightarrow> s | Some (a, b) \<Rightarrow> a @ new @ replace_all old new b)"
  by pat_completeness auto
termination
  by (relation "measure (\<lambda>(old, new, s). length s)") (auto dest: cut_first_length)

declare replace_all.simps [simp del]

definition expandEnv :: "(string \<Rightarrow> string) \<Rightarrow> string \<Rightarrow> string" where
  "expandEnv env s =
     fold (\<lambda>name t. if env name = [] then t else replace_all (CHR ''$'' # name) (env name) t)
       (env_matches None s) s"

section \<open>Typed values\<close>

text \<open>A \<open>Config\<close> is a map that may be nil; reading a nil map finds nothing.\<close>

type_synonym config = "(string \<rightharpoonup> string) option"

definition lookup_config :: "config \<Rightarrow> string \<Rightarrow> string option" where
  "lookup_config c key = (case c of None \<Rightarrow> None | Some m \<Rightarrow> m key)"

definition StrOr :: "(string \<Rightarrow> string) \<Rightarrow> config \<Rightarrow> string \<Rightarrow> string \<Rightarrow> string" where
  "StrOr env c key def =
     (case c of
        None \<Rightarrow> expandEnv env def
      | Some m \<Rightarrow> (case m key of None \<Rightarrow> expandEnv env def | Some v \<Rightarrow> expandEnv env v))"

definition DurOr :: "config \<Rightarrow> string \<Rightarrow> duration \<Rightarrow> duration" where
  "DurOr c key def =
     (case lookup_config c key of
        None \<Rightarrow> def
      | Some v \<Rightarrow> (case ParseDuration v of None \<Rightarrow> def | Some d \<Rightarrow> if d = 0 then def else d))"

definition IntOr :: "config \<Rightarrow> string \<Rightarrow> int \<Rightarrow> int" where
  "IntOr c key def =
     (case lookup_config c key of
        None \<Rightarrow> def
      | Some v \<Rightarrow> (case atoi v of None \<Rightarrow> def | Some p \<Rightarrow> p))"

definition to_lower :: "string \<Rightarrow> string" where
  "to_lower s = map (\<lambda>c. let n = of_char c :: nat in if 65 \<le> n \<and> n \<le> 90 then char_of (n + 32) else c) s"

definition BoolOr :: "config \<Rightarrow> string \<Rightarrow> bool \<Rightarrow> bool" where
  "BoolOr c key def =
     (case lookup_config c key of
        None \<Rightarrow> def
      | Some v \<Rightarrow> to_lower v = ''yes'' \<or> to_lower v = ''true'')"

section \<open>Overrides from the environment\<close>

text \<open>\<open>strings.SplitN(s, sep, 3)\<close> with a separator of one byte.\<close>

definition split3 :: "char \<Rightarrow> string \<Rightarrow> string list" where
  "split3 c s =
     (case cut_first [c] s of
        None \<Rightarrow> [s]
      | Some (a, r) \<Rightarrow> (case cut_first [c] r of None \<Rightarrow> [a, r] | Some (b, r) \<Rightarrow> [a, b, r]))"

type_synonym configuration = "string \<rightharpoonup> config"

text \<open>What a variable overrides: the component, the key and the value. \<open>None\<close> inside is a variable without an equals sign.\<close>

definition env_target :: "string \<Rightarrow> (string \<times> string \<times> string option) option" where
  "env_target raw =
     (let (name, value) = (case cut_first ''='' raw of None \<Rightarrow> (raw, None) | Some (a, b) \<Rightarrow> (a, Some b))
      in case split3 CHR ''_'' (to_lower name) of
           [prefix, component, key] \<Rightarrow> if prefix \<noteq> ''slrp'' then None else Some (component, key, value)
         | _ \<Rightarrow> None)"

text \<open>A variable without a value to read is a panic, and so is a key of a component whose map is nil.\<close>

definition env_override :: "string \<Rightarrow> configuration \<Rightarrow> configuration option" where
  "env_override raw data =
     (case env_target raw of
        None \<Rightarrow> Some data
      | Some (component, key, None) \<Rightarrow> None
      | Some (component, key, Some v) \<Rightarrow>
          (case data component of
             None \<Rightarrow> Some (data(component \<mapsto> Some [key \<mapsto> v]))
           | Some None \<Rightarrow> None
           | Some (Some c) \<Rightarrow> Some (data(component \<mapsto> Some (c(key \<mapsto> v))))))"

fun env_overrides :: "string list \<Rightarrow> configuration \<Rightarrow> configuration option" where
  "env_overrides [] data = Some data"
| "env_overrides (raw # environ) data =
     (case env_override raw data of None \<Rightarrow> None | Some data \<Rightarrow> env_overrides environ data)"

text \<open>
  \<open>getConfig\<close>: the first file that is there, or that can not be read for another reason, whose text then is what was read of it. \<open>clean\<close> is
  \<open>path.Clean\<close> and \<open>yaml\<close> reads the text into an empty map.
\<close>

datatype read_outcome = NotThere | Unreadable string | Contents string

definition config_locs :: "(string \<Rightarrow> string) \<Rightarrow> (string \<Rightarrow> string) \<Rightarrow> string list" where
  "config_locs env clean = map (\<lambda>l. clean (expandEnv env l)) [''$PWD/$APP.yml'', ''$PWD/config.yml'', ''$HOME/.$APP/config.yml'']"

definition getConfig :: "(string \<Rightarrow> string) \<Rightarrow> (string \<Rightarrow> string) \<Rightarrow> (string \<Rightarrow> read_outcome) \<Rightarrow> (string \<Rightarrow> string + configuration) \<Rightarrow> string list
    \<Rightarrow> (string + configuration) option" where
  "getConfig env clean file yaml environ =
     (case find (\<lambda>loc. file loc \<noteq> NotThere) (config_locs env clean) of
        None \<Rightarrow> map_option Inr (env_overrides environ Map.empty)
      | Some loc \<Rightarrow>
          (case yaml (case file loc of Contents raw \<Rightarrow> raw | Unreadable raw \<Rightarrow> raw | NotThere \<Rightarrow> []) of
             Inl err \<Rightarrow> Some (Inl (''invalid config in '' @ loc @ '': '' @ err))
           | Inr data \<Rightarrow> map_option Inr (env_overrides environ data)))"

text \<open>The configuration of a component: nil when it is not there.\<close>

definition component_config :: "configuration \<Rightarrow> string \<Rightarrow> config" where
  "component_config data component = (case data component of None \<Rightarrow> None | Some c \<Rightarrow> c)"

section \<open>Reading a printed duration\<close>

text \<open>A duration written as counts of units, each unit with its letter.\<close>

fun show_duration :: "(nat \<times> char) list \<Rightarrow> string" where
  "show_duration [] = []"
| "show_duration ((n, u) # ps) = show_nat n @ u # show_duration ps"

fun duration_value :: "(nat \<times> char) list \<Rightarrow> int" where
  "duration_value [] = 0"
| "duration_value ((n, u) # ps) = int n * the (unit_of u) + duration_value ps"

lemma unit_not_digit: "unit_of u \<noteq> None \<Longrightarrow> char_digit u = None"
  by (auto simp: unit_of.simps char_digit_def split: if_splits)

lemma duration_matches_digits:
  "(\<And>c. c \<in> set cs \<Longrightarrow> char_digit c \<noteq> None) \<Longrightarrow> duration_matches ds (cs @ rest) = duration_matches (ds @ cs) rest"
  by (induction cs arbitrary: ds) auto

lemma duration_matches_show:
  "(\<And>n u. (n, u) \<in> set ps \<Longrightarrow> unit_of u \<noteq> None) \<Longrightarrow>
     duration_matches [] (show_duration ps) = map (\<lambda>(n, u). (show_nat n, u)) ps"
proof (induction ps)
  case (Cons p ps)
  obtain n u where p: "p = (n, u)" by (cases p)
  have "char_digit c \<noteq> None" if "c \<in> set (show_nat n)" for c
    using show_nat_digits [OF that] by auto
  then have "duration_matches [] (show_nat n @ u # show_duration ps) =
      duration_matches (show_nat n) (u # show_duration ps)"
    using duration_matches_digits [of "show_nat n" "[]"] by simp
  with Cons p unit_not_digit [of u] show ?case by force
qed simp

lemma wrap64_small: "- (2 ^ 63) \<le> i \<Longrightarrow> i < 2 ^ 63 \<Longrightarrow> wrap64 i = i"
  by (simp add: wrap64_def sint_sbintrunc' signed_take_bit_int_eq_self)

lemma atoi_show:
  assumes "int n < 2 ^ 63"
  shows "atoi (show_nat n) = Some (int n)"
proof -
  have "hd (show_nat n) \<in> set (show_nat n)" by simp
  moreover have "CHR ''-'' \<notin> set (show_nat n)" and "CHR ''+'' \<notin> set (show_nat n)"
    by (rule show_nat_no_char, simp add: char_digit_def)+
  ultimately have "hd (show_nat n) \<noteq> CHR ''-''" and "hd (show_nat n) \<noteq> CHR ''+''" by metis+
  then show ?thesis using assms by (simp add: atoi_def digits_value_show)
qed

lemma unit_nonneg: "unit_of u = Some d \<Longrightarrow> 1 \<le> d"
  by (auto simp: unit_of.simps go_time split: if_splits)

lemma duration_value_nonneg:
  "(\<And>n u. (n, u) \<in> set ps \<Longrightarrow> unit_of u \<noteq> None) \<Longrightarrow> 0 \<le> duration_value ps"
proof (induction ps)
  case (Cons p ps)
  obtain n u where p: "p = (n, u)" by (cases p)
  with Cons.prems obtain d where "unit_of u = Some d" by fastforce
  moreover have "0 \<le> duration_value ps" using Cons by force
  ultimately show ?case using unit_nonneg [of u d] by (simp add: p)
qed simp

lemma sum_durations_show:
  assumes "\<And>n u. (n, u) \<in> set ps \<Longrightarrow> unit_of u \<noteq> None" and "0 \<le> r" and "r + duration_value ps < 2 ^ 63"
  shows "sum_durations r (map (\<lambda>(n, u). (show_nat n, u)) ps) = Some (r + duration_value ps)"
  using assms
proof (induction ps arbitrary: r)
  case (Cons p ps)
  obtain n u where p: "p = (n, u)" by (cases p)
  with Cons.prems(1) obtain d where d: "unit_of u = Some d" by fastforce
  have rest: "0 \<le> duration_value ps" using Cons.prems(1) by (intro duration_value_nonneg) auto
  have "1 \<le> d" by (rule unit_nonneg [OF d])
  then have nd: "int n \<le> int n * d" by (simp add: mult_le_cancel_left1)
  have bound: "r + int n * d + duration_value ps < 2 ^ 63" using Cons.prems(3) p d by (simp add: add.assoc)
  have small: "0 \<le> int n * d" "int n * d < 2 ^ 63" "int n < 2 ^ 63" "r + int n * d < 2 ^ 63"
    using nd bound rest Cons.prems(2) by linarith+
  have "wrap64 (int n * d) = int n * d" and "wrap64 (r + int n * d) = r + int n * d"
    using small Cons.prems(2) by (intro wrap64_small; linarith)+
  then show ?case
    using Cons.IH [of "r + int n * d"] Cons.prems small(1) bound p d
    by (auto simp: atoi_show [OF small(3)] add.assoc)
qed simp

section \<open>The environment wins\<close>

text \<open>The last override of a key counts, and what no variable overrides stays as the file has it.\<close>

definition overriding :: "string list \<Rightarrow> string \<Rightarrow> string \<Rightarrow> string option" where
  "overriding environ component key =
     map_of (rev (List.map_filter (\<lambda>raw. case env_target raw of Some (c, k, Some v) \<Rightarrow> Some ((c, k), v) | _ \<Rightarrow> None) environ)) (component, key)"

lemma env_override_lookup:
  assumes "env_override raw data = Some data'"
  shows "lookup_config (component_config data' c) k =
    (case env_target raw of Some (c', k', Some v) \<Rightarrow> if (c', k') = (c, k) then Some v else lookup_config (component_config data c) k
     | _ \<Rightarrow> lookup_config (component_config data c) k)"
  using assms by (auto simp: env_override_def component_config_def lookup_config_def split: option.splits if_splits)

lemma overriding_Cons:
  "overriding (raw # environ) c k =
     (case overriding environ c k of
        Some v \<Rightarrow> Some v
      | None \<Rightarrow> (case env_target raw of Some (c', k', Some v) \<Rightarrow> if (c', k') = (c, k) then Some v else None | _ \<Rightarrow> None))"
  by (auto simp: overriding_def map_filter_simps map_of_append map_add_def split: option.splits)

lemma env_overrides_lookup:
  "env_overrides environ data = Some data' \<Longrightarrow>
     lookup_config (component_config data' c) k =
       (case overriding environ c k of Some v \<Rightarrow> Some v | None \<Rightarrow> lookup_config (component_config data c) k)"
proof (induction environ arbitrary: data)
  case Nil
  then show ?case by (simp add: overriding_def map_filter_simps)
next
  case (Cons raw environ)
  then obtain mid where mid: "env_override raw data = Some mid" "env_overrides environ mid = Some data'" by (auto split: option.splits)
  show ?case
    unfolding Cons.IH [OF mid(2)] env_override_lookup [OF mid(1)] overriding_Cons
    by (auto split: option.split)
qed

text \<open>
  C23. The configuration of a component has what the environment sets last for a key, and for other keys what the first configuration file
  that exists says.
\<close>

theorem environment_wins:
  assumes "getConfig env clean file yaml environ = Some (Inr data)"
  shows "\<exists>base. (case find (\<lambda>loc. file loc \<noteq> NotThere) (config_locs env clean) of
        None \<Rightarrow> base = Map.empty
      | Some loc \<Rightarrow> yaml (case file loc of Contents raw \<Rightarrow> raw | Unreadable raw \<Rightarrow> raw | NotThere \<Rightarrow> []) = Inr base) \<and>
    (\<forall>component key. lookup_config (component_config data component) key =
       (case overriding environ component key of
          Some v \<Rightarrow> Some v
        | None \<Rightarrow> lookup_config (component_config base component) key))"
proof (cases "find (\<lambda>loc. file loc \<noteq> NotThere) (config_locs env clean)")
  case None
  with assms have "env_overrides environ Map.empty = Some data" by (simp add: getConfig_def)
  from env_overrides_lookup [OF this] show ?thesis using None by (intro exI [of _ Map.empty]) simp
next
  case (Some loc)
  with assms obtain base where base: "yaml (case file loc of Contents raw \<Rightarrow> raw | Unreadable raw \<Rightarrow> raw | NotThere \<Rightarrow> []) = Inr base"
    "env_overrides environ base = Some data"
    by (auto simp: getConfig_def split: sum.splits)
  from env_overrides_lookup [OF base(2)] show ?thesis using Some base(1) by (intro exI [of _ base]) simp
qed

theorem environment_wins_witness:
  "\<exists>data. getConfig (\<lambda>_. []) (\<lambda>l. l) (\<lambda>_. NotThere) (\<lambda>_. Inl []) [''SLRP_POOL_SHARDS=2'', ''HOME=/x'', ''slrp_pool_shards=3''] = Some (Inr data) \<and>
     lookup_config (component_config data ''pool'') ''shards'' = Some ''3''"
proof -
  let ?environ = "[''SLRP_POOL_SHARDS=2'', ''HOME=/x'', ''slrp_pool_shards=3'']"
  have t: "env_target ''SLRP_POOL_SHARDS=2'' = Some (''pool'', ''shards'', Some ''2'')" "env_target ''HOME=/x'' = None"
    "env_target ''slrp_pool_shards=3'' = Some (''pool'', ''shards'', Some ''3'')"
    by code_simp+
  obtain data where "getConfig (\<lambda>_. []) (\<lambda>l. l) (\<lambda>_. NotThere) (\<lambda>_. Inl []) ?environ = Some (Inr data)"
    by (simp add: getConfig_def config_locs_def env_override_def t)
  moreover have "overriding ?environ ''pool'' ''shards'' = Some ''3''" by (simp add: overriding_def map_filter_simps t)
  ultimately show ?thesis using environment_wins [of "\<lambda>_. []" "\<lambda>l. l" "\<lambda>_. NotThere" "\<lambda>_. Inl []" ?environ data] by auto
qed

section \<open>Properties\<close>

text \<open>
  A duration written as counts with the units w, d, h, m and s is read as their sum, for
  sums that fit 64 bits.
\<close>

theorem duration_roundtrip:
  assumes "\<forall>(n, u) \<in> set ps. unit_of u \<noteq> None" and "duration_value ps < 2 ^ 63"
  shows "ParseDuration (show_duration ps) = Some (duration_value ps)"
proof -
  have u: "unit_of u \<noteq> None" if "(n, u) \<in> set ps" for n u using assms(1) that by auto
  then have "duration_matches [] (show_duration ps) = map (\<lambda>(n, u). (show_nat n, u)) ps"
    by (rule duration_matches_show)
  with sum_durations_show [of ps 0] u assms(2) show ?thesis by (simp add: ParseDuration_def)
qed

theorem duration_roundtrip_witness: "ParseDuration ''1w2d3h'' = Some ((9 * 24 + 3) * hour)"
proof -
  have v: "duration_value [(1, CHR ''w''), (2, CHR ''d''), (3, CHR ''h'')] = (9 * 24 + 3) * hour"
    by (simp add: unit_of.simps)
  have s: "show_duration [(1, CHR ''w''), (2, CHR ''d''), (3, CHR ''h'')] = ''1w2d3h''" by code_simp
  show ?thesis
    using duration_roundtrip [of "[(1, CHR ''w''), (2, CHR ''d''), (3, CHR ''h'')]"]
    unfolding v s by (simp add: unit_of.simps go_time)
qed

text \<open>
  What is not such a unit is skipped without an error: milliseconds are read as minutes, and the
  part of a decimal fraction before the point is dropped.
\<close>

theorem duration_misread:
  "ParseDuration ''500ms'' = Some (500 * minute) \<and> ParseDuration ''1.5h'' = Some (5 * hour) \<and>
   ParseDuration ''fast'' = Some 0"
  by code_simp

end
