(* ===== verification/Pool.thy ===== *)
theory Pool
  imports Shard Config
begin

text \<open>
  \<open>pool/pool.go\<close> and \<open>pool/sort_strategy.go\<close>: the shards behind one interface. A proxy belongs to the
  shard of its bucket; a request tries the shards in turn until one answers. The order in which goroutines
  report is an argument (a list of shard numbers), as are the results of \<open>rand.Intn\<close>, the clock, the answers of the HTTP client
  and the gob codec. \<open>None\<close> is a panic.
\<close>

record pool =
  p_config :: "monitorConfig option"
  p_shards :: "shard list"
  p_workers :: int
  p_timeout :: duration
  pendingEviction :: "proxy list"

definition NewPool :: pool where
  "NewPool = \<lparr>p_config = None, p_shards = [], p_workers = 0, p_timeout = 0, pendingEviction = []\<rparr>"

text \<open>\<open>make\<close> of a channel or slice panics for a negative size.\<close>

definition Configure :: "config \<Rightarrow> pool \<Rightarrow> pool option" where
  "Configure c p =
     (let workers = IntOr c ''request_workers'' 512; poolShards = IntOr c ''shards'' 1
      in if workers < 0 \<or> poolShards < 0 then None
         else Some (p\<lparr>p_workers := workers, p_timeout := DurOr c ''request_timeout'' (10 * second),
           p_shards := replicate (nat poolShards) new_shard,
           p_config := Some \<lparr>shards = poolShards, offerLimit = IntOr c ''offer_limit'' 25,
             evictSpanMinutes = IntOr c ''evict_span_minutes'' 5,
             shortTimeoutSleep = DurOr c ''short_timeout_sleep'' (1 * minute),
             longTimeoutSleep = DurOr c ''long_timeout_sleep'' (1 * hour),
             evictThresholdTimeouts = IntOr c ''evict_threshold_timeouts'' 3,
             evictThresholdFailures = IntOr c ''evict_threshold_failures'' 3,
             evictThresholdReanimations = IntOr c ''evict_threshold_reanimations'' 10\<rparr>\<rparr>))"

section \<open>Messages to a shard\<close>

text \<open>
  A message to shard \<open>i\<close>, the others unchanged; a number out of range is the panic of the index. \<open>step\<close> is the
  shard's handling of a message.
\<close>

definition send :: "('m \<Rightarrow> 's \<Rightarrow> ('s \<times> 'o) option) \<Rightarrow> nat \<Rightarrow> 'm \<Rightarrow> 's list \<Rightarrow> ('s list \<times> 'o) option" where
  "send step i m ss =
     (if i < length ss then map_option (\<lambda>(s, out). (ss[i := s], out)) (step m (ss ! i)) else None)"

definition bucket :: "proxy \<Rightarrow> 's list \<Rightarrow> nat option" where
  "bucket p ss = map_option nat (Bucket p (int (length ss)))"

definition Add :: "monitorConfig \<Rightarrow> duration \<Rightarrow> sorting \<Rightarrow> time \<Rightarrow> proxy \<Rightarrow> duration \<Rightarrow> shard list \<Rightarrow> shard list option" where
  "Add c zone srt now proxy speed ss = do {
     i \<leftarrow> bucket proxy ss;
     (ss, _) \<leftarrow> send (main c zone srt) i (Incoming now proxy speed) ss;
     Some ss
   }"

text \<open>The answer on the removal's own channel.\<close>

fun removed :: "outgoing list \<Rightarrow> bool" where
  "removed (Removed b # outs) = b"
| "removed (_ # outs) = removed outs"
| "removed [] = False"

definition pool_Remove :: "monitorConfig \<Rightarrow> duration \<Rightarrow> sorting \<Rightarrow> proxy \<Rightarrow> shard list \<Rightarrow> (shard list \<times> bool) option" where
  "pool_Remove c zone srt proxy ss = do {
     i \<leftarrow> bucket proxy ss;
     (ss, outs) \<leftarrow> send (main c zone srt) i (Remove proxy) ss;
     Some (ss, removed outs)
   }"

definition Start :: "pool \<Rightarrow> pool option" where
  "Start p = (if p_config p = None then None
     else Some (p\<lparr>p_shards := map forceReanimate (p_shards p)\<rparr>))"

text \<open>One minute of \<open>gatherEvictions\<close>: \<open>order\<close> is the order in which the shards answer.\<close>

fun gather :: "monitorConfig \<Rightarrow> duration \<Rightarrow> sorting \<Rightarrow> nat list \<Rightarrow> shard list \<Rightarrow> (shard list \<times> proxy list) option" where
  "gather c zone srt [] ss = Some (ss, [])"
| "gather c zone srt (i # order) ss = do {
     (ss, outs) \<leftarrow> send (main c zone srt) i Evictions ss;
     (ss, rest) \<leftarrow> gather c zone srt order ss;
     Some (ss, concat (map (\<lambda>out. case out of Evicted ps \<Rightarrow> ps | _ \<Rightarrow> []) outs) @ rest)
   }"

definition gatherEvictions :: "monitorConfig \<Rightarrow> duration \<Rightarrow> sorting \<Rightarrow> nat list \<Rightarrow> pool \<Rightarrow> pool option" where
  "gatherEvictions c zone srt order p = do {
     (ss, batch) \<leftarrow> gather c zone srt order (p_shards p);
     Some (p\<lparr>p_shards := ss, pendingEviction := pendingEviction p @ batch\<rparr>)
   }"

definition PendingEviction :: "pool \<Rightarrow> pool \<times> proxy list" where
  "PendingEviction p = (p\<lparr>pendingEviction := []\<rparr>, pendingEviction p)"

section \<open>Snapshots\<close>

definition fastestUnseen :: "time \<Rightarrow> entry \<Rightarrow> cmp list" where
  "fastestUnseen now e =
     [IntAsc (unix (ReanimateAfter e)), IntAsc (Offered e),
      IntDesc (duration_round (SinceLastSeen now e) minute), IntAsc (duration_round (Speed e) second)]"

text \<open>The rates are 32-bit floats; with no offers they are not a number.\<close>

definition ratio32 :: "int \<Rightarrow> int \<Rightarrow> gofloat" where
  "ratio32 a b = flt_div binary32 (flt_mul binary32 (flt_of_int binary32 100) (flt_of_int binary32 a)) (flt_of_int binary32 b)"

definition SuccessRate :: "entry \<Rightarrow> gofloat" where
  "SuccessRate e = ratio32 (Succeed e) (Offered e)"

definition TimeoutRate :: "entry \<Rightarrow> gofloat" where
  "TimeoutRate e = ratio32 (Timeouts e) (Offered e)"

definition HourSuccessRate :: "entry \<Rightarrow> gofloat list" where
  "HourSuccessRate e = map (\<lambda>i. ratio32 (HourSucceed e ! i) (HourOffered e ! i)) [0..<24]"

definition sortForDisplay :: "entry \<Rightarrow> cmp list" where
  "sortForDisplay e =
     [IntAsc (unix (ReanimateAfter e)), FloatDesc (SuccessRate e), IntDesc (Offered e),
      IntAsc (duration_round (Speed e) second)]"

definition saturate :: "time \<Rightarrow> entry \<Rightarrow> cmp list" where
  "saturate now e =
     [IntAsc (unix (ReanimateAfter e)), FloatDesc (SuccessRate e),
      IntDesc (duration_round (SinceLastSeen now e) minute), IntAsc (duration_round (Speed e) second)]"

type_synonym entry_sorting = "(entry \<Rightarrow> entry \<Rightarrow> bool) \<Rightarrow> entry list \<Rightarrow> entry list"

definition snapshot :: "entry_sorting \<Rightarrow> time \<Rightarrow> nat list \<Rightarrow> shard list \<Rightarrow> entry list" where
  "snapshot srt now order ss =
     Slice srt (concat (map (\<lambda>i. entries (ss ! i)) order)) (\<lambda>e. Chain (fastestUnseen now e))"

definition Len :: "entry_sorting \<Rightarrow> time \<Rightarrow> nat list \<Rightarrow> shard list \<Rightarrow> int" where
  "Len srt now order ss = int (length (snapshot srt now order ss))"

definition fast :: "entry list \<Rightarrow> entry list" where
  "fast es = filter (\<lambda>e. \<not> Speed e > 1 * second) es"

text \<open>\<open>rand.Intn n\<close> with \<open>r\<close> as its source of randomness; it panics unless n is positive.\<close>

definition Intn :: "nat \<Rightarrow> nat \<Rightarrow> nat option" where
  "Intn r n = (if n = 0 then None else Some (r mod n))"

definition RandomFast :: "nat \<Rightarrow> entry list \<Rightarrow> http_request \<Rightarrow> http_request option" where
  "RandomFast r snap rq = do {
     offset \<leftarrow> Intn r (length (fast snap));
     Some (InContext (e_proxy (fast snap ! offset)) rq)
   }"

text \<open>
  \<open>Session\<close>: \<open>done\<close> tells whether the context is done before an attempt, \<open>fn\<close> is the callback's error at an
  attempt through a proxy.
\<close>

function Session_loop :: "(int \<Rightarrow> nat) \<Rightarrow> entry list \<Rightarrow> (int \<Rightarrow> go_error option) \<Rightarrow> (int \<Rightarrow> proxy \<Rightarrow> go_error option) \<Rightarrow> int
    \<Rightarrow> (int \<times> go_error option) option" where
  "Session_loop r snap cancelled fn attempts =
     (case Intn (r attempts) (length snap) of
        None \<Rightarrow> None
      | Some offset \<Rightarrow>
          (case cancelled attempts of
             Some err \<Rightarrow> Some (attempts, Some err)
           | None \<Rightarrow>
               (let attempts = attempts + 1; err = fn attempts (e_proxy (snap ! offset))
                in if err \<noteq> None \<and> attempts < 10 then Session_loop r snap cancelled fn attempts
                   else Some (attempts, err))))"
  by pat_completeness auto
termination by (relation "measure (\<lambda>(r, snap, cancelled, fn, attempts). nat (10 - attempts))") auto

declare Session_loop.simps [simp del]

definition Session :: "(int \<Rightarrow> nat) \<Rightarrow> entry list \<Rightarrow> (int \<Rightarrow> go_error option) \<Rightarrow> (int \<Rightarrow> proxy \<Rightarrow> go_error option)
    \<Rightarrow> (int \<times> go_error option) option" where
  "Session r snap cancelled fn = Session_loop r (fast snap) cancelled fn 0"

section \<open>Persistence\<close>

definition MarshalBinary :: "(entry list \<Rightarrow> 'b) \<Rightarrow> entry_sorting \<Rightarrow> time \<Rightarrow> nat list \<Rightarrow> shard list \<Rightarrow> 'b" where
  "MarshalBinary enc srt now order ss = enc (snapshot srt now order ss)"

fun restore :: "entry list \<Rightarrow> shard list \<Rightarrow> shard list option" where
  "restore [] ss = Some ss"
| "restore (e # es) ss = do {
     i \<leftarrow> bucket (e_proxy e) ss;
     let s = ss ! i;
     let l = fresh s;
     restore es (ss[i := (store l e s)\<lparr>fresh := l + 1, Entries := Entries s @ [l]\<rparr>])
   }"

definition UnmarshalBinary :: "('b \<Rightarrow> string + entry list) \<Rightarrow> 'b \<Rightarrow> shard list \<Rightarrow> (string + shard list) option" where
  "UnmarshalBinary dec data ss =
     (case dec data of
        Inl err \<Rightarrow> Some (Inl err)
      | Inr es \<Rightarrow> map_option Inr (restore es ss))"

section \<open>Serial numbers\<close>

text \<open>
  The loops of \<open>counter\<close> and \<open>halter\<close>: a halt delays the next serial number, and then no further one. The
  pressure is counted until it passes 32; nothing in the program sends any.
\<close>

record ticker =
  tk_serial :: int
  tk_delay :: duration
  tk_delayed :: bool

datatype ticker_event = Halt duration | Fire

fun counter :: "ticker_event \<Rightarrow> ticker \<Rightarrow> ticker \<times> int list" where
  "counter (Halt d) t = (t\<lparr>tk_delay := d, tk_delayed := True\<rparr>, [])"
| "counter Fire t =
     (let t = t\<lparr>tk_serial := tk_serial t + 1\<rparr>
      in (if tk_delayed t then t\<lparr>tk_delay := 0\<rparr> else t, [tk_serial t]))"

fun counter_run :: "ticker_event list \<Rightarrow> ticker \<Rightarrow> ticker \<times> int list" where
  "counter_run [] t = (t, [])"
| "counter_run (ev # evs) t =
     (let (t, out) = counter ev t; (t, outs) = counter_run evs t in (t, out @ outs))"

definition halter :: "int \<Rightarrow> int \<times> duration list" where
  "halter pressure =
     (let (pressure, sent) = (if pressure > 32 then (0, [1 * minute]) else (pressure, []))
      in (pressure + 1, sent))"

lemma counter_serials:
  "counter_run evs t = (t', out) \<Longrightarrow>
     out = map (\<lambda>i. tk_serial t + 1 + int i) [0..<length out] \<and> tk_serial t' = tk_serial t + int (length out)"
proof (induction evs arbitrary: t t' out)
  case (Cons ev evs)
  obtain t1 o1 where a: "counter ev t = (t1, o1)" by force
  obtain t2 o2 where b: "counter_run evs t1 = (t2, o2)" by force
  have ih: "o2 = map (\<lambda>i. tk_serial t1 + 1 + int i) [0..<length o2]" "tk_serial t2 = tk_serial t1 + int (length o2)"
    using Cons.IH [OF b] by auto
  have out: "out = o1 @ o2" "t' = t2" using Cons.prems a b by auto
  show ?case
  proof (cases ev)
    case (Halt d)
    with a have "o1 = []" "tk_serial t1 = tk_serial t" by auto
    with ih out show ?thesis by simp
  next
    case Fire
    with a have o1: "o1 = [tk_serial t + 1]" and t1: "tk_serial t1 = tk_serial t + 1" by (auto simp: Let_def split: if_splits)
    have "[0..<Suc (length o2)] = 0 # map Suc [0..<length o2]" by (simp add: upt_conv_Cons map_Suc_upt del: upt_Suc)
    with ih out o1 t1 show ?thesis by (simp add: o_def add.assoc)
  qed
qed simp

section \<open>Requests\<close>

text \<open>
  What the world does during a request, by attempt: the end of its context, the clock at the
  request and at the reply, the random choices of the shard, what other goroutines do to the shards in between, and
  the HTTP client: its response and error, and the part of the body it left unread.
\<close>

record surroundings =
  ctx_done :: "int \<Rightarrow> go_error option"
  asked_at :: "int \<Rightarrow> time"
  replied_at :: "int \<Rightarrow> time"
  agent :: "int \<Rightarrow> string"
  offset :: "int \<Rightarrow> nat"
  others :: "int \<Rightarrow> shard list \<Rightarrow> shard list"
  meanwhile :: "int \<Rightarrow> shard \<Rightarrow> shard"
  client :: "int \<Rightarrow> http_request \<Rightarrow> http_response \<times> go_error option \<times> 8 word list"

text \<open>A worker turns a piece of work into its reply.\<close>

definition worker :: "surroundings \<Rightarrow> request \<Rightarrow> loc \<Rightarrow> reply" where
  "worker w r l =
     (let (res, err, left) = client w (rq_attempt r) (rq_in r)
      in \<lparr>rp_request = r, rp_response = res, rp_entry = l, rp_err = err\<rparr>)"

text \<open>
  One attempt at a shard, through to what arrives on the request's channel. The result also has what the
  client was asked and what it left of the body.
\<close>

definition serve :: "monitorConfig \<Rightarrow> duration \<Rightarrow> surroundings \<Rightarrow> request \<Rightarrow> shard
    \<Rightarrow> (shard \<times> http_response option \<times> http_request list \<times> 8 word list) option" where
  "serve c zone w r s = do {
     (s, outs) \<leftarrow> handleRequest c zone (asked_at w (rq_attempt r)) (agent w (rq_attempt r)) (offset w (rq_attempt r)) r s;
     (case outs of
        [Sent ch res] \<Rightarrow> Some (s, res, [], RqBody (rq_in r))
      | [Work r l] \<Rightarrow> do {
          (s, outs) \<leftarrow> handleReply c zone (replied_at w (rq_attempt r)) (worker w r l) (meanwhile w (rq_attempt r) s);
          (case outs of
             [Sent ch res] \<Rightarrow> Some (s, res, [rq_in r], snd (snd (client w (rq_attempt r) (rq_in r))))
           | _ \<Rightarrow> None)
        }
      | _ \<Rightarrow> None)
   }"

definition with_headers :: "int \<Rightarrow> int \<Rightarrow> http_request \<Rightarrow> http_request" where
  "with_headers serial attempt rq = rq\<lparr>RqHeader :=
     header_set ''X-Proxy-Attempt'' (show_int attempt) (header_set ''X-Proxy-Serial'' (show_int serial) (RqHeader rq))\<rparr>"

lemma handleRequest_not_nil:
  "handleRequest c zone now ag off r s = Some (s', outs) \<Longrightarrow>
     (\<exists>res. outs = [Sent (rq_out r) (Some res)]) \<or>
     (\<exists>r' l. outs = [Work r' l] \<and> rq_attempt r' = rq_attempt r \<and> rq_out r' = rq_out r)"
  by (auto simp: handleRequest_def Let_def split: bind_splits option.splits)

lemma handleReply_nil:
  "handleReply c zone now rp s = Some (s', [Sent ch None]) \<Longrightarrow> rq_attempt (rp_request rp) < 10"
  by (auto simp: handleReply_def Let_def split: bind_splits option.splits if_splits)

text \<open>A shard asks for another attempt only below the tenth.\<close>

lemma serve_nil:
  assumes "serve c zone w r s = Some (s', None, rqs, left)"
  shows "rq_attempt r < 10"
proof -
  obtain s1 outs where h: "handleRequest c zone (asked_at w (rq_attempt r)) (agent w (rq_attempt r)) (offset w (rq_attempt r)) r s = Some (s1, outs)"
    using assms by (auto simp: serve_def split: bind_splits)
  from handleRequest_not_nil [OF this] show ?thesis
  proof (elim disjE exE conjE)
    fix res assume "outs = [Sent (rq_out r) (Some res)]"
    with assms h show ?thesis by (simp add: serve_def)
  next
    fix r' l assume o: "outs = [Work r' l]" "rq_attempt r' = rq_attempt r"
    with assms h obtain ch where "handleReply c zone (replied_at w (rq_attempt r)) (worker w r' l) (meanwhile w (rq_attempt r) s1) =
        Some (s', [Sent ch None])"
      by (auto simp: serve_def split: bind_splits list.splits outgoing.splits)
    then have "rq_attempt (rp_request (worker w r' l)) < 10" by (rule handleReply_nil)
    with o show ?thesis by (simp add: worker_def split: prod.splits)
  qed
qed

lemma send_length: "send step i m ss = Some (ss', out) \<Longrightarrow> length ss' = length ss"
  by (auto simp: send_def split: if_splits)

lemma send_step:
  "send step i m ss = Some (ss', out) \<Longrightarrow>
     i < length ss \<and> (\<exists>s. step m (ss ! i) = Some (s, out) \<and> ss' = ss[i := s])"
  by (auto simp: send_def split: if_splits)

lemma send_nil: "send (serve c zone w) i r ss = Some (ss', None, rest) \<Longrightarrow>
    rq_attempt r < 10 \<and> length ss' = length ss"
  by (cases rest) (auto dest!: send_step serve_nil)

function RoundTrip_loop :: "monitorConfig \<Rightarrow> duration \<Rightarrow> surroundings \<Rightarrow> nat \<Rightarrow> time \<Rightarrow> int \<Rightarrow> int \<Rightarrow> http_request \<Rightarrow> shard list
    \<Rightarrow> (shard list \<times> int \<times> http_request list \<times> (go_error + http_response)) option" where
  "RoundTrip_loop c zone w ch start serial attempt rq ss =
     (let attempt = attempt + 1
      in case ctx_done w attempt of
           Some err \<Rightarrow> Some (ss, attempt, [], Inl err)
         | None \<Rightarrow>
             (let n = int (length ss);
                  shard = (serial - 1 + attempt - 1) smod n;
                  rq = with_headers serial attempt rq;
                  r = \<lparr>rq_in = rq, rq_out = ch, rq_start = start, rq_attempt = attempt, rq_serial = serial\<rparr>
              in if n = 0 \<or> shard < 0 \<or> length (others w attempt ss) \<noteq> length ss then None
                 else case send (serve c zone w) (nat shard) r (others w attempt ss) of
                   None \<Rightarrow> None
                 | Some (ss', None, rqs, left) \<Rightarrow>
                     map_option (\<lambda>(ss, a, log, res). (ss, a, rqs @ log, res))
                       (RoundTrip_loop c zone w ch start serial attempt (rq\<lparr>RqBody := left\<rparr>) ss')
                 | Some (ss', Some res, rqs, left) \<Rightarrow>
                     if attempt < n \<and> StatusCode res = 552
                     then map_option (\<lambda>(ss, a, log, res). (ss, a, rqs @ log, res))
                       (RoundTrip_loop c zone w ch start serial attempt (rq\<lparr>RqBody := left\<rparr>) ss')
                     else Some (ss', attempt, rqs, Inr res)))"
  by pat_completeness auto

termination
  by (relation "measure (\<lambda>(c, zone, w, ch, start, serial, attempt, rq, ss). nat (max 10 (int (length ss)) - attempt))")
    (auto dest: send_length dest!: send_nil)

declare RoundTrip_loop.simps [simp del]

text \<open>\<open>serial\<close> is the next number of the pool's counter.\<close>

definition RoundTrip :: "monitorConfig \<Rightarrow> duration \<Rightarrow> surroundings \<Rightarrow> nat \<Rightarrow> time \<Rightarrow> int \<Rightarrow> http_request \<Rightarrow> shard list
    \<Rightarrow> (shard list \<times> int \<times> http_request list \<times> (go_error + http_response)) option" where
  "RoundTrip c zone w ch start serial rq ss = RoundTrip_loop c zone w ch start serial 0 rq ss"

section \<open>What the pool relies on\<close>

text \<open>
  The contract of a shard: in a good state it handles every good message without a panic, stays good, and
  changes what it holds as the message says. A pool of such shards can send messages to
  any of them.
\<close>

locale shard_contract =
  fixes step :: "'m \<Rightarrow> 's \<Rightarrow> ('s \<times> 'o) option"
    and ok :: "'s \<Rightarrow> bool"
    and message_ok :: "'s \<Rightarrow> 'm \<Rightarrow> bool"
    and holds :: "'s \<Rightarrow> proxy multiset"
    and effect :: "'m \<Rightarrow> proxy multiset \<Rightarrow> proxy multiset \<Rightarrow> bool"
  assumes handles: "ok s \<Longrightarrow> message_ok s m \<Longrightarrow>
    \<exists>s' out. step m s = Some (s', out) \<and> ok s' \<and> effect m (holds s) (holds s')"
begin

lemma send_ok:
  assumes "\<forall>s \<in> set ss. ok s" and "i < length ss" and "message_ok (ss ! i) m"
  shows "\<exists>s' out. send step i m ss = Some (ss[i := s'], out) \<and>
    (\<forall>s \<in> set (ss[i := s']). ok s) \<and> effect m (holds (ss ! i)) (holds s')"
proof -
  obtain s' out where s': "step m (ss ! i) = Some (s', out)" "ok s'" "effect m (holds (ss ! i)) (holds s')"
    using handles [OF _ assms(3)] assms(1,2) by auto
  then have "send step i m ss = Some (ss[i := s'], out)" using assms(2) by (simp add: send_def)
  moreover have "\<forall>s \<in> set (ss[i := s']). ok s" using s'(2) assms(1) set_update_subset_insert by fastforce
  ultimately show ?thesis using s' by blast
qed

end

interpretation sh: shard_contract "main c zone srt" "\<lambda>s. config_ok c \<and> sorts srt \<and> shard_ok s"
  message_ok contents contents_after for c zone srt
proof
  fix s :: shard and m
  assume "config_ok c \<and> sorts srt \<and> shard_ok s" and "message_ok s m"
  then show "\<exists>s' out. main c zone srt m s = Some (s', out) \<and> (config_ok c \<and> sorts srt \<and> shard_ok s') \<and>
      contents_after m (contents s) (contents s')"
    using main_ok [of c srt s m zone] by blast
qed

interpretation by_unseen: strict_weak "key_less (\<lambda>e. Chain (fastestUnseen now e))" for now
  by (rule strict_weak_shape [of "[KIntAsc, KIntAsc, KIntDesc, KIntAsc]"])
    (simp add: fastestUnseen_def has_shape_Cons)

section \<open>Routing\<close>

definition routed :: "shard list \<Rightarrow> bool" where
  "routed ss \<longleftrightarrow> (\<forall>i < length ss. \<forall>p \<in># contents (ss ! i). bucket p ss = Some i)"

definition pool_contents :: "shard list \<Rightarrow> proxy multiset" where
  "pool_contents ss = \<Sum>\<^sub># (image_mset contents (mset ss))"

definition pool_ok :: "shard list \<Rightarrow> bool" where
  "pool_ok ss \<longleftrightarrow> ss \<noteq> [] \<and> (\<forall>s \<in> set ss. shard_ok s) \<and> routed ss"

text \<open>The operations on a running pool: its interface, and the messages a shard gets from elsewhere.\<close>

datatype pool_op = PoolAdd time proxy duration | PoolRemove proxy | ToShard nat message

fun keeps_contents :: "message \<Rightarrow> bool" where
  "keeps_contents (Incoming now p speed) = False"
| "keeps_contents (Remove p) = False"
| "keeps_contents m = True"

fun op_ok :: "shard list \<Rightarrow> pool_op \<Rightarrow> bool" where
  "op_ok ss (ToShard i m) = (i < length ss \<and> message_ok (ss ! i) m \<and> keeps_contents m)"
| "op_ok ss op = True"

fun apply_op :: "monitorConfig \<Rightarrow> duration \<Rightarrow> sorting \<Rightarrow> pool_op \<Rightarrow> shard list \<Rightarrow> shard list option" where
  "apply_op c zone srt (PoolAdd now p speed) ss = Add c zone srt now p speed ss"
| "apply_op c zone srt (PoolRemove p) ss = map_option fst (pool_Remove c zone srt p ss)"
| "apply_op c zone srt (ToShard i m) ss = map_option fst (send (main c zone srt) i m ss)"

inductive pool_reaches :: "monitorConfig \<Rightarrow> duration \<Rightarrow> sorting \<Rightarrow> nat \<Rightarrow> shard list \<Rightarrow> bool"
  for c :: monitorConfig and zone :: duration and srt :: sorting and n :: nat where
  "pool_reaches c zone srt n (replicate n new_shard)"
| "pool_reaches c zone srt n ss \<Longrightarrow> op_ok ss op \<Longrightarrow> apply_op c zone srt op ss = Some ss' \<Longrightarrow> pool_reaches c zone srt n ss'"

lemma bucket_ok: "ss \<noteq> [] \<Longrightarrow> \<exists>i < length ss. bucket p ss = Some i"
  using Bucket_range [of "int (length ss)" p] by (auto simp: bucket_def nat_less_iff)

lemma bucket_length: "length ss = length ss' \<Longrightarrow> bucket p ss = bucket p ss'"
  by (simp add: bucket_def)

lemma routed_update:
  assumes "routed ss" and "i < length ss"
    and "\<And>p. p \<in># contents s' \<Longrightarrow> p \<in># contents (ss ! i) \<or> bucket p ss = Some i"
  shows "routed (ss[i := s'])"
  using assms unfolding routed_def
  by (metis bucket_length length_list_update nth_list_update_eq nth_list_update_neq)

lemma pool_contents_update:
  assumes "i < length ss"
  shows "pool_contents (ss[i := s']) + contents (ss ! i) = pool_contents ss + contents s'"
proof -
  have "mset ss = add_mset (ss ! i) (mset ss - {#ss ! i#})" using assms by simp
  then have "pool_contents ss = contents (ss ! i) + \<Sum>\<^sub># (image_mset contents (mset ss - {#ss ! i#}))"
    unfolding pool_contents_def by (metis image_mset_add_mset sum_mset.insert)
  moreover have "pool_contents (ss[i := s']) = contents s' + \<Sum>\<^sub># (image_mset contents (mset ss - {#ss ! i#}))"
    using assms by (simp add: pool_contents_def mset_update)
  ultimately show ?thesis by (simp add: ac_simps)
qed

lemma pool_contents_iff: "p \<in># pool_contents ss \<longleftrightarrow> (\<exists>s \<in> set ss. p \<in># contents s)"
  by (simp add: pool_contents_def)

text \<open>A proxy that the pool holds is in the shard of its bucket, and only there.\<close>

lemma routed_in_bucket:
  assumes "routed ss" and "bucket p ss = Some i" and "i < length ss"
  shows "p \<in># pool_contents ss \<longleftrightarrow> p \<in># contents (ss ! i)"
  using assms by (force simp: pool_contents_iff in_set_conv_nth routed_def)

lemma Add_ok:
  assumes "config_ok c" and "sorts srt" and "pool_ok ss"
  shows "\<exists>ss'. Add c zone srt now p speed ss = Some ss' \<and> pool_ok ss' \<and> length ss' = length ss \<and>
    pool_contents ss' = add_mset p (pool_contents ss)"
proof -
  obtain i where i: "bucket p ss = Some i" "i < length ss" using bucket_ok [of ss p] assms(3) by (auto simp: pool_ok_def)
  have "\<forall>s \<in> set ss. config_ok c \<and> sorts srt \<and> shard_ok s" using assms by (simp add: pool_ok_def)
  from sh.send_ok [OF this i(2), of "Incoming now p speed" zone] obtain s' out where
    s': "send (main c zone srt) i (Incoming now p speed) ss = Some (ss[i := s'], out)"
      "\<forall>s \<in> set (ss[i := s']). config_ok c \<and> sorts srt \<and> shard_ok s"
      "contents s' = add_mset p (contents (ss ! i))"
    unfolding contents_after.simps message_ok.simps by blast
  moreover have "routed (ss[i := s'])"
    by (rule routed_update) (use assms(3) s'(3) i in \<open>auto simp: pool_ok_def\<close>)
  moreover have "pool_contents (ss[i := s']) = add_mset p (pool_contents ss)"
    using pool_contents_update [OF i(2), of s'] s'(3) by simp
  ultimately show ?thesis using i assms(3) by (simp add: Add_def pool_ok_def)
qed

lemma Remove_ok:
  assumes "config_ok c" and "sorts srt" and "pool_ok ss"
  shows "\<exists>ss' b. pool_Remove c zone srt p ss = Some (ss', b) \<and> pool_ok ss' \<and> length ss' = length ss \<and>
    (b \<longleftrightarrow> p \<in># pool_contents ss) \<and> pool_contents ss' = filter_mset (\<lambda>q. q \<noteq> p) (pool_contents ss)"
proof -
  obtain i where i: "bucket p ss = Some i" "i < length ss" using bucket_ok [of ss p] assms(3) by (auto simp: pool_ok_def)
  have r: "routed ss" and sk: "shard_ok (ss ! i)" using assms(3) i(2) by (simp_all add: pool_ok_def)
  obtain s' found where f: "removeProxy p (ss ! i) = (s', found)" by force
  note spec = removeProxy_ok [OF sk f]
  have rem: "pool_Remove c zone srt p ss = Some (ss[i := s'], found)"
    using i f by (simp add: pool_Remove_def send_def main.simps)
  have upd: "pool_contents (ss[i := s']) + contents (ss ! i) = pool_contents ss + contents s'"
    by (rule pool_contents_update [OF i(2)])
  have r': "routed (ss[i := s'])"
    by (rule routed_update [OF r i(2)]) (use spec in auto)
  have "count (pool_contents (ss[i := s'])) q = count (filter_mset (\<lambda>q. q \<noteq> p) (pool_contents ss)) q" for q
  proof (cases "q = p")
    case True
    have "p \<notin># pool_contents (ss[i := s'])"
      using routed_in_bucket [OF r', of p i] i spec bucket_length [of "ss[i := s']" ss p] by simp
    with True show ?thesis by (simp add: not_in_iff)
  next
    case False
    have "count (pool_contents (ss[i := s'])) q + count (contents (ss ! i)) q =
        count (pool_contents ss) q + count (contents s') q"
      using upd by (metis count_union)
    with False spec show ?thesis by simp
  qed
  then have "pool_contents (ss[i := s']) = filter_mset (\<lambda>q. q \<noteq> p) (pool_contents ss)"
    by (rule multiset_eqI)
  moreover have "found \<longleftrightarrow> p \<in># pool_contents ss"
    using spec routed_in_bucket [OF r i] by simp
  moreover have "pool_ok (ss[i := s'])"
    using assms(3) r' spec i(2) set_update_subset_insert [of ss i s'] by (auto simp: pool_ok_def)
  ultimately show ?thesis using rem by simp
qed

lemma ToShard_ok:
  assumes "config_ok c" and "sorts srt" and "pool_ok ss" and "op_ok ss (ToShard i m)"
  shows "\<exists>ss'. apply_op c zone srt (ToShard i m) ss = Some ss' \<and> pool_ok ss' \<and> length ss' = length ss"
proof -
  have i: "i < length ss" and m: "message_ok (ss ! i) m" "keeps_contents m" using assms(4) by auto
  have "\<forall>s \<in> set ss. config_ok c \<and> sorts srt \<and> shard_ok s" using assms by (simp add: pool_ok_def)
  from sh.send_ok [OF this i m(1), of zone] obtain s' out where
    s': "send (main c zone srt) i m ss = Some (ss[i := s'], out)"
      "\<forall>s \<in> set (ss[i := s']). config_ok c \<and> sorts srt \<and> shard_ok s"
      "contents_after m (contents (ss ! i)) (contents s')"
    by blast
  have "p \<in># contents (ss ! i)" if "p \<in># contents s'" for p
    using s'(3) m(2) that by (cases m) (auto dest: mset_subset_eqD)
  then have "routed (ss[i := s'])" using assms(3) i by (intro routed_update) (auto simp: pool_ok_def)
  with s' assms(3) show ?thesis by (simp add: pool_ok_def)
qed

lemma apply_op_ok:
  assumes "config_ok c" and "sorts srt" and "pool_ok ss" and "op_ok ss op"
  shows "\<exists>ss'. apply_op c zone srt op ss = Some ss' \<and> pool_ok ss' \<and> length ss' = length ss"
proof (cases op)
  case (PoolAdd now p speed)
  then show ?thesis using Add_ok [OF assms(1-3), of zone now p speed] by auto
next
  case (PoolRemove p)
  then show ?thesis using Remove_ok [OF assms(1-3), of zone p] by auto
next
  case (ToShard i m)
  then show ?thesis using ToShard_ok [OF assms(1-3)] assms(4) by blast
qed

lemma pool_ok_new: "0 < n \<Longrightarrow> pool_ok (replicate n new_shard)"
  by (auto simp: pool_ok_def routed_def contents_def new_shard_def shard_ok_def)

lemma pool_ok_reaches:
  assumes "config_ok c" and "sorts srt" and "0 < n" and "pool_reaches c zone srt n ss"
  shows "pool_ok ss \<and> length ss = n"
  using assms(4)
proof (induction rule: pool_reaches.induct)
  case 1
  show ?case using pool_ok_new [OF assms(3)] by simp
next
  case (2 ss op ss')
  then show ?case using apply_op_ok [OF assms(1,2), of ss op zone] by auto
qed

section \<open>Snapshots and restarts\<close>

definition covers :: "nat list \<Rightarrow> 's list \<Rightarrow> bool" where
  "covers order ss \<longleftrightarrow> mset order = mset [0..<length ss]"

lemma mset_concat_order:
  assumes "covers order ss"
  shows "mset (concat (map (\<lambda>i. f (ss ! i)) order)) = mset (concat (map f ss))"
proof -
  have "mset (map (\<lambda>i. mset (f (ss ! i))) order) = mset (map (\<lambda>i. mset (f (ss ! i))) [0..<length ss])"
    using assms by (simp add: covers_def)
  moreover have "map (\<lambda>i. mset (f (ss ! i))) [0..<length ss] = map (mset \<circ> f) ss"
    by (intro nth_equalityI) simp_all
  ultimately show ?thesis by (simp add: mset_concat o_def sum_mset_sum_list [symmetric] del: sum_mset_sum_list)
qed

lemma pool_contents_entries: "pool_contents ss = mset (map e_proxy (concat (map entries ss)))"
proof -
  have "contents s = mset (map e_proxy (entries s))" for s
    by (simp add: contents_def entries_def multiset.map_comp o_def)
  then show ?thesis by (induction ss) (simp_all add: pool_contents_def)
qed

lemma snapshot_mset:
  assumes "sorts srt" and "covers order ss"
  shows "mset (snapshot srt now order ss) = mset (concat (map entries ss))"
  using mset_concat_order [OF assms(2), of entries] by (simp add: snapshot_def Slice_def sorts_mset [OF assms(1)])

lemma restore_ok:
  assumes "ss \<noteq> []" and "routed ss" and "\<forall>s \<in> set ss. \<forall>l \<in> set (Entries s). l < fresh s"
  shows "\<exists>ss'. restore es ss = Some ss' \<and> length ss' = length ss \<and> routed ss' \<and>
    pool_contents ss' = mset (map e_proxy es) + pool_contents ss"
  using assms
proof (induction es arbitrary: ss)
  case Nil
  then show ?case by simp
next
  case (Cons e es)
  obtain i where i: "bucket (e_proxy e) ss = Some i" "i < length ss" using bucket_ok [OF Cons.prems(1)] by blast
  let ?s = "ss ! i"
  let ?n = "(store (fresh ?s) e ?s)\<lparr>fresh := fresh ?s + 1, Entries := Entries ?s @ [fresh ?s]\<rparr>"
  have fr: "\<forall>l \<in> set (Entries ?s). l < fresh ?s" using Cons.prems(3) i(2) by simp
  then have con: "contents ?n = add_mset (e_proxy e) (contents ?s)"
    by (auto simp: contents_def intro!: image_mset_cong)
  have "routed (ss[i := ?n])"
    by (rule routed_update [OF Cons.prems(2) i(2)]) (use con i in auto)
  moreover have "\<forall>s \<in> set (ss[i := ?n]). \<forall>l \<in> set (Entries s). l < fresh s"
    using Cons.prems(3) fr by (fastforce dest!: subsetD [OF set_update_subset_insert] intro: less_SucI)
  moreover have "pool_contents (ss[i := ?n]) = add_mset (e_proxy e) (pool_contents ss)"
    using pool_contents_update [OF i(2), of ?n] con by simp
  ultimately show ?case using Cons.IH [of "ss[i := ?n]"] i Cons.prems(1) by (auto simp: Let_def)
qed

section \<open>One request\<close>

text \<open>What the surroundings keep: the clock is set, and others leave a pool and a shard as good as they were.\<close>

definition calm :: "surroundings \<Rightarrow> bool" where
  "calm w \<longleftrightarrow>
     (\<forall>a. 0 < asked_at w a \<and> 0 < replied_at w a) \<and>
     (\<forall>a ss. (\<forall>s \<in> set ss. shard_ok s) \<longrightarrow> (\<forall>s \<in> set (others w a ss). shard_ok s) \<and> length (others w a ss) = length ss) \<and>
     (\<forall>a s. shard_ok s \<longrightarrow> shard_ok (meanwhile w a s) \<and> fresh s \<le> fresh (meanwhile w a s))"

lemma serve_ok:
  assumes "config_ok c" and "calm w" and "shard_ok s"
  shows "\<exists>s' res rqs left. serve c zone w r s = Some (s', res, rqs, left) \<and> shard_ok s' \<and>
    (case res of None \<Rightarrow> rq_attempt r < 10
     | Some res \<Rightarrow> StatusCode res < 400 \<or> StatusCode res = 552 \<and> rqs = [] \<or> StatusCode res = 429 \<and> 10 \<le> rq_attempt r)"
proof -
  let ?a = "rq_attempt r"
  have t: "0 < asked_at w ?a" "0 < replied_at w ?a" using assms(2) by (simp_all add: calm_def)
  obtain s1 out where h: "handleRequest c zone (asked_at w ?a) (agent w ?a) (offset w ?a) r s = Some (s1, [out])" "tended s s1"
    "(\<exists>res. out = Sent (rq_out r) (Some res) \<and> StatusCode res = 552) \<or>
     (\<exists>r' l. out = Work r' l \<and> rq_out r' = rq_out r \<and> rq_attempt r' = ?a \<and> l \<in> set (Entries s) \<and>
        RqProxy (rq_in r') = Some (e_proxy (heap s l)))"
    using handleRequest_ok [OF assms(3) t(1), of c zone "agent w ?a" "offset w ?a" r] by blast
  have s1: "shard_ok s1" by (rule tended_ok [OF h(2) assms(3)])
  from h(3) show ?thesis
  proof (elim disjE exE conjE)
    fix res assume "out = Sent (rq_out r) (Some res)" "StatusCode res = 552"
    with h(1) s1 show ?thesis by (simp add: serve_def)
  next
    fix r' l assume o: "out = Work r' l" "rq_attempt r' = ?a" "l \<in> set (Entries s)"
    let ?s = "meanwhile w ?a s1" and ?rp = "worker w r' l"
    have s2: "shard_ok ?s" "fresh s1 \<le> fresh ?s" using assms(2) s1 by (simp_all add: calm_def)
    have rp: "rp_entry ?rp = l" "rp_request ?rp = r'" by (simp_all add: worker_def split: prod.splits)
    have l: "rp_entry ?rp < fresh ?s"
      using shard_okD(2) [OF assms(3) o(3)] h(2) s2(2) by (simp add: rp tended_def)
    obtain s3 res where hr: "handleReply c zone (replied_at w ?a) ?rp ?s = Some (s3, [Sent (rq_out r') res])" "tended ?s s3"
      "res = None \<longleftrightarrow> reply_error ?rp \<noteq> None \<and> rq_attempt r' < 10"
      using handleReply_ok [OF s2(1) l t(2) assms(1), of zone] rp by auto
    have code: "StatusCode x < 400 \<or> StatusCode x = 429 \<and> 10 \<le> ?a" if "res = Some x" for x
      using hr(1) that o(2) rp
      by (auto simp: handleReply_def Let_def forwarded_def too_many_def reply_error_def
          split: option.splits bind_splits if_splits)
    have "serve c zone w r s = Some (s3, res, [rq_in r'], snd (snd (client w ?a (rq_in r'))))"
      using h(1) hr(1) o by (simp add: serve_def)
    moreover have "shard_ok s3" by (rule tended_ok [OF hr(2) s2(1)])
    ultimately show ?thesis using code hr(3) o(2) by (cases res) auto
  qed
qed

lemma RoundTrip_loop_step:
  fixes w ss serial attempt
  defines "i \<equiv> (serial - 1 + (attempt + 1) - 1) smod int (length ss)"
  assumes "ctx_done w (attempt + 1) = None" and "ss \<noteq> []" and "0 \<le> i"
    and "length (others w (attempt + 1) ss) = length ss"
    and "send (serve c zone w) (nat i) \<lparr>rq_in = with_headers serial (attempt + 1) rq, rq_out = ch,
      rq_start = start, rq_attempt = attempt + 1, rq_serial = serial\<rparr> (others w (attempt + 1) ss) = Some (ss', res, rqs, left)"
    and again: "again = map_option (\<lambda>(ss, a, log, res). (ss, a, rqs @ log, res))
      (RoundTrip_loop c zone w ch start serial (attempt + 1)
        ((with_headers serial (attempt + 1) rq)\<lparr>RqBody := left\<rparr>) ss')"
  shows "RoundTrip_loop c zone w ch start serial attempt rq ss =
    (case res of
       None \<Rightarrow> again
     | Some x \<Rightarrow> if attempt + 1 < int (length ss) \<and> StatusCode x = 552 then again
         else Some (ss', attempt + 1, rqs, Inr x))"
  using assms(2-6) unfolding i_def again
  by (subst RoundTrip_loop.simps) (simp add: Let_def split: option.split)

text \<open>Why a request ended at an attempt, with \<open>n\<close> shards.\<close>

definition verdict :: "surroundings \<Rightarrow> int \<Rightarrow> int \<Rightarrow> go_error + http_response \<Rightarrow> bool" where
  "verdict w n a res \<longleftrightarrow>
     (case res of Inl err \<Rightarrow> ctx_done w a = Some err
      | Inr r \<Rightarrow> StatusCode r < 400 \<or> StatusCode r = 552 \<and> n \<le> a \<or> StatusCode r = 429 \<and> 10 \<le> a)"

lemma RoundTrip_loop_ok:
  assumes "config_ok c" and "calm w" and "\<forall>s \<in> set ss. shard_ok s" and "ss \<noteq> []" and "1 \<le> serial" and "0 \<le> attempt"
  shows "\<exists>ss' a log res. RoundTrip_loop c zone w ch start serial attempt rq ss = Some (ss', a, log, res) \<and>
    attempt < a \<and> (attempt < max 10 (int (length ss)) \<longrightarrow> a \<le> max 10 (int (length ss))) \<and>
    verdict w (int (length ss)) a res \<and> (\<forall>s \<in> set ss'. shard_ok s) \<and> length ss' = length ss"
  using assms(3-6)
proof (induction "nat (max 10 (int (length ss)) - attempt)" arbitrary: attempt rq ss rule: less_induct)
  case less
  let ?a = "attempt + 1" and ?n = "int (length ss)"
  show ?case
  proof (cases "ctx_done w ?a")
    case (Some err)
    then show ?thesis
      using less.prems(1) by (subst RoundTrip_loop.simps) (auto simp: Let_def verdict_def)
  next
    case None
    define i where "i = (serial - 1 + ?a - 1) smod ?n"
    have i: "0 \<le> i" "i < ?n"
      using less.prems smod_nonneg [of "serial - 1 + ?a - 1" ?n] by (simp_all add: i_def)
    define r where "r = \<lparr>rq_in = with_headers serial ?a rq, rq_out = ch, rq_start = start, rq_attempt = ?a, rq_serial = serial\<rparr>"
    have a: "rq_attempt r = ?a" by (simp add: r_def)
    let ?o = "others w ?a ss"
    have o: "\<forall>s \<in> set ?o. shard_ok s" "length ?o = length ss"
      using assms(2) less.prems(1) by (simp_all add: calm_def)
    have so: "shard_ok (?o ! nat i)" using i o by (simp add: nat_less_iff)
    obtain s' res rqs left where s': "serve c zone w r (?o ! nat i) = Some (s', res, rqs, left)" "shard_ok s'"
      "case res of None \<Rightarrow> rq_attempt r < 10
       | Some res \<Rightarrow> StatusCode res < 400 \<or> StatusCode res = 552 \<and> rqs = [] \<or> StatusCode res = 429 \<and> 10 \<le> rq_attempt r"
      using serve_ok [OF assms(1,2) so, of zone r] by auto
    let ?ss = "?o[nat i := s']" and ?rq = "(with_headers serial ?a rq)\<lparr>RqBody := left\<rparr>"
    have snd: "send (serve c zone w) (nat i) r ?o = Some (?ss, res, rqs, left)"
      using s'(1) i o by (simp add: send_def nat_less_iff)
    have ok: "\<forall>s \<in> set ?ss. shard_ok s" "?ss \<noteq> []" "length ?ss = length ss"
      using o s'(2) less.prems(2) set_update_subset_insert [of ?o "nat i" s'] by auto
    let ?again = "res = None \<or> (\<exists>x. res = Some x \<and> ?a < ?n \<and> StatusCode x = 552)"
    have step: "RoundTrip_loop c zone w ch start serial attempt rq ss =
        (if ?again then map_option (\<lambda>(ss, a, log, res). (ss, a, rqs @ log, res))
            (RoundTrip_loop c zone w ch start serial ?a ?rq ?ss)
         else Some (?ss, ?a, rqs, Inr (the res)))"
      using RoundTrip_loop_step [OF None less.prems(2) i(1) [unfolded i_def] o(2) snd [unfolded i_def r_def] refl]
      by (cases res) (simp_all add: i_def)
    show ?thesis
    proof (cases ?again)
      case True
      then have bound: "?a < max 10 ?n" using s'(3) a by auto
      then obtain ss' a' log res' where "RoundTrip_loop c zone w ch start serial ?a ?rq ?ss = Some (ss', a', log, res')"
        "?a < a'" "a' \<le> max 10 ?n"
        "verdict w ?n a' res'" "\<forall>s \<in> set ss'. shard_ok s" "length ss' = length ss"
        using less.hyps [of ?ss ?a ?rq] less.prems(3,4) ok by auto
      with True step show ?thesis by (simp del: split_paired_Ex)
    next
      case False
      then obtain x where "res = Some x" "\<not> (?a < ?n \<and> StatusCode x = 552)" by auto
      with False step s'(3) a show ?thesis using ok(1,3) by (auto simp: verdict_def)
    qed
  qed
qed

text \<open>The bodies that reach the client.\<close>

lemma handleRequest_body:
  "handleRequest c zone now ag off r s = Some (s', [Work r' l]) \<Longrightarrow> RqBody (rq_in r') = RqBody (rq_in r)"
  by (auto simp: handleRequest_def Let_def InContext_def split: bind_splits option.splits)

lemma serve_log:
  assumes "serve c zone w r s = Some (s', res, rqs, left)"
  shows "(rqs = [] \<and> left = RqBody (rq_in r)) \<or>
    (\<exists>a q. rqs = [q] \<and> RqBody q = RqBody (rq_in r) \<and> left = snd (snd (client w a q)))"
proof -
  obtain s1 outs where h: "handleRequest c zone (asked_at w (rq_attempt r)) (agent w (rq_attempt r)) (offset w (rq_attempt r)) r s = Some (s1, outs)"
    using assms by (auto simp: serve_def split: bind_splits)
  from handleRequest_not_nil [OF this] show ?thesis
  proof (elim disjE exE conjE)
    fix res assume "outs = [Sent (rq_out r) (Some res)]"
    with assms h show ?thesis by (simp add: serve_def)
  next
    fix r' l assume o: "outs = [Work r' l]"
    then have "RqBody (rq_in r') = RqBody (rq_in r)" using h handleRequest_body by blast
    with assms h o show ?thesis
      by (fastforce simp: serve_def split: bind_splits list.splits outgoing.splits)
  qed
qed

definition drains :: "surroundings \<Rightarrow> bool" where
  "drains w \<longleftrightarrow> (\<forall>a q. snd (snd (client w a q)) = [])"

lemma RoundTrip_loop_bodies:
  assumes "RoundTrip_loop c zone w ch start serial attempt rq ss = Some (ss', a, qs, res)" and "drains w"
  shows "(RqBody rq = [] \<longrightarrow> (\<forall>q \<in> set qs. RqBody q = [])) \<and> (\<forall>q \<in> set (tl qs). RqBody q = [])"
  using assms(1)
proof (induction "nat (max 10 (int (length ss)) - attempt)" arbitrary: attempt rq ss ss' a qs res rule: less_induct)
  case less
  let ?a = "attempt + 1" and ?n = "int (length ss)"
  let ?i = "(serial - 1 + ?a - 1) smod ?n"
  let ?rq = "with_headers serial ?a rq"
  let ?r = "\<lparr>rq_in = ?rq, rq_out = ch, rq_start = start, rq_attempt = ?a, rq_serial = serial\<rparr>"
  let ?again = "\<lambda>left ss1. RoundTrip_loop c zone w ch start serial ?a (?rq\<lparr>RqBody := left\<rparr>) ss1"
  show ?case
  proof (cases "ctx_done w ?a")
    case (Some err)
    with less.prems show ?thesis by (subst (asm) RoundTrip_loop.simps) (auto simp: Let_def)
  next
    case None
    have guard: "ss \<noteq> []" "0 \<le> ?i" "length (others w ?a ss) = length ss"
      using less.prems None by (subst (asm) RoundTrip_loop.simps; force simp: Let_def split: if_splits)+
    have "send (serve c zone w) (nat ?i) ?r (others w ?a ss) \<noteq> None"
    proof
      assume "send (serve c zone w) (nat ?i) ?r (others w ?a ss) = None"
      with less.prems None guard show False by (subst (asm) RoundTrip_loop.simps) (simp add: Let_def)
    qed
    then obtain ss1 res1 rqs left where snd: "send (serve c zone w) (nat ?i) ?r (others w ?a ss) = Some (ss1, res1, rqs, left)"
      by (cases "send (serve c zone w) (nat ?i) ?r (others w ?a ss)") auto
    have body1: "(rqs = [] \<and> left = RqBody rq) \<or> (\<exists>q. rqs = [q] \<and> RqBody q = RqBody rq \<and> left = [])"
    proof -
      obtain s1 s2 where "serve c zone w ?r s1 = Some (s2, res1, rqs, left)" using send_step [OF snd] by blast
      from serve_log [OF this] assms(2) show ?thesis by (auto simp: drains_def with_headers_def)
    qed
    note step = RoundTrip_loop_step [OF None guard snd refl]
    show ?thesis
    proof (cases "res1 = None \<or> (\<exists>x. res1 = Some x \<and> ?a < ?n \<and> StatusCode x = 552)")
      case True
      then have "?a < max 10 ?n" using send_nil snd by fastforce
      moreover have "length ss1 = length ss" using send_length [OF snd] guard(3) by simp
      moreover obtain qs2 where "?again left ss1 = Some (ss', a, qs2, res)" "qs = rqs @ qs2"
        using True less.prems step by (cases res1) (auto split: if_splits)
      ultimately show ?thesis using less.hyps [of ss1 ?a "?rq\<lparr>RqBody := left\<rparr>" ss' a qs2 res] body1
        by (auto simp: tl_append split: list.splits)
    next
      case False
      then have "qs = rqs" using less.prems step by (cases res1) (auto split: if_splits)
      with body1 show ?thesis by auto
    qed
  qed
qed

section \<open>Properties\<close>


definition two_shards :: "shard list" where
  "two_shards = the (Add default_config 0 sort_by minute sample_proxy second (replicate 2 new_shard))"

lemma two_shards: "pool_reaches default_config 0 sort_by 2 two_shards"
    "Add default_config 0 sort_by minute sample_proxy second (replicate 2 new_shard) = Some two_shards"
    "pool_contents two_shards = {#sample_proxy#}"
proof -
  obtain ss where ss: "Add default_config 0 sort_by minute sample_proxy second (replicate 2 new_shard) = Some ss"
    "pool_contents ss = add_mset sample_proxy (pool_contents (replicate 2 new_shard))"
    using Add_ok [OF default_config_ok sorts_sort_by pool_ok_new [of 2], of 0 minute sample_proxy second] by auto
  show add: "Add default_config 0 sort_by minute sample_proxy second (replicate 2 new_shard) = Some two_shards"
    using ss(1) by (simp add: two_shards_def)
  show "pool_contents two_shards = {#sample_proxy#}"
    using ss by (simp add: two_shards_def pool_contents_def contents_def new_shard_def)
  show "pool_reaches default_config 0 sort_by 2 two_shards"
    by (rule pool_reaches.intros(2) [OF pool_reaches.intros(1), of _ "PoolAdd minute sample_proxy second"]) (use add in simp_all)
qed


text \<open>
  A removal reports whether the pool held the proxy, and takes every entry of that proxy and nothing else out of the
  whole pool; an addition adds one entry.
\<close>

theorem pool_remove_complete:
  assumes "config_ok c" and "sorts srt" and "0 < n" and "pool_reaches c zone srt n ss"
  shows "\<exists>ss1 ss2 found. pool_Remove c zone srt p ss = Some (ss1, found) \<and>
    (found \<longleftrightarrow> p \<in># pool_contents ss) \<and> pool_contents ss1 = filter_mset (\<lambda>q. q \<noteq> p) (pool_contents ss) \<and>
    Add c zone srt now p speed ss = Some ss2 \<and> pool_contents ss2 = add_mset p (pool_contents ss)"
proof -
  have ok: "pool_ok ss" using pool_ok_reaches [OF assms] by auto
  show ?thesis
    using Remove_ok [OF assms(1,2) ok, of zone p] Add_ok [OF assms(1,2) ok, of zone now p speed] by blast
qed

theorem pool_remove_complete_witness:
  "\<exists>ss. pool_Remove default_config 0 sort_by sample_proxy two_shards = Some (ss, True) \<and> pool_contents ss = {#}"
  using pool_remove_complete [OF default_config_ok sorts_sort_by _ two_shards(1), of sample_proxy minute second] two_shards(3)
  by auto


definition refusing :: surroundings where
  "refusing = \<lparr>ctx_done = (\<lambda>_. None), asked_at = (\<lambda>_. minute), replied_at = (\<lambda>_. minute), agent = (\<lambda>_. ''a''),
     offset = (\<lambda>_. 0), others = (\<lambda>_ ss. ss), meanwhile = (\<lambda>_ s. s),
     client = (\<lambda>_ _. (\<lparr>StatusCode = 0, Status = [], RsHeader = Map.empty, RsBody = []\<rparr>,
       Some \<lparr>err_text = ''refused'', err_timeout = False\<rparr>, []))\<rparr>"

lemma refusing: "calm refusing" "drains refusing"
  by (simp_all add: calm_def drains_def refusing_def)


text \<open>
  A request with a body is not repeated: when the client reads the bodies it is given, every attempt
  after the first one sends an empty body.
\<close>

theorem retry_loses_body:
  assumes "drains w" and "RoundTrip c zone w ch start serial rq ss = Some (ss', a, asked, res)"
  shows "\<forall>q \<in> set (tl asked). RqBody q = []"
  using RoundTrip_loop_bodies [OF assms(2) [unfolded RoundTrip_def] assms(1)] by blast

theorem retry_loses_body_witness:
  "\<exists>ss' a asked res. RoundTrip default_config 0 refusing 7 minute 1 ((rq_in sample_request)\<lparr>RqBody := [104, 105]\<rparr>) [one_entry] =
    Some (ss', a, asked, res) \<and> (\<forall>q \<in> set (tl asked). RqBody q = [])"
proof -
  let ?rq = "(rq_in sample_request)\<lparr>RqBody := [104, 105]\<rparr>"
  have "\<forall>s \<in> set [one_entry]. shard_ok s" using one_entry(1) by simp
  then obtain ss' a asked res where r: "RoundTrip default_config 0 refusing 7 minute 1 ?rq [one_entry] = Some (ss', a, asked, res)"
    using RoundTrip_loop_ok [OF default_config_ok refusing(1), of "[one_entry]" 1 0 0 7 minute ?rq]
    by (auto simp: RoundTrip_def)
  from retry_loses_body [OF refusing(2) r] r show ?thesis by blast
qed

text \<open>
  C38. A snapshot lists every entry of every shard once, in the order of \<open>fastestUnseen\<close>, in whatever order the
  shards answer; and a pool restored from a saved snapshot holds the same proxies, each in the
  shard of its bucket.
\<close>

theorem snapshot_and_restart:
  assumes "sorts srt" and "covers order ss" and "0 < n"
    and "\<And>es. dec (enc es) = Inr (read es)" and "\<And>es. map e_proxy (read es) = map e_proxy es"
  shows "mset (snapshot srt now order ss) = mset (concat (map entries ss)) \<and>
    in_order (key_less (\<lambda>e. Chain (fastestUnseen now e))) (snapshot srt now order ss) \<and>
    (\<exists>ss'. UnmarshalBinary dec (MarshalBinary enc srt now order ss) (replicate n new_shard) = Some (Inr ss') \<and>
      routed ss' \<and> pool_contents ss' = pool_contents ss)"
proof -
  let ?snap = "snapshot srt now order ss"
  have m: "mset ?snap = mset (concat (map entries ss))" by (rule snapshot_mset [OF assms(1,2)])
  have o: "in_order (key_less (\<lambda>e. Chain (fastestUnseen now e))) ?snap"
    unfolding snapshot_def Slice_def by (rule sorts_in_order [OF assms(1) by_unseen.strict_weak_axioms])
  have new: "routed (replicate n new_shard)" "\<forall>s \<in> set (replicate n new_shard). \<forall>l \<in> set (Entries s). l < fresh s"
    "replicate n new_shard \<noteq> []" "pool_contents (replicate n new_shard) = {#}"
    using pool_ok_new [OF assms(3)] assms(3)
    by (auto simp: pool_ok_def new_shard_def pool_contents_def contents_def sum_mset_replicate_mset)
  obtain ss' where ss': "restore (read ?snap) (replicate n new_shard) = Some ss'" "routed ss'"
    "pool_contents ss' = mset (map e_proxy (read ?snap)) + pool_contents (replicate n new_shard)"
    using restore_ok [OF new(3,1,2)] by blast
  have "pool_contents ss' = mset (map e_proxy ?snap)" by (simp add: ss'(3) new(4) assms(5) del: mset_map)
  also have "\<dots> = pool_contents ss" using m by (simp add: pool_contents_entries)
  finally have "pool_contents ss' = pool_contents ss" .
  then show ?thesis using m o ss'(1,2) by (simp add: UnmarshalBinary_def MarshalBinary_def assms(4))
qed

theorem snapshot_and_restart_witness:
  "\<exists>ss. UnmarshalBinary Inr (MarshalBinary (\<lambda>es. es) sort_by minute [1, 0] two_shards) (replicate 3 new_shard) = Some (Inr ss) \<and>
    pool_contents ss = {#sample_proxy#}"
proof -
  have "length two_shards = 2" using pool_ok_reaches [OF default_config_ok sorts_sort_by _ two_shards(1)] by simp
  then have "covers [1, 0] two_shards" by (simp add: covers_def numeral_2_eq_2 add_mset_commute)
  from snapshot_and_restart [OF sorts_sort_by this, of 3 Inr "\<lambda>es. es" "\<lambda>es. es" minute] show ?thesis
    by (auto simp: two_shards(3))
qed

lemma Session_loop_ok:
  assumes "snap \<noteq> []" and "\<And>i. cancelled i = None" and "attempts < 10"
  shows "\<exists>a err. Session_loop r snap cancelled fn attempts = Some (a, err) \<and> attempts < a \<and> a \<le> 10 \<and>
    (err \<noteq> None \<longrightarrow> a = 10)"
  using assms(3)
proof (induction "nat (10 - attempts)" arbitrary: attempts rule: less_induct)
  case less
  let ?a = "attempts + 1" and ?err = "fn (attempts + 1) (e_proxy (snap ! (r attempts mod length snap)))"
  have step: "Session_loop r snap cancelled fn attempts =
      (if ?err \<noteq> None \<and> ?a < 10 then Session_loop r snap cancelled fn ?a else Some (?a, ?err))"
    using assms(1,2) by (subst Session_loop.simps) (simp add: Intn_def Let_def)
  show ?case
  proof (cases "?err \<noteq> None \<and> ?a < 10")
    case True
    with less.hyps [of ?a] less.prems show ?thesis unfolding step by fastforce
  next
    case False
    with less.prems show ?thesis unfolding step by auto
  qed
qed

text \<open>
  A session through the pool's client ends within ten attempts, and gives up on an error only after the tenth. It
  panics, as \<open>RandomFast\<close> does, exactly when no entry is as fast as a second: there is no check that the pool
  has any.
\<close>

theorem session_outcome:
  assumes "\<And>i. cancelled i = None"
  shows "(Session r snap cancelled fn = None \<longleftrightarrow> fast snap = []) \<and>
    (RandomFast k snap rq = None \<longleftrightarrow> fast snap = []) \<and>
    (\<forall>a err. Session r snap cancelled fn = Some (a, err) \<longrightarrow> 1 \<le> a \<and> a \<le> 10 \<and> (err \<noteq> None \<longrightarrow> a = 10))"
proof (cases "fast snap = []")
  case True
  then have "Session r snap cancelled fn = None"
    by (simp add: Session_def Session_loop.simps [of r "[]"] Intn_def)
  with True show ?thesis by (simp add: RandomFast_def Intn_def)
next
  case False
  from Session_loop_ok [where snap = "fast snap" and cancelled = cancelled and attempts = 0 and r = r and fn = fn, OF this assms] False show ?thesis
    by (auto simp: Session_def RandomFast_def Intn_def)
qed

theorem session_outcome_witness:
  "Session (\<lambda>_. 3) [] (\<lambda>_. None) (\<lambda>_ _. None) = None"
  using session_outcome [of "\<lambda>_. None" "\<lambda>_. 3" "[]" "\<lambda>_ _. None"] by (simp add: fast_def)

end
