(* ===== verification/Stats.thy ===== *)
theory Stats
  imports Floats
begin

text \<open>
  The package \<open>stats\<close>: one record per source, moved along by the updates the components send. The
  progress is a 32-bit float cut to an integer; a conversion that overflows gives the least
  integer, as on amd64. Sources are numbers, 0 is the re-verification (\<open>Reverify\<close> of the package \<open>probe\<close>).
\<close>

datatype state = Idle | Running | Failed

record stat =
  State :: state
  Progress :: int
  anticipated :: int
  Scheduled :: int
  New :: int
  Probing :: int
  Found :: int
  Timeouts :: int
  Blacklisted :: int
  Ignored :: int
  Updated :: time
  finished :: bool
  Failure :: string

definition new_stat :: stat where
  "new_stat = \<lparr>State = Running, Progress = 0, anticipated = 0, Scheduled = 0, New = 0, Probing = 0, Found = 0,
     Timeouts = 0, Blacklisted = 0, Ignored = 0, Updated = 0, finished = False, Failure = []\<rparr>"

definition Pipeline :: "stat \<Rightarrow> int" where
  "Pipeline v = Scheduled v + New v + Probing v"

definition Processed :: "stat \<Rightarrow> int" where
  "Processed v = Found v + Timeouts v + Blacklisted v + Ignored v"

text \<open>The increments, with what comes along: the anticipated count of a launch, the error of an end.\<close>

datatype increment =
    Launch int
  | IsScheduled | IsIgnored | IsProbing | IsNew | IsTimeout | IsBlacklisted | IsFound
  | Finish "string option"

type_synonym stats = "int \<rightharpoonup> stat"

definition percent :: "int \<Rightarrow> int \<Rightarrow> int" where
  "percent processed n =
     (case int_of_flt (flt_div binary32 (flt_mul binary32 (flt_of_int binary32 100) (flt_of_int binary32 processed))
         (flt_of_int binary32 n)) of
        Some i \<Rightarrow> i | None \<Rightarrow> - (2 ^ 63))"

fun increment_stat :: "increment \<Rightarrow> stat \<Rightarrow> stat" where
  "increment_stat (Launch n) s =
     new_stat\<lparr>anticipated := (if n = 0 then Processed s else n)\<rparr>"
| "increment_stat IsScheduled s = s\<lparr>Scheduled := Scheduled s + 1\<rparr>"
| "increment_stat IsIgnored s = s\<lparr>Scheduled := Scheduled s - 1, Ignored := Ignored s + 1\<rparr>"
| "increment_stat IsNew s = s\<lparr>Scheduled := Scheduled s - 1, New := New s + 1\<rparr>"
| "increment_stat IsProbing s = s\<lparr>New := New s - 1, Probing := Probing s + 1\<rparr>"
| "increment_stat IsFound s = s\<lparr>Probing := Probing s - 1, Found := Found s + 1\<rparr>"
| "increment_stat IsTimeout s = s\<lparr>Probing := Probing s - 1, Timeouts := Timeouts s + 1\<rparr>"
| "increment_stat IsBlacklisted s = s\<lparr>Probing := Probing s - 1, Blacklisted := Blacklisted s + 1\<rparr>"
| "increment_stat (Finish err) s =
     (case err of
        None \<Rightarrow> s\<lparr>finished := True\<rparr>
      | Some e \<Rightarrow> s\<lparr>finished := True, State := Failed, Failure := e\<rparr>)"

definition refresh_progress :: "stat \<Rightarrow> stat" where
  "refresh_progress s = (if anticipated s > 0 then s\<lparr>Progress := percent (Processed s) (anticipated s)\<rparr> else s)"

definition cap_progress :: "stat \<Rightarrow> stat" where
  "cap_progress s = (if Progress s > 100 then s\<lparr>Progress := 100\<rparr> else s)"

definition settle :: "stat \<Rightarrow> stat" where
  "settle s =
     (if finished s \<and> State s \<noteq> Failed \<and> Pipeline s = 0 then s\<lparr>Progress := 100, State := Idle\<rparr> else s)"

definition handleUpdate :: "time \<Rightarrow> int \<Rightarrow> increment \<Rightarrow> stats \<Rightarrow> stats" where
  "handleUpdate now source inc ss =
     (let stat = (case ss source of None \<Rightarrow> new_stat | Some s \<Rightarrow> s);
          stat = settle (cap_progress (refresh_progress (increment_stat inc stat)))
      in ss(source \<mapsto> stat\<lparr>Updated := now\<rparr>))"

text \<open>\<open>Launch\<close> of the package anticipates nothing.\<close>

definition Launch0 :: "time \<Rightarrow> int \<Rightarrow> stats \<Rightarrow> stats" where
  "Launch0 now source = handleUpdate now source (Launch 0)"

definition LaunchAnticipated :: "time \<Rightarrow> int \<Rightarrow> int \<Rightarrow> stats \<Rightarrow> stats" where
  "LaunchAnticipated now source n = handleUpdate now source (Launch n)"

definition Update :: "time \<Rightarrow> int \<Rightarrow> increment \<Rightarrow> stats \<Rightarrow> stats" where
  "Update now source inc = handleUpdate now source inc"

definition IsRunning :: "stats \<Rightarrow> int \<Rightarrow> bool" where
  "IsRunning ss source = (case ss source of None \<Rightarrow> False | Some s \<Rightarrow> State s = Running)"

text \<open>\<open>order\<close> is the order of the iteration over the map.\<close>

definition LastUpdated :: "int list \<Rightarrow> stats \<Rightarrow> time" where
  "LastUpdated order ss =
     fold (\<lambda>k last. case ss k of None \<Rightarrow> last | Some v \<Rightarrow> if Updated v > last then Updated v else last) order 0"

text \<open>A restart keeps the idle sources only.\<close>

definition restored :: "stats \<Rightarrow> stats" where
  "restored ss = (\<lambda>k. case ss k of None \<Rightarrow> None | Some v \<Rightarrow> if State v = Idle then Some v else None)"

definition MarshalBinary :: "(stats \<Rightarrow> 'b) \<Rightarrow> stats \<Rightarrow> 'b" where
  "MarshalBinary enc ss = enc ss"

definition UnmarshalBinary :: "('b \<Rightarrow> string + stats) \<Rightarrow> 'b \<Rightarrow> string + stats" where
  "UnmarshalBinary dec data =
     (case dec data of Inl err \<Rightarrow> Inl err | Inr ss \<Rightarrow> Inr (restored ss))"

section \<open>Runs of updates\<close>

fun updates :: "(time \<times> int \<times> increment) list \<Rightarrow> stats \<Rightarrow> stats" where
  "updates [] ss = ss"
| "updates ((now, source, inc) # us) ss = updates us (handleUpdate now source inc ss)"

definition incs_of :: "int \<Rightarrow> (time \<times> int \<times> increment) list \<Rightarrow> increment list" where
  "incs_of source us = map (\<lambda>(now, s, inc). inc) (filter (\<lambda>(now, s, inc). s = source) us)"

fun is_launch :: "increment \<Rightarrow> bool" where
  "is_launch (Launch n) = True"
| "is_launch inc = False"

fun is_finish :: "increment \<Rightarrow> bool" where
  "is_finish (Finish e) = True"
| "is_finish inc = False"

fun outcome :: "increment \<Rightarrow> bool" where
  "outcome inc = (inc \<in> {IsIgnored, IsTimeout, IsBlacklisted, IsFound})"

lemma counts_after [simp]:
  "Pipeline (settle s) = Pipeline s" "Processed (settle s) = Processed s"
  "Pipeline (cap_progress s) = Pipeline s" "Processed (cap_progress s) = Processed s"
  "Pipeline (refresh_progress s) = Pipeline s" "Processed (refresh_progress s) = Processed s"
  "finished (settle s) = finished s" "finished (cap_progress s) = finished s" "finished (refresh_progress s) = finished s"
  "State (cap_progress s) = State s" "State (refresh_progress s) = State s"
  by (simp_all add: settle_def cap_progress_def refresh_progress_def Pipeline_def Processed_def)

lemma counts_Updated [simp]:
  "Pipeline (s\<lparr>Updated := now\<rparr>) = Pipeline s" "Processed (s\<lparr>Updated := now\<rparr>) = Processed s"
  by (simp_all add: Pipeline_def Processed_def)

lemma increment_counts:
  assumes "\<not> is_launch inc"
  shows "Pipeline (increment_stat inc s) + Processed (increment_stat inc s) =
      Pipeline s + Processed s + (if inc = IsScheduled then 1 else 0)"
    and "Processed (increment_stat inc s) = Processed s + (if outcome inc then 1 else 0)"
  using assms by (cases inc; auto simp: Pipeline_def Processed_def split: option.splits)+

lemma settle_progress: "Progress s \<le> 100 \<Longrightarrow> Progress (settle s) \<le> 100"
  and cap_progress_le: "Progress (cap_progress s) \<le> 100"
  by (simp_all add: settle_def cap_progress_def)

lemma handleUpdate_other [simp]: "k \<noteq> source \<Longrightarrow> handleUpdate now source inc ss k = ss k"
  by (simp add: handleUpdate_def Let_def)

lemma handleUpdate_here:
  "handleUpdate now source inc ss source =
     Some ((settle (cap_progress (refresh_progress (increment_stat inc
       (case ss source of None \<Rightarrow> new_stat | Some s \<Rightarrow> s)))))\<lparr>Updated := now\<rparr>)"
  by (simp add: handleUpdate_def Let_def)

text \<open>Without launches, the counts of a source follow the updates it got.\<close>

lemma updates_counts:
  assumes "\<forall>inc \<in> set (incs_of source us). \<not> is_launch inc" and "ss source = Some s"
  shows "\<exists>s'. updates us ss source = Some s' \<and>
    Pipeline s' + Processed s' = Pipeline s + Processed s + int (count_list (incs_of source us) IsScheduled) \<and>
    Processed s' = Processed s + int (length (filter outcome (incs_of source us)))"
  using assms
proof (induction us arbitrary: ss s)
  case Nil
  then show ?case by (simp add: incs_of_def)
next
  case (Cons u us)
  obtain now k inc where u: "u = (now, k, inc)" by (cases u)
  show ?case
  proof (cases "k = source")
    case True
    have nl: "\<not> is_launch inc" using Cons.prems(1) True by (simp add: u incs_of_def)
    obtain s1 where s1: "handleUpdate now k inc ss source = Some s1"
      "Pipeline s1 = Pipeline (increment_stat inc s)" "Processed s1 = Processed (increment_stat inc s)"
      using Cons.prems(2) True by (simp add: handleUpdate_here)
    moreover have "\<forall>inc \<in> set (incs_of source us). \<not> is_launch inc"
      using Cons.prems(1) by (simp add: u incs_of_def split: if_splits)
    ultimately obtain s' where "updates us (handleUpdate now k inc ss) source = Some s'"
      "Pipeline s' + Processed s' = Pipeline s1 + Processed s1 + int (count_list (incs_of source us) IsScheduled)"
      "Processed s' = Processed s1 + int (length (filter outcome (incs_of source us)))"
      using Cons.IH by blast
    then show ?thesis using increment_counts [OF nl, of s] s1 True
      by (auto simp: u incs_of_def simp del: outcome.simps)
  next
    case False
    with Cons.IH [of "handleUpdate now k inc ss" s] Cons.prems show ?thesis by (simp add: u incs_of_def)
  qed
qed

text \<open>A source that was never launched nor finished cannot become idle.\<close>

lemma updates_running:
  assumes "\<forall>inc \<in> set (incs_of source us). \<not> is_launch inc \<and> \<not> is_finish inc"
    and "ss source = Some s" and "State s = Running" and "\<not> finished s"
  shows "\<exists>s'. updates us ss source = Some s' \<and> State s' = Running"
  using assms
proof (induction us arbitrary: ss s)
  case Nil
  then show ?case by simp
next
  case (Cons u us)
  obtain now k inc where u: "u = (now, k, inc)" by (cases u)
  have rest: "\<forall>inc \<in> set (incs_of source us). \<not> is_launch inc \<and> \<not> is_finish inc"
    using Cons.prems(1) by (simp add: u incs_of_def split: if_splits)
  show ?case
  proof (cases "k = source")
    case True
    have "\<not> is_launch inc" "\<not> is_finish inc" using Cons.prems(1) True by (simp_all add: u incs_of_def)
    then have "\<not> finished (increment_stat inc s)" "State (increment_stat inc s) = Running"
      using Cons.prems(3,4) by (cases inc; simp)+
    then obtain s1 where "handleUpdate now k inc ss source = Some s1" "State s1 = Running" "\<not> finished s1"
      using Cons.prems(2) True by (simp add: handleUpdate_here settle_def)
    with Cons.IH [OF rest] show ?thesis by (simp add: u)
  next
    case False
    with Cons.IH [OF rest, of "handleUpdate now k inc ss" s] Cons.prems show ?thesis by (simp add: u)
  qed
qed

definition settled :: "stat \<Rightarrow> bool" where
  "settled s \<longleftrightarrow> Progress s \<le> 100 \<and>
     (finished s \<and> State s \<noteq> Failed \<and> Pipeline s = 0 \<longrightarrow> State s = Idle \<and> Progress s = 100)"

lemma handleUpdate_settled:
  "\<exists>s. handleUpdate now source inc ss source = Some s \<and> settled s"
proof -
  have "settled (settle (cap_progress s))" for s
    using cap_progress_le [of s] settle_progress [of "cap_progress s"]
    by (auto simp: settled_def settle_def Pipeline_def)
  then show ?thesis by (simp add: handleUpdate_here settled_def)
qed

lemma updates_settled:
  "ss source = Some s \<Longrightarrow> settled s \<Longrightarrow> \<exists>s'. updates us ss source = Some s' \<and> settled s'"
proof (induction us arbitrary: ss s)
  case Nil
  then show ?case by simp
next
  case (Cons u us)
  obtain now k inc where u: "u = (now, k, inc)" by (cases u)
  show ?case
  proof (cases "k = source")
    case True
    then show ?thesis using handleUpdate_settled [of now source inc ss] Cons.IH [of "handleUpdate now k inc ss"]
      by (auto simp: u)
  next
    case False
    then show ?thesis using Cons by (simp add: u)
  qed
qed

lemma updates_finished:
  assumes "\<forall>inc \<in> set (incs_of source us). \<not> is_launch inc \<and> (\<forall>e. inc \<noteq> Finish (Some e))"
    and "ss source = Some s" and "State s \<noteq> Failed"
  shows "\<exists>s'. updates us ss source = Some s' \<and> State s' \<noteq> Failed \<and>
    (finished s' \<longleftrightarrow> finished s \<or> Finish None \<in> set (incs_of source us))"
  using assms
proof (induction us arbitrary: ss s)
  case Nil
  then show ?case by (simp add: incs_of_def)
next
  case (Cons u us)
  obtain now k inc where u: "u = (now, k, inc)" by (cases u)
  have rest: "\<forall>inc \<in> set (incs_of source us). \<not> is_launch inc \<and> (\<forall>e. inc \<noteq> Finish (Some e))"
    using Cons.prems(1) by (simp add: u incs_of_def split: if_splits)
  show ?case
  proof (cases "k = source")
    case True
    have "\<not> is_launch inc" "\<forall>e. inc \<noteq> Finish (Some e)" using Cons.prems(1) True by (simp_all add: u incs_of_def)
    then have "finished (increment_stat inc s) \<longleftrightarrow> finished s \<or> inc = Finish None" "State (increment_stat inc s) \<noteq> Failed"
      using Cons.prems(3) by (cases inc; auto split: option.splits)+
    then obtain s1 where "handleUpdate now k inc ss source = Some s1" "State s1 \<noteq> Failed"
      "finished s1 \<longleftrightarrow> finished s \<or> inc = Finish None"
      using Cons.prems(2) True by (simp add: handleUpdate_here settle_def)
    with Cons.IH [OF rest] True show ?thesis by (auto simp: u incs_of_def)
  next
    case False
    with Cons.IH [OF rest, of "handleUpdate now k inc ss" s] Cons.prems show ?thesis by (simp add: u incs_of_def)
  qed
qed

lemma launch_counts:
  "Pipeline (increment_stat (Launch n) s) = 0" "Processed (increment_stat (Launch n) s) = 0"
  "State (increment_stat (Launch n) s) = Running" "\<not> finished (increment_stat (Launch n) s)"
  by (simp_all add: new_stat_def Pipeline_def Processed_def)

lemma settle_running: "\<not> finished s \<Longrightarrow> settle s = s"
  by (simp add: settle_def)

section \<open>Properties\<close>

text \<open>
  C37. After a launch, and until the next one, the records of a source add up: what is in the
  pipeline and what was processed are together what was scheduled, the processed are the outcomes, and the
  progress never passes 100. Once the source has finished without an error and every scheduled proxy had its outcome, it is idle, at 100.
\<close>

theorem stats_add_up:
  assumes "\<forall>inc \<in> set (incs_of source us). \<not> is_launch inc"
  shows "\<exists>s. updates us (handleUpdate now source (Launch n) ss) source = Some s \<and>
    Pipeline s + Processed s = int (count_list (incs_of source us) IsScheduled) \<and>
    Processed s = int (length (filter outcome (incs_of source us))) \<and> Progress s \<le> 100 \<and>
    (Finish None \<in> set (incs_of source us) \<and> (\<forall>e. Finish (Some e) \<notin> set (incs_of source us)) \<and>
       count_list (incs_of source us) IsScheduled = length (filter outcome (incs_of source us)) \<longrightarrow>
       State s = Idle \<and> Progress s = 100)"
proof -
  let ?ss = "handleUpdate now source (Launch n) ss"
  obtain s0 where s0: "?ss source = Some s0" "Pipeline s0 = 0" "Processed s0 = 0" "State s0 \<noteq> Failed" "settled s0"
    using handleUpdate_settled [of now source "Launch n" ss]
    by (auto simp: handleUpdate_here launch_counts settle_running simp del: increment_stat.simps)
  obtain s where s: "updates us ?ss source = Some s"
    "Pipeline s + Processed s = int (count_list (incs_of source us) IsScheduled)"
    "Processed s = int (length (filter outcome (incs_of source us)))"
    using updates_counts [of source us ?ss s0, OF assms s0(1)] s0(2,3) by auto
  have settled: "settled s" using updates_settled [of ?ss source s0 us, OF s0(1,5)] s(1) by simp
  have "State s = Idle \<and> Progress s = 100"
    if "Finish None \<in> set (incs_of source us)" "\<forall>e. Finish (Some e) \<notin> set (incs_of source us)"
      "count_list (incs_of source us) IsScheduled = length (filter outcome (incs_of source us))"
  proof -
    have "\<forall>inc \<in> set (incs_of source us). \<not> is_launch inc \<and> (\<forall>e. inc \<noteq> Finish (Some e))"
      using assms that(2) by auto
    from updates_finished [of source us ?ss s0, OF this s0(1,4)] that(1) s(1) have "finished s" "State s \<noteq> Failed" by auto
    with settled s(2,3) that(3) show ?thesis by (simp add: settled_def)
  qed
  with s settled show ?thesis by (auto simp: settled_def)
qed

theorem stats_add_up_witness:
  "\<exists>s. updates [(2, 5, IsScheduled), (3, 6, Launch 0), (4, 5, Finish None), (5, 5, IsNew), (6, 5, IsProbing), (7, 5, IsFound)]
     (handleUpdate 1 5 (Launch 0) Map.empty) 5 = Some s \<and> State s = Idle"
  using stats_add_up [of 5 "[(2, 5, IsScheduled), (3, 6, Launch 0), (4, 5, Finish None), (5, 5, IsNew), (6, 5, IsProbing), (7, 5, IsFound)]" 1 0 Map.empty]
  by (auto simp: incs_of_def)

end
