(* ===== verification/Sources.thy ===== *)
theory Sources
  imports Pmux
begin

text \<open>
  The registry of \<open>sources/init.go\<close>, and the record of \<open>ipinfo/mmdb.go\<close> with its lookup. The
  feeds themselves scrape web pages and are not modelled: a source either has one or not. The host of
  a home page is an argument (\<open>url.Parse\<close>), as are the two databases of the lookup.
\<close>

record source =
  src_ID :: int
  src_name :: string
  Frequency :: duration
  Seed :: bool
  Session :: bool
  Homepage :: string
  UrlPrefix :: string
  has_feed :: bool

definition Name :: "(string \<Rightarrow> string option) \<Rightarrow> source \<Rightarrow> string" where
  "Name host s =
     (if src_name s \<noteq> [] then src_name s
      else if Homepage s \<noteq> []
      then (case host (Homepage s) of
              None \<Rightarrow> ''src:'' @ show_int (src_ID s)
            | Some h \<Rightarrow> if starts_with ''www.'' h then drop 4 h else h)
      else ''src:'' @ show_int (src_ID s))"

definition unknown :: source where
  "unknown = \<lparr>src_ID = 0, src_name = ''unknown'', Frequency = 0, Seed = False, Session = False, Homepage = [], UrlPrefix = [], has_feed = False\<rparr>"

fun ByID :: "source list \<Rightarrow> int \<Rightarrow> source" where
  "ByID [] i = unknown"
| "ByID (s # ss) i = (if src_ID s \<noteq> i then ByID ss i else s)"

fun ByName :: "(string \<Rightarrow> string option) \<Rightarrow> source list \<Rightarrow> string \<Rightarrow> source" where
  "ByName host [] n = unknown"
| "ByName host (s # ss) n = (if Name host s \<noteq> n then ByName host ss n else s)"

lemma Name_unknown [simp]: "Name host unknown = ''unknown''"
  by (simp add: Name_def unknown_def)

lemma ByName_known:
  "Name host (ByName host ss n) \<noteq> ''unknown'' \<Longrightarrow> ByName host ss n \<in> set ss \<and> Name host (ByName host ss n) = n"
  by (induction ss) auto

lemma ByID_known: "distinct (map src_ID ss) \<Longrightarrow> s \<in> set ss \<Longrightarrow> ByID ss (src_ID s) = s"
  by (induction ss) (auto simp: image_iff)

section \<open>What is known of an address\<close>

record info =
  Country :: string
  City :: string
  Provider :: string
  ASN :: "16 word"

definition no_info :: info where
  "no_info = \<lparr>Country = [], City = [], Provider = [], ASN = 0\<rparr>"

record databases =
  asn_db :: "8 word list \<Rightarrow> string \<times> 16 word"
  city_db :: "8 word list \<Rightarrow> string \<times> string"

definition ip_Get :: "databases option \<Rightarrow> proxy \<Rightarrow> info" where
  "ip_Get dbs p =
     (case dbs of
        None \<Rightarrow> no_info
      | Some d \<Rightarrow>
          let (provider, asn) = asn_db d (IP p); (country, city) = city_db d (IP p)
          in \<lparr>Country = country, City = city, Provider = provider, ASN = asn\<rparr>)"

end
