(* ===== verification/Probe.thy ===== *)
theory Probe
  imports Pmux Stats Sources Config "HOL-Library.Monad_Syntax"
begin

text \<open>
  The package \<open>probe\<close>: what is known of every proxy ever seen (blacklisted, found, waiting for another check), and
  the handlers of the messages of its loop. A handler works on the state and on the statistics, to which it
  reports. The order of the iterations over maps, the clock, the shortening of error texts (\<open>app.Shrink\<close>, a list
  of regular expressions), the IPv6 parser of \<open>netip\<close> and the checker's verdicts are arguments.
\<close>

record verify =
  v_Proxy :: proxy
  v_Source :: int
  v_Attempt :: int

record failure =
  f_v :: verify
  f_err :: string

record reVerify =
  rv_Proxy :: proxy
  rv_Attempt :: int
  rv_After :: int

record internal =
  LastReverified :: "proxy \<rightharpoonup> reVerify"
  Blacklist :: "proxy \<rightharpoonup> nat"
  Seen :: "proxy \<rightharpoonup> bool"
  SeenSources :: "proxy \<rightharpoonup> (int \<rightharpoonup> bool)"
  Failures :: "string list"
  ReverifyCounter :: int
  ReverifyAttempts :: int
  failuresInverted :: "string \<rightharpoonup> nat"

definition newInternal :: internal where
  "newInternal = \<lparr>LastReverified = Map.empty, Blacklist = Map.empty, Seen = Map.empty, SeenSources = Map.empty,
     Failures = [], ReverifyCounter = 0, ReverifyAttempts = 0, failuresInverted = Map.empty\<rparr>"

definition Reverify :: int where "Reverify = 0"
definition maxReverifies :: int where "maxReverifies = 5"

type_synonym ledger = "internal \<times> stats"

section \<open>Handlers\<close>

definition note_source :: "verify \<Rightarrow> internal \<Rightarrow> internal" where
  "note_source v i = i\<lparr>SeenSources := (SeenSources i)(v_Proxy v \<mapsto>
     (case SeenSources i (v_Proxy v) of None \<Rightarrow> [v_Source v \<mapsto> True] | Some m \<Rightarrow> m(v_Source v \<mapsto> True)))\<rparr>"

text \<open>The second result is what goes to the workers.\<close>

definition handleScheduled :: "time \<Rightarrow> verify \<Rightarrow> ledger \<Rightarrow> ledger \<times> verify option" where
  "handleScheduled now v = (\<lambda>(i, st).
     if v_Proxy v = 0 then ((i, Update now (v_Source v) IsIgnored st), None)
     else
       let i = note_source v i
       in if Blacklist i (v_Proxy v) \<noteq> None
          then ((i\<lparr>LastReverified := (LastReverified i)(v_Proxy v := None)\<rparr>, Update now (v_Source v) IsIgnored st), None)
          else if LastReverified i (v_Proxy v) \<noteq> None \<and> v_Attempt v = 0
          then ((i, Update now (v_Source v) IsIgnored st), None)
          else if Seen i (v_Proxy v) \<noteq> None
          then ((i\<lparr>LastReverified := (LastReverified i)(v_Proxy v := None)\<rparr>, Update now (v_Source v) IsIgnored st), None)
          else ((i, Update now (v_Source v) IsNew st), Some v))"

text \<open>The position of a reason in the list of failures, added when it is new.\<close>

definition failure_index :: "string \<Rightarrow> internal \<Rightarrow> internal \<times> nat" where
  "failure_index err i =
     (case failuresInverted i err of
        Some idx \<Rightarrow> (i, idx)
      | None \<Rightarrow>
          let idx = length (Failures i)
          in (i\<lparr>Failures := Failures i @ [err], failuresInverted := (failuresInverted i)(err \<mapsto> idx)\<rparr>, idx))"

text \<open>The counters of the re-verification, for its own verifications.\<close>

definition count_reverify :: "verify \<Rightarrow> internal \<Rightarrow> internal" where
  "count_reverify v i =
     (if v_Source v = Reverify
      then i\<lparr>ReverifyAttempts := ReverifyAttempts i + v_Attempt v, ReverifyCounter := ReverifyCounter i + 1\<rparr> else i)"

definition handleForget :: "(string \<Rightarrow> string) \<Rightarrow> time \<Rightarrow> failure \<Rightarrow> ledger \<Rightarrow> ledger" where
  "handleForget shrink now f = (\<lambda>(i, st).
     let v = f_v f;
         st = Update now (v_Source v) IsBlacklisted st;
         i = count_reverify v (i\<lparr>LastReverified := (LastReverified i)(v_Proxy v := None)\<rparr>);
         (i, idx) = failure_index (shrink (f_err f)) i
     in (i\<lparr>Blacklist := (Blacklist i)(v_Proxy v \<mapsto> idx)\<rparr>, st))"

definition handleTimeout :: "time \<Rightarrow> failure \<Rightarrow> ledger \<Rightarrow> ledger" where
  "handleTimeout now f = (\<lambda>(i, st).
     let v = f_v f
     in (i\<lparr>LastReverified := (LastReverified i)(v_Proxy v \<mapsto>
           \<lparr>rv_Proxy = v_Proxy v, rv_Attempt = v_Attempt v + 1, rv_After = unix (now + 30 * minute)\<rparr>)\<rparr>,
         Update now (v_Source v) IsTimeout st))"

definition handleFound :: "verify \<Rightarrow> internal \<Rightarrow> internal" where
  "handleFound v i =
     (let i = count_reverify v i
      in i\<lparr>LastReverified := (LastReverified i)(v_Proxy v := None), Seen := (Seen i)(v_Proxy v \<mapsto> True)\<rparr>)"

text \<open>
  The protocol is flipped between HTTP and HTTPS through the text of the address; the parser
  panics on an IPv6 address, which the text of a proxy never is.
\<close>

definition flip :: "(string \<Rightarrow> 8 word list option) \<Rightarrow> reVerify \<Rightarrow> reVerify" where
  "flip ip6 v =
     (let r = v;
          r = (if Proto (rv_Proxy v) = HTTP then v\<lparr>rv_Proxy := the (HttpsProxy ip6 (Address (rv_Proxy v)))\<rparr> else r);
          r = (if Proto (rv_Proxy v) = HTTPS then v\<lparr>rv_Proxy := the (HttpProxy ip6 (Address (rv_Proxy v)))\<rparr> else r)
      in r)"

text \<open>One turn of the iteration; a key that is gone by then is not produced.\<close>

definition reverify_one :: "(string \<Rightarrow> string) \<Rightarrow> (string \<Rightarrow> 8 word list option) \<Rightarrow> time \<Rightarrow> proxy
    \<Rightarrow> ledger \<times> reVerify list \<Rightarrow> ledger \<times> reVerify list" where
  "reverify_one shrink ip6 now k = (\<lambda>(l, batch).
     case LastReverified (fst l) k of
       None \<Rightarrow> (l, batch)
     | Some v \<Rightarrow>
         if rv_Attempt v > maxReverifies
         then (handleForget shrink now
                 \<lparr>f_v = \<lparr>v_Proxy = rv_Proxy v, v_Source = Reverify, v_Attempt = rv_Attempt v\<rparr>,
                  f_err = ''exceeded '' @ show_int maxReverifies @ '' reverifies''\<rparr> l, batch)
         else (l, batch @ [flip ip6 v]))"

text \<open>\<open>order\<close> is the order of the iteration. The second result is the batch a goroutine then schedules.\<close>

definition handleReverify :: "(string \<Rightarrow> string) \<Rightarrow> (string \<Rightarrow> 8 word list option) \<Rightarrow> time \<Rightarrow> proxy list
    \<Rightarrow> ledger \<Rightarrow> ledger \<times> reVerify list" where
  "handleReverify shrink ip6 now order l =
     (if IsRunning (snd l) Reverify then (l, [])
      else fold (reverify_one shrink ip6 now) order (l, []))"

text \<open>The verifications of a batch, and the updates its goroutine sends before, between and after them.\<close>

definition batch_verify :: "reVerify \<Rightarrow> verify" where
  "batch_verify rv = \<lparr>v_Proxy = rv_Proxy rv, v_Source = Reverify, v_Attempt = rv_Attempt rv\<rparr>"

datatype goroutine = Starting "reVerify list" | Sending "reVerify list"

fun batch_step :: "time \<Rightarrow> goroutine \<Rightarrow> stats \<Rightarrow> stats \<times> goroutine option \<times> verify option" where
  "batch_step now (Starting batch) st = (LaunchAnticipated now Reverify (int (length batch)) st, Some (Sending batch), None)"
| "batch_step now (Sending (rv # batch)) st = (Update now Reverify IsScheduled st, Some (Sending batch), Some (batch_verify rv))"
| "batch_step now (Sending []) st = (handleUpdate now Reverify (Finish None) st, None, None)"

text \<open>\<open>Schedule\<close> and \<open>Forget\<close>, the entrances of the other components; \<open>Forget\<close> also removes the proxy from the pool.\<close>

definition Schedule :: "time \<Rightarrow> proxy \<Rightarrow> int \<Rightarrow> stats \<Rightarrow> stats \<times> verify option" where
  "Schedule now proxy source st =
     (if proxy = 0 then (st, None)
      else (Update now source IsScheduled st, Some \<lparr>v_Proxy = proxy, v_Source = source, v_Attempt = 0\<rparr>))"

definition Forget :: "proxy \<Rightarrow> string \<Rightarrow> failure option" where
  "Forget proxy err =
     (if proxy = 0 then None
      else Some \<lparr>f_v = \<lparr>v_Proxy = proxy, v_Source = Reverify, v_Attempt = 0\<rparr>, f_err = err\<rparr>)"

definition evicted :: "proxy \<Rightarrow> failure" where
  "evicted proxy = \<lparr>f_v = \<lparr>v_Proxy = proxy, v_Source = 0, v_Attempt = 0\<rparr>, f_err = ''evicted''\<rparr>"

text \<open>\<open>strings.SplitN(id, ":", 3)\<close>; a missing part is an index out of range, \<open>None\<close>.\<close>

definition HttpDeletetByID :: "(string \<Rightarrow> 8 word list option) \<Rightarrow> string \<Rightarrow> failure option" where
  "HttpDeletetByID ip6 key =
     (case split3 CHR '':'' key of
        [scheme, host, port] \<Rightarrow>
          map_option (\<lambda>p. \<lparr>f_v = \<lparr>v_Proxy = p, v_Source = 0, v_Attempt = 0\<rparr>, f_err = ''manual remove''\<rparr>)
            (NewProxy ip6 (host @ '':'' @ port) scheme)
      | _ \<Rightarrow> None)"

section \<open>Workers\<close>

record check_error =
  ce_text :: string
  ce_temporary :: bool

definition matchError :: "string \<Rightarrow> string list \<Rightarrow> bool" where
  "matchError err needles \<longleftrightarrow> (\<exists>v \<in> set needles. str_contains err v)"

definition isHttpProxy :: "check_error option \<Rightarrow> bool" where
  "isHttpProxy err =
     (case err of
        None \<Rightarrow> False
      | Some e \<Rightarrow> matchError (ce_text e)
          [''server gave HTTP response to HTTPS client'', ''first record does not look like a TLS handshake'',
           ''unknown socks4 server response 84'', ''unexpected protocol version 72''])"

definition isTemporary :: "check_error option \<Rightarrow> bool" where
  "isTemporary err =
     (case err of
        None \<Rightarrow> False
      | Some e \<Rightarrow> matchError (ce_text e)
          [''Maximum number of open connections reached'', ''Too many open connections'', ''Too Many Requests'',
           ''Gateway Timeout'', ''too many open files'', ''context canceled'', ''error code: 1001'',
           ''network is unreachable''] \<or> ce_temporary e)"

datatype report = ToTimeout failure | ToForget failure | ToFound verify duration

text \<open>What a worker reports of a verification, given the checker's speed and error.\<close>

definition worker :: "bool \<Rightarrow> time \<Rightarrow> verify \<Rightarrow> duration \<Rightarrow> check_error option \<Rightarrow> stats \<Rightarrow> stats \<times> report list" where
  "worker enableHttpRescue now v speed err st =
     (let st = Update now (v_Source v) IsProbing st
      in case err of
           Some e \<Rightarrow>
             if enableHttpRescue \<and> isHttpProxy err
             then (st, [ToTimeout \<lparr>f_v = v\<lparr>v_Proxy := AsHttp (v_Proxy v)\<rparr>, f_err = ce_text e\<rparr>,
                        ToForget \<lparr>f_v = v, f_err = ''expected '' @ Scheme (v_Proxy v) @ '', got HTTP''\<rparr>])
             else if isTemporary err then (st, [ToTimeout \<lparr>f_v = v, f_err = ce_text e\<rparr>])
             else (st, [ToForget \<lparr>f_v = v, f_err = ce_text e\<rparr>])
         | None \<Rightarrow> (Update now (v_Source v) IsFound st, [ToFound v speed]))"

section \<open>Persistence\<close>

text \<open>\<open>hanldeSnapshot\<close> copies what is exported; the inverted index is rebuilt when it is read.\<close>

definition hanldeSnapshot :: "internal \<Rightarrow> internal" where
  "hanldeSnapshot i = i\<lparr>failuresInverted := Map.empty\<rparr>"

definition invert :: "string list \<Rightarrow> (string \<rightharpoonup> nat) \<Rightarrow> (string \<rightharpoonup> nat)" where
  "invert fs m = fold (\<lambda>(idx, err) m. m(err \<mapsto> idx)) (enumerate 0 fs) m"

definition MarshalBinary :: "(internal \<Rightarrow> 'b) \<Rightarrow> internal \<Rightarrow> 'b" where
  "MarshalBinary enc i = enc (hanldeSnapshot i)"

definition UnmarshalBinary :: "('b \<Rightarrow> string + internal) \<Rightarrow> 'b \<Rightarrow> string + internal" where
  "UnmarshalBinary dec data =
     (case dec data of
        Inl err \<Rightarrow> Inl err
      | Inr i \<Rightarrow> Inr (i\<lparr>failuresInverted := invert (Failures i) Map.empty\<rparr>))"

section \<open>Reports\<close>

text \<open>
  \<open>HttpGet\<close> of the probe. \<open>waiting\<close>, \<open>ips\<close> and \<open>sids\<close> are the orders of the iterations over \<open>LastReverified\<close>,
  \<open>SeenSources\<close> and the sources of a proxy; \<open>srcs\<close> are the ids and names of the registry. An index out of range
  is \<open>None\<close>.
\<close>

record report_stats =
  rs_Reverify :: nat
  rs_Blacklist :: nat
  rs_Seen :: nat
  AverageVerifyAttempt :: int
  rs_Attempts :: "int list"
  Contribution :: "string \<Rightarrow> int"
  Exclusive :: "string \<Rightarrow> int"
  Dirty :: "string \<Rightarrow> int"

fun count_attempts :: "reVerify list \<Rightarrow> int list \<Rightarrow> int list option" where
  "count_attempts [] xs = Some xs"
| "count_attempts (v # vs) xs =
     (let k = rv_Attempt v - 1
      in if 0 \<le> k \<and> k < int (length xs) then count_attempts vs (xs[nat k := xs ! nat k + 1]) else None)"

definition source_names :: "(int \<times> string) list \<Rightarrow> string list" where
  "source_names srcs =
     (let maxId = fold (\<lambda>(i, n) m. if i > m then i else m) srcs 0;
          names = (replicate (nat (maxId + 2)) [])[0 := ''reverify'']
      in fold (\<lambda>(i, n) names. names[nat i := n]) srcs names)"

definition bump :: "string \<Rightarrow> (string \<Rightarrow> int) \<Rightarrow> (string \<Rightarrow> int)" where
  "bump k m = m(k := m k + 1)"

fun named :: "string list \<Rightarrow> int list \<Rightarrow> string list option" where
  "named names [] = Some []"
| "named names (sid # sids) =
     (if 0 \<le> sid \<and> sid < int (length names)
      then map_option (\<lambda>ns. names ! nat sid # ns) (named names sids) else None)"

definition working :: "internal \<Rightarrow> proxy \<Rightarrow> bool" where
  "working i ip \<longleftrightarrow> Blacklist i ip = None \<and> LastReverified i ip = None"

fun contributions :: "internal \<Rightarrow> string list \<Rightarrow> (proxy \<times> int list) list
    \<Rightarrow> (string \<Rightarrow> int) \<times> (string \<Rightarrow> int) \<times> (string \<Rightarrow> int)
    \<Rightarrow> ((string \<Rightarrow> int) \<times> (string \<Rightarrow> int) \<times> (string \<Rightarrow> int)) option" where
  "contributions i names [] acc = Some acc"
| "contributions i names ((ip, sids) # ips) (contribution, exclusive, dirty) =
     (case named names sids of
        None \<Rightarrow> if working i ip \<or> length sids \<le> 1 then None else contributions i names ips (contribution, exclusive, dirty)
      | Some ns \<Rightarrow>
          let dirty = (if working i ip then fold bump ns dirty else dirty)
          in if length sids > 1 then contributions i names ips (contribution, exclusive, dirty)
             else contributions i names ips
               (fold bump ns contribution, (if working i ip then fold bump ns exclusive else exclusive), dirty))"

definition HttpGet :: "(int \<times> string) list \<Rightarrow> proxy list \<Rightarrow> proxy list \<Rightarrow> (proxy \<Rightarrow> int list) \<Rightarrow> nat \<times> nat \<times> nat
    \<Rightarrow> internal \<Rightarrow> report_stats option" where
  "HttpGet srcs waiting ips sids sizes i = do {
     attempts \<leftarrow> count_attempts (map (\<lambda>k. the (LastReverified i k)) waiting) (replicate (nat (maxReverifies + 1)) 0);
     (contribution, exclusive, dirty) \<leftarrow> contributions i (source_names srcs) (map (\<lambda>ip. (ip, sids ip)) ips)
       (\<lambda>_. 0, \<lambda>_. 0, \<lambda>_. 0);
     let (n_reverify, n_blacklist, n_seen) = sizes;
     Some \<lparr>rs_Reverify = n_reverify, rs_Blacklist = n_blacklist, rs_Seen = n_seen,
       AverageVerifyAttempt = (if ReverifyCounter i > 0 then ReverifyAttempts i sdiv ReverifyCounter i else 0),
       rs_Attempts = attempts, Contribution = contribution, Exclusive = exclusive, Dirty = dirty\<rparr>
   }"

text \<open>The rows of the two dashboards.\<close>

record blacklisted =
  b_Proxy :: proxy
  b_Country :: string
  b_Provider :: string
  b_ASN :: "16 word"
  b_Failure :: string
  b_Sources :: "string list"

record inReverify =
  r_Proxy :: proxy
  r_Attempt :: int
  r_After :: time
  r_Country :: string
  r_Provider :: string
  r_ASN :: "16 word"
  r_Failure :: string
  r_Sources :: "string list"

text \<open>
  The failure of a row is looked up by its index, which is out of range (\<open>None\<close>) unless the blacklist agrees with the list
  of failures.
\<close>

definition blacklist_row :: "(int \<Rightarrow> string) \<Rightarrow> databases option \<Rightarrow> (proxy \<Rightarrow> int list) \<Rightarrow> internal \<Rightarrow> proxy \<Rightarrow> blacklisted option" where
  "blacklist_row name dbs sids i p =
     (case Blacklist i p of
        None \<Rightarrow> None
      | Some idx \<Rightarrow>
          if idx < length (Failures i)
          then Some \<lparr>b_Proxy = p, b_Country = Country (ip_Get dbs p), b_Provider = Provider (ip_Get dbs p),
            b_ASN = ASN (ip_Get dbs p), b_Failure = Failures i ! idx, b_Sources = map name (sids p)\<rparr>
          else None)"

fun all_rows :: "('a \<Rightarrow> 'b option) \<Rightarrow> 'a list \<Rightarrow> 'b list option" where
  "all_rows f [] = Some []"
| "all_rows f (x # xs) =
     (case f x of None \<Rightarrow> None | Some y \<Rightarrow> map_option (\<lambda>ys. y # ys) (all_rows f xs))"

definition blacklist_snapshot :: "(int \<Rightarrow> string) \<Rightarrow> databases option \<Rightarrow> (proxy \<Rightarrow> int list) \<Rightarrow> proxy list \<Rightarrow> internal
    \<Rightarrow> blacklisted list option" where
  "blacklist_snapshot name dbs sids order i = all_rows (blacklist_row name dbs sids i) order"

definition reverify_snapshot :: "(int \<Rightarrow> string) \<Rightarrow> databases option \<Rightarrow> (proxy \<Rightarrow> int list) \<Rightarrow> proxy list \<Rightarrow> internal
    \<Rightarrow> inReverify list" where
  "reverify_snapshot name dbs sids order i =
     map (\<lambda>k. let v = the (LastReverified i k); info = ip_Get dbs (rv_Proxy v)
       in \<lparr>r_Proxy = rv_Proxy v, r_Attempt = rv_Attempt v, r_After = (rv_After v + epoch_seconds) * second,
           r_Country = Country info, r_Provider = Provider info, r_ASN = ASN info, r_Failure = [],
           r_Sources = map name (sids (rv_Proxy v))\<rparr>) order"

text \<open>The last part of the failure text, after the last colon and space.\<close>

definition getFailureFacet :: "blacklisted \<Rightarrow> string" where
  "getFailureFacet b = last (str_split '': '' (b_Failure b))"

section \<open>The invariant\<close>

text \<open>
  Every blacklisted proxy has its reason in the list of failures, the index from texts to
  positions is the inverse of that list, and every proxy that waits was checked one to six times.
\<close>

definition internal_ok :: "internal \<Rightarrow> bool" where
  "internal_ok i \<longleftrightarrow>
     (\<forall>p idx. Blacklist i p = Some idx \<longrightarrow> idx < length (Failures i)) \<and>
     (\<forall>err idx. failuresInverted i err = Some idx \<longleftrightarrow> idx < length (Failures i) \<and> Failures i ! idx = err) \<and>
     (\<forall>k v. LastReverified i k = Some v \<longrightarrow> rv_Proxy v = k \<and> 1 \<le> rv_Attempt v \<and> rv_Attempt v \<le> maxReverifies + 1)"

lemma internal_okD:
  assumes "internal_ok i"
  shows "Blacklist i p = Some idx \<Longrightarrow> idx < length (Failures i)"
    and "failuresInverted i err = Some idx \<longleftrightarrow> idx < length (Failures i) \<and> Failures i ! idx = err"
    and "LastReverified i k = Some v \<Longrightarrow> rv_Proxy v = k"
    and "LastReverified i k = Some v \<Longrightarrow> 1 \<le> rv_Attempt v \<and> rv_Attempt v \<le> maxReverifies + 1"
  using assms by (auto simp: internal_ok_def)

lemma newInternal_ok: "internal_ok newInternal"
  by (simp add: internal_ok_def newInternal_def)

lemma handleScheduled_ok: "internal_ok i \<Longrightarrow> internal_ok (fst (fst (handleScheduled now v (i, st))))"
  by (auto simp: handleScheduled_def note_source_def internal_ok_def Let_def)

lemma handleFound_ok: "internal_ok i \<Longrightarrow> internal_ok (handleFound v i)"
  by (auto simp: handleFound_def count_reverify_def internal_ok_def Let_def)

lemma handleTimeout_ok:
  "internal_ok i \<Longrightarrow> 0 \<le> v_Attempt (f_v f) \<Longrightarrow> v_Attempt (f_v f) \<le> maxReverifies \<Longrightarrow>
     internal_ok (fst (handleTimeout now f (i, st)))"
  by (auto simp: handleTimeout_def internal_ok_def Let_def)

lemma count_reverify_same [simp]:
  "LastReverified (count_reverify v i) = LastReverified i" "Blacklist (count_reverify v i) = Blacklist i"
  "Seen (count_reverify v i) = Seen i" "SeenSources (count_reverify v i) = SeenSources i"
  "Failures (count_reverify v i) = Failures i" "failuresInverted (count_reverify v i) = failuresInverted i"
  by (simp_all add: count_reverify_def)

lemma count_reverify_ok [simp]: "internal_ok (count_reverify v i) = internal_ok i"
  by (simp add: internal_ok_def)

lemma failure_index_same:
  assumes "failure_index err i = (i', idx)"
  shows "LastReverified i' = LastReverified i" "Blacklist i' = Blacklist i" "Seen i' = Seen i" "SeenSources i' = SeenSources i"
  using assms by (auto simp: failure_index_def Let_def split: option.splits)

lemma failure_index_ok:
  assumes "internal_ok i" and "failure_index err i = (i', idx)"
  shows "internal_ok i' \<and> idx < length (Failures i') \<and> Failures i' ! idx = err"
proof (cases "failuresInverted i err")
  case (Some idx)
  with assms internal_okD(2) [OF assms(1), of err] show ?thesis by (auto simp: failure_index_def)
next
  case None
  then have new: "err \<notin> set (Failures i)" using internal_okD(2) [OF assms(1), of err] by (auto simp: in_set_conv_nth)
  have i': "i' = i\<lparr>Failures := Failures i @ [err], failuresInverted := (failuresInverted i)(err \<mapsto> length (Failures i))\<rparr>"
    "idx = length (Failures i)"
    using assms(2) None by (auto simp: failure_index_def Let_def)
  have inv: "((failuresInverted i)(err \<mapsto> length (Failures i))) e = Some k \<longleftrightarrow>
      k < length (Failures i @ [err]) \<and> (Failures i @ [err]) ! k = e" for e k
    using new internal_okD(2) [OF assms(1), of e k] by (auto simp: nth_append less_Suc_eq in_set_conv_nth)
  have "Blacklist i p = Some k \<Longrightarrow> k < length (Failures i @ [err])" for p k
    using internal_okD(1) [OF assms(1), of p k] by simp
  then show ?thesis
    using inv internal_okD(3,4) [OF assms(1)] by (simp add: internal_ok_def i')
qed

lemma handleForget_fields:
  assumes "fst (handleForget shrink now f (i, st)) = i'"
  shows "LastReverified i' = (LastReverified i)(v_Proxy (f_v f) := None)"
    "\<exists>idx. Blacklist i' = (Blacklist i)(v_Proxy (f_v f) \<mapsto> idx)" "Seen i' = Seen i" "SeenSources i' = SeenSources i"
proof -
  define i0 where "i0 = count_reverify (f_v f) (i\<lparr>LastReverified := (LastReverified i)(v_Proxy (f_v f) := None)\<rparr>)"
  obtain i1 idx where f: "failure_index (shrink (f_err f)) i0 = (i1, idx)" by force
  have i': "i' = i1\<lparr>Blacklist := (Blacklist i1)(v_Proxy (f_v f) \<mapsto> idx)\<rparr>"
    using assms f by (simp add: handleForget_def Let_def i0_def)
  show "LastReverified i' = (LastReverified i)(v_Proxy (f_v f) := None)"
    "\<exists>idx. Blacklist i' = (Blacklist i)(v_Proxy (f_v f) \<mapsto> idx)" "Seen i' = Seen i" "SeenSources i' = SeenSources i"
    using failure_index_same [OF f] by (auto simp: i' i0_def)
qed

lemma handleForget_ok:
  assumes "internal_ok i"
  shows "internal_ok (fst (handleForget shrink now f (i, st)))"
proof -
  define i0 where "i0 = count_reverify (f_v f) (i\<lparr>LastReverified := (LastReverified i)(v_Proxy (f_v f) := None)\<rparr>)"
  obtain i1 idx where f: "failure_index (shrink (f_err f)) i0 = (i1, idx)" by force
  have "internal_ok i0" using assms by (auto simp: i0_def internal_ok_def)
  from failure_index_ok [OF this f] have "internal_ok (i1\<lparr>Blacklist := (Blacklist i1)(v_Proxy (f_v f) \<mapsto> idx)\<rparr>)"
    by (auto simp: internal_ok_def)
  then show ?thesis using f by (simp add: handleForget_def Let_def i0_def)
qed

section \<open>A round of re-verification\<close>

text \<open>Flipping is on the word what it is through the text.\<close>

lemma flip_eq:
  "flip ip6 v =
     (if Proto (rv_Proxy v) = HTTP then v\<lparr>rv_Proxy := AsHttps (rv_Proxy v)\<rparr>
      else if Proto (rv_Proxy v) = HTTPS then v\<lparr>rv_Proxy := AsHttp (rv_Proxy v)\<rparr> else v)"
  by (simp add: flip_def protos)

lemma flip_Attempt [simp]: "rv_Attempt (flip ip6 v) = rv_Attempt v"
  by (simp add: flip_eq)

definition attempts_ok :: "reVerify list \<Rightarrow> bool" where
  "attempts_ok batch \<longleftrightarrow> (\<forall>rv \<in> set batch. 0 \<le> rv_Attempt rv \<and> rv_Attempt rv \<le> maxReverifies)"

definition grows :: "internal \<Rightarrow> internal \<Rightarrow> bool" where
  "grows i i' \<longleftrightarrow> dom (Blacklist i) \<subseteq> dom (Blacklist i') \<and> dom (Seen i) \<subseteq> dom (Seen i')"

lemma grows_refl [simp]: "grows i i"
  by (simp add: grows_def)

lemma grows_trans: "grows i i' \<Longrightarrow> grows i' i'' \<Longrightarrow> grows i i''"
  by (force simp: grows_def)

lemma handleForget_grows: "grows i (fst (handleForget shrink now f (i, st)))"
  using handleForget_fields [OF refl, of shrink now f i st] by (auto simp: grows_def)

text \<open>One turn of the iteration keeps what the other keys have.\<close>

lemma reverify_one_ok:
  assumes "internal_ok (fst l)" and "attempts_ok batch" and "reverify_one shrink ip6 now k (l, batch) = (l', batch')"
  shows "internal_ok (fst l') \<and> attempts_ok batch' \<and> grows (fst l) (fst l') \<and>
    (\<forall>q. q \<noteq> k \<longrightarrow> LastReverified (fst l') q = LastReverified (fst l) q) \<and>
    (case LastReverified (fst l) k of
       None \<Rightarrow> batch' = batch \<and> l' = l
     | Some v \<Rightarrow> if rv_Attempt v > maxReverifies then batch' = batch \<and> LastReverified (fst l') k = None
         else batch' = batch @ [flip ip6 v] \<and> l' = l)"
proof (cases "LastReverified (fst l) k")
  case None
  with assms show ?thesis by (simp add: reverify_one_def)
next
  case (Some v)
  obtain i st where l: "l = (i, st)" by (cases l)
  have v: "rv_Proxy v = k" "1 \<le> rv_Attempt v"
    using internal_okD(3,4) [OF assms(1), of k v] Some by auto
  show ?thesis
  proof (cases "rv_Attempt v > maxReverifies")
    case True
    let ?f = "\<lparr>f_v = \<lparr>v_Proxy = rv_Proxy v, v_Source = Reverify, v_Attempt = rv_Attempt v\<rparr>,
                f_err = ''exceeded '' @ show_int maxReverifies @ '' reverifies''\<rparr>"
    have l': "l' = handleForget shrink now ?f l" "batch' = batch"
      using assms(3) Some True by (simp_all add: reverify_one_def)
    then show ?thesis
      using handleForget_ok [of i shrink now ?f st] handleForget_grows [of i shrink now ?f st] assms(1,2) Some True v
        handleForget_fields(1) [OF refl, of shrink now ?f i st] by (simp add: l)
  next
    case False
    with assms Some v show ?thesis by (auto simp: reverify_one_def attempts_ok_def)
  qed
qed

lemma reverify_scan_ok:
  assumes "internal_ok (fst l)" and "attempts_ok batch" and "fold (reverify_one shrink ip6 now) order (l, batch) = (l', batch')"
  shows "internal_ok (fst l') \<and> attempts_ok batch' \<and> grows (fst l) (fst l') \<and>
    (\<forall>q. q \<notin> set order \<longrightarrow> LastReverified (fst l') q = LastReverified (fst l) q)"
  using assms
proof (induction order arbitrary: l batch)
  case Nil
  then show ?case by simp
next
  case (Cons k order)
  obtain l1 b1 where one: "reverify_one shrink ip6 now k (l, batch) = (l1, b1)" by (meson surj_pair)
  note ok = reverify_one_ok [OF Cons.prems(1,2) one]
  have "fold (reverify_one shrink ip6 now) order (l1, b1) = (l', batch')" using Cons.prems(3) one by simp
  with Cons.IH [of l1 b1] ok show ?case by (auto intro: grows_trans)
qed

text \<open>What a whole round does with a proxy that has checks left.\<close>

lemma reverify_scan_keeps:
  assumes "internal_ok (fst l)" and "attempts_ok batch" and "distinct order"
    and "fold (reverify_one shrink ip6 now) order (l, batch) = (l', batch')"
    and "LastReverified (fst l) k = Some v" and "rv_Attempt v \<le> maxReverifies"
  shows "LastReverified (fst l') k = Some v \<and> (k \<in> set order \<or> flip ip6 v \<in> set batch \<longrightarrow> flip ip6 v \<in> set batch')"
  using assms
proof (induction order arbitrary: l batch)
  case Nil
  then show ?case by simp
next
  case (Cons q order)
  obtain l1 b1 where one: "reverify_one shrink ip6 now q (l, batch) = (l1, b1)" by (meson surj_pair)
  note ok = reverify_one_ok [OF Cons.prems(1,2) one]
  have rest: "fold (reverify_one shrink ip6 now) order (l1, b1) = (l', batch')" using Cons.prems(4) one by simp
  have "LastReverified (fst l1) k = Some v" and "k = q \<or> flip ip6 v \<in> set batch \<longrightarrow> flip ip6 v \<in> set b1"
    using ok Cons.prems(5,6) by (cases "k = q"; auto split: option.splits if_splits)+
  with Cons.IH [of l1 b1] ok rest Cons.prems(3,6) show ?case by auto
qed

section \<open>The probe and its workers\<close>

text \<open>
  The channels as multisets: verifications to be scheduled, those with the workers, the reports on their way
  back, and the goroutines of the batches. Other components update the statistics of their sources (\<open>elsewhere\<close>). A verification or failure from outside has no earlier attempt.
\<close>

record world =
  ledger :: ledger
  batches :: "goroutine multiset"
  scheduled :: "verify multiset"
  probing :: "verify multiset"
  reports :: "report multiset"

definition opt_mset :: "'a option \<Rightarrow> 'a multiset" where
  "opt_mset x = (case x of None \<Rightarrow> {#} | Some y \<Rightarrow> {#y#})"

inductive probe_step :: "(string \<Rightarrow> string) \<Rightarrow> (string \<Rightarrow> 8 word list option) \<Rightarrow> bool \<Rightarrow> world \<Rightarrow> world \<Rightarrow> bool"
  for shrink :: "string \<Rightarrow> string" and ip6 :: "string \<Rightarrow> 8 word list option" and rescue :: bool where
  schedule: "Schedule now p source (snd (ledger w)) = (st, v) \<Longrightarrow>
    probe_step shrink ip6 rescue w (w\<lparr>ledger := (fst (ledger w), st), scheduled := scheduled w + opt_mset v\<rparr>)"
| elsewhere: "source \<noteq> Reverify \<Longrightarrow>
    probe_step shrink ip6 rescue w (w\<lparr>ledger := (fst (ledger w), handleUpdate now source inc (snd (ledger w)))\<rparr>)"
| forget_outside: "v_Source (f_v f) = Reverify \<Longrightarrow> v_Attempt (f_v f) = 0 \<Longrightarrow>
    probe_step shrink ip6 rescue w (w\<lparr>reports := add_mset (ToForget f) (reports w)\<rparr>)"
| take: "v \<in># scheduled w \<Longrightarrow> handleScheduled now v (ledger w) = (l, out) \<Longrightarrow>
    probe_step shrink ip6 rescue w (w\<lparr>ledger := l, scheduled := scheduled w - {#v#}, probing := probing w + opt_mset out\<rparr>)"
| check: "v \<in># probing w \<Longrightarrow> worker rescue now v speed err (snd (ledger w)) = (st, reps) \<Longrightarrow>
    probe_step shrink ip6 rescue w (w\<lparr>ledger := (fst (ledger w), st), probing := probing w - {#v#},
      reports := reports w + mset reps\<rparr>)"
| timeout: "ToTimeout f \<in># reports w \<Longrightarrow>
    probe_step shrink ip6 rescue w (w\<lparr>ledger := handleTimeout now f (ledger w), reports := reports w - {#ToTimeout f#}\<rparr>)"
| forget: "ToForget f \<in># reports w \<Longrightarrow>
    probe_step shrink ip6 rescue w (w\<lparr>ledger := handleForget shrink now f (ledger w), reports := reports w - {#ToForget f#}\<rparr>)"
| found: "ToFound v speed \<in># reports w \<Longrightarrow>
    probe_step shrink ip6 rescue w (w\<lparr>ledger := (handleFound v (fst (ledger w)), snd (ledger w)),
      reports := reports w - {#ToFound v speed#}\<rparr>)"
| reverify: "distinct order \<Longrightarrow> set order = dom (LastReverified (fst (ledger w))) \<Longrightarrow>
    handleReverify shrink ip6 now order (ledger w) = (l, batch) \<Longrightarrow>
    probe_step shrink ip6 rescue w (w\<lparr>ledger := l,
      batches := batches w + (if batch = [] then {#} else {#Starting batch#})\<rparr>)"
| batch: "g \<in># batches w \<Longrightarrow> batch_step now g (snd (ledger w)) = (st, g', v) \<Longrightarrow>
    probe_step shrink ip6 rescue w (w\<lparr>ledger := (fst (ledger w), st), batches := batches w - {#g#} + opt_mset g',
      scheduled := scheduled w + opt_mset v\<rparr>)"

inductive probe_reaches :: "(string \<Rightarrow> string) \<Rightarrow> (string \<Rightarrow> 8 word list option) \<Rightarrow> bool \<Rightarrow> world \<Rightarrow> world \<Rightarrow> bool"
  for shrink :: "string \<Rightarrow> string" and ip6 :: "string \<Rightarrow> 8 word list option" and rescue :: bool and w :: world where
  here: "probe_reaches shrink ip6 rescue w w"
| further: "probe_reaches shrink ip6 rescue w w1 \<Longrightarrow> probe_step shrink ip6 rescue w1 w2 \<Longrightarrow> probe_reaches shrink ip6 rescue w w2"

definition start :: world where
  "start = \<lparr>ledger = (newInternal, Map.empty), batches = {#}, scheduled = {#}, probing = {#}, reports = {#}\<rparr>"

definition verify_ok :: "verify \<Rightarrow> bool" where
  "verify_ok v \<longleftrightarrow> 0 \<le> v_Attempt v \<and> v_Attempt v \<le> maxReverifies"

fun report_ok :: "report \<Rightarrow> bool" where
  "report_ok (ToTimeout f) = verify_ok (f_v f)"
| "report_ok (ToForget f) = True"
| "report_ok (ToFound v speed) = verify_ok v"

fun goroutine_ok :: "goroutine \<Rightarrow> bool" where
  "goroutine_ok (Starting batch) = attempts_ok batch"
| "goroutine_ok (Sending batch) = attempts_ok batch"

definition world_ok :: "world \<Rightarrow> bool" where
  "world_ok w \<longleftrightarrow> internal_ok (fst (ledger w)) \<and> (\<forall>v \<in># scheduled w + probing w. verify_ok v) \<and>
     (\<forall>r \<in># reports w. report_ok r) \<and> (\<forall>g \<in># batches w. goroutine_ok g)"

lemma handleScheduled_cases:
  assumes "handleScheduled now v (i, st) = ((i', st'), out)"
  shows "Blacklist i' = Blacklist i" "Seen i' = Seen i" "Failures i' = Failures i" "failuresInverted i' = failuresInverted i"
    "\<And>q. q \<noteq> v_Proxy v \<Longrightarrow> LastReverified i' q = LastReverified i q"
    "out = Some x \<Longrightarrow> x = v \<and> Blacklist i (v_Proxy v) = None \<and> Seen i (v_Proxy v) = None \<and> v_Proxy v \<noteq> 0"
  using assms by (auto simp: handleScheduled_def note_source_def Let_def split: if_splits)

lemma worker_reports_ok:
  "verify_ok v \<Longrightarrow> worker rescue now v speed err st = (st', reps) \<Longrightarrow> r \<in> set reps \<Longrightarrow> report_ok r"
  by (auto simp: worker_def verify_ok_def Let_def split: option.splits if_splits)

lemma batch_step_ok:
  "goroutine_ok g \<Longrightarrow> batch_step now g st = (st', g', v) \<Longrightarrow>
     (\<forall>x. g' = Some x \<longrightarrow> goroutine_ok x) \<and> (\<forall>x. v = Some x \<longrightarrow> verify_ok x)"
  by (cases "(now, g, st)" rule: batch_step.cases) (auto simp: attempts_ok_def verify_ok_def batch_verify_def)

lemma handleReverify_ok:
  assumes "internal_ok (fst l)" and "handleReverify shrink ip6 now order l = (l', batch)"
  shows "internal_ok (fst l') \<and> attempts_ok batch \<and> grows (fst l) (fst l')"
proof (cases "IsRunning (snd l) Reverify")
  case True
  with assms show ?thesis by (simp add: handleReverify_def attempts_ok_def)
next
  case False
  with assms(2) have "fold (reverify_one shrink ip6 now) order (l, []) = (l', batch)" by (simp add: handleReverify_def)
  from reverify_scan_ok [OF assms(1) _ this] show ?thesis by (simp add: attempts_ok_def)
qed

lemma probe_world_step:
  assumes "world_ok w" and "probe_step shrink ip6 rescue w w'"
  shows "world_ok w' \<and> grows (fst (ledger w)) (fst (ledger w'))"
  using assms(2)
proof cases
  case (schedule now p source st v)
  with assms(1) show ?thesis by (auto simp: world_ok_def Schedule_def opt_mset_def verify_ok_def maxReverifies_def split: if_splits)
next
  case (elsewhere source now inc)
  with assms(1) show ?thesis by (simp add: world_ok_def)
next
  case (forget_outside f)
  with assms(1) show ?thesis by (auto simp: world_ok_def)
next
  case (take v now l out)
  obtain i st i' st' where l: "ledger w = (i, st)" "l = (i', st')" by (cases "ledger w"; cases l) auto
  note c = handleScheduled_cases [of now v i st i' st' out]
  have h: "handleScheduled now v (i, st) = ((i', st'), out)" using take(3) by (simp add: l)
  have "internal_ok i'" using handleScheduled_ok [of i now v st] assms(1) h by (simp add: world_ok_def l)
  moreover have "\<forall>x \<in># opt_mset out. verify_ok x"
    using c(6) [OF h] take(2) assms(1) by (cases out) (auto simp: opt_mset_def world_ok_def)
  moreover have "grows i i'" using c(1,2) [OF h] by (simp add: grows_def)
  ultimately show ?thesis using assms(1) take(1) by (auto simp: world_ok_def l dest: in_diffD)
next
  case (check v now speed err st reps)
  then have "\<forall>r \<in> set reps. report_ok r" using worker_reports_ok assms(1) by (fastforce simp: world_ok_def)
  with check assms(1) show ?thesis by (auto simp: world_ok_def dest: in_diffD)
next
  case (timeout f now)
  then have "verify_ok (f_v f)" using assms(1) by (fastforce simp: world_ok_def)
  with timeout assms(1) handleTimeout_ok [of "fst (ledger w)" f now "snd (ledger w)"] show ?thesis
    by (auto simp: world_ok_def verify_ok_def dest: in_diffD) (auto simp: grows_def handleTimeout_def Let_def split: prod.splits)
next
  case (forget f now)
  with assms(1) handleForget_ok [of "fst (ledger w)" shrink now f "snd (ledger w)"]
    handleForget_grows [of "fst (ledger w)" shrink now f "snd (ledger w)"] show ?thesis
    by (auto simp: world_ok_def dest: in_diffD)
next
  case (found v speed)
  with assms(1) handleFound_ok [of "fst (ledger w)" v] show ?thesis
    by (auto simp: world_ok_def dest: in_diffD) (auto simp: grows_def handleFound_def)
next
  case (reverify order now l batch)
  with assms(1) handleReverify_ok [of "ledger w" shrink ip6 now order l batch] show ?thesis
    by (auto simp: world_ok_def)
next
  case (batch g now st g' v)
  then have "(\<forall>x. g' = Some x \<longrightarrow> goroutine_ok x) \<and> (\<forall>x. v = Some x \<longrightarrow> verify_ok x)"
    using batch_step_ok assms(1) by (fastforce simp: world_ok_def)
  with batch assms(1) show ?thesis by (auto simp: world_ok_def opt_mset_def split: option.splits dest: in_diffD)
qed

lemma probe_world_reaches:
  assumes "probe_reaches shrink ip6 rescue w w'" and "world_ok w"
  shows "world_ok w' \<and> grows (fst (ledger w)) (fst (ledger w'))"
  using assms
proof (induction rule: probe_reaches.induct)
  case here
  then show ?case by simp
next
  case (further w1 w2)
  then show ?case using probe_world_step [of w1] by (blast intro: grows_trans)
qed

lemma start_ok: "world_ok start"
  by (simp add: world_ok_def start_def newInternal_ok)

lemma count_attempts_ok:
  "\<forall>v \<in> set vs. 1 \<le> rv_Attempt v \<and> rv_Attempt v \<le> int (length xs) \<Longrightarrow> count_attempts vs xs \<noteq> None"
  by (induction vs xs rule: count_attempts.induct) (auto simp: Let_def)

lemma all_rows_ok: "(\<And>x. x \<in> set xs \<Longrightarrow> f x \<noteq> None) \<Longrightarrow> all_rows f xs \<noteq> None"
  by (induction xs) (auto split: option.splits)

definition probing_of :: "proxy \<Rightarrow> world \<Rightarrow> nat" where
  "probing_of p w = size (filter_mset (\<lambda>v. v_Proxy v = p) (probing w))"

lemma probing_of_take:
  assumes "handleScheduled now v l = (l', out)" and "Blacklist (fst l) p \<noteq> None \<or> Seen (fst l) p \<noteq> None"
  shows "filter_mset (\<lambda>v. v_Proxy v = p) (opt_mset out) = {#}"
proof -
  obtain i st i' st' where l: "l = (i, st)" "l' = (i', st')" by (cases l; cases l') auto
  show ?thesis
    using handleScheduled_cases(6) [of now v i st i' st' out] assms
    by (cases out) (auto simp: l opt_mset_def)
qed

lemma probing_of_step:
  assumes "probe_step shrink ip6 rescue w w'"
    and "Blacklist (fst (ledger w)) p \<noteq> None \<or> Seen (fst (ledger w)) p \<noteq> None"
  shows "probing_of p w' \<le> probing_of p w"
  using assms(1)
proof cases
  case (take v now l out)
  then show ?thesis
    using probing_of_take [of now v "ledger w" l out p] assms(2) by (simp add: probing_of_def)
next
  case (check v now speed err st reps)
  then show ?thesis by (simp add: probing_of_def size_mset_mono multiset_filter_mono diff_subset_eq_self)
qed (simp_all add: probing_of_def)

section \<open>Properties\<close>

text \<open>
  C3. A proxy that was blacklisted, or found, is never given to the workers again, and stays so: from such
  a state on, whatever happens, the number of its verifications with the workers only goes down.
\<close>

theorem settled_never_probed_again:
  assumes "probe_reaches shrink ip6 rescue start w" and "probe_reaches shrink ip6 rescue w w'"
    and "Blacklist (fst (ledger w)) p \<noteq> None \<or> Seen (fst (ledger w)) p \<noteq> None"
  shows "(Blacklist (fst (ledger w')) p \<noteq> None \<or> Seen (fst (ledger w')) p \<noteq> None) \<and>
    size (filter_mset (\<lambda>v. v_Proxy v = p) (probing w')) \<le> size (filter_mset (\<lambda>v. v_Proxy v = p) (probing w))"
proof -
  have ok: "world_ok w" using probe_world_reaches [OF assms(1) start_ok] by blast
  have "(Blacklist (fst (ledger w')) p \<noteq> None \<or> Seen (fst (ledger w')) p \<noteq> None) \<and>
      probing_of p w' \<le> probing_of p w"
    using assms(2,3)
  proof (induction rule: probe_reaches.induct)
    case here
    then show ?case by simp
  next
    case (further w1 w2)
    then have settled: "Blacklist (fst (ledger w1)) p \<noteq> None \<or> Seen (fst (ledger w1)) p \<noteq> None"
      and le: "probing_of p w1 \<le> probing_of p w" by blast+
    have "world_ok w1" using probe_world_reaches [OF further.hyps(1) ok] by blast
    then have g: "grows (fst (ledger w1)) (fst (ledger w2))" using probe_world_step further.hyps(2) by blast
    have "Blacklist (fst (ledger w2)) p \<noteq> None \<or> Seen (fst (ledger w2)) p \<noteq> None"
      using g settled unfolding grows_def by blast
    moreover have "probing_of p w2 \<le> probing_of p w"
      using probing_of_step [OF further.hyps(2) settled] le by linarith
    ultimately show ?case by blast
  qed
  then show ?thesis by (simp add: probing_of_def)
qed

text \<open>
  C36. In every state the probe can reach, each blacklisted proxy has a reason in the list of failures, the
  reasons are distinct, no proxy waits after more than six checks, and the pages made of them (the list of
  the blacklist, the histogram of attempts) do not read out of range.
\<close>

theorem probe_ledger_consistent:
  assumes "probe_reaches shrink ip6 rescue start w"
  shows "(\<forall>p idx. Blacklist (fst (ledger w)) p = Some idx \<longrightarrow> idx < length (Failures (fst (ledger w)))) \<and>
    distinct (Failures (fst (ledger w))) \<and>
    (set waiting \<subseteq> dom (LastReverified (fst (ledger w))) \<longrightarrow>
      count_attempts (map (\<lambda>k. the (LastReverified (fst (ledger w)) k)) waiting) (replicate (nat (maxReverifies + 1)) 0) \<noteq> None) \<and>
    (set order \<subseteq> dom (Blacklist (fst (ledger w))) \<longrightarrow>
      blacklist_snapshot name dbs sids order (fst (ledger w)) \<noteq> None)"
proof -
  let ?i = "fst (ledger w)"
  have ok: "internal_ok ?i" using probe_world_reaches [OF assms start_ok] by (simp add: world_ok_def)
  have "distinct (Failures ?i)"
    unfolding distinct_conv_nth
  proof (intro allI impI)
    fix a b assume ab: "a < length (Failures ?i)" "b < length (Failures ?i)" "a \<noteq> b"
    then have "failuresInverted ?i (Failures ?i ! a) = Some a" and "failuresInverted ?i (Failures ?i ! b) = Some b"
      using internal_okD(2) [OF ok] by auto
    with ab show "Failures ?i ! a \<noteq> Failures ?i ! b" by auto
  qed
  moreover have "count_attempts (map (\<lambda>k. the (LastReverified ?i k)) waiting) (replicate (nat (maxReverifies + 1)) 0) \<noteq> None"
    if "set waiting \<subseteq> dom (LastReverified ?i)"
    using that internal_okD(4) [OF ok] by (intro count_attempts_ok) (fastforce simp: maxReverifies_def)
  moreover have "blacklist_snapshot name dbs sids order ?i \<noteq> None" if "set order \<subseteq> dom (Blacklist ?i)"
    unfolding blacklist_snapshot_def
    using that internal_okD(1) [OF ok] by (intro all_rows_ok) (force simp: blacklist_row_def)
  ultimately show ?thesis using internal_okD(1) [OF ok] by blast
qed

definition refused :: failure where
  "refused = \<lparr>f_v = \<lparr>v_Proxy = 0x0506070800500000, v_Source = 0, v_Attempt = 0\<rparr>, f_err = ''refused''\<rparr>"

definition after_refused :: world where
  "after_refused = start\<lparr>ledger := handleForget (\<lambda>s. s) minute refused (newInternal, Map.empty)\<rparr>"

lemma after_refused: "probe_reaches shrink ip6 rescue start start"
    "probe_reaches (\<lambda>s. s) ip6 rescue start after_refused"
    "Blacklist (fst (ledger after_refused)) 0x0506070800500000 = Some 0"
proof -
  show here: "probe_reaches shrink ip6 rescue start start" for shrink by (rule probe_reaches.here)
  let ?w = "start\<lparr>reports := add_mset (ToForget refused) (reports start)\<rparr>"
  have one: "probe_step (\<lambda>s. s) ip6 rescue start ?w"
    by (rule probe_step.forget_outside) (simp_all add: refused_def Reverify_def)
  have "probe_step (\<lambda>s. s) ip6 rescue ?w (?w\<lparr>ledger := handleForget (\<lambda>s. s) minute refused (ledger ?w),
      reports := reports ?w - {#ToForget refused#}\<rparr>)"
    by (rule probe_step.forget) simp
  then have "probe_step (\<lambda>s. s) ip6 rescue ?w after_refused" by (simp add: after_refused_def start_def)
  with one show "probe_reaches (\<lambda>s. s) ip6 rescue start after_refused"
    by (blast intro: probe_reaches.intros)
  show "Blacklist (fst (ledger after_refused)) 0x0506070800500000 = Some 0"
    by (simp add: after_refused_def handleForget_def refused_def failure_index_def newInternal_def Let_def)
qed

theorem settled_never_probed_again_witness:
  "Blacklist (fst (ledger after_refused)) 0x0506070800500000 \<noteq> None \<and>
    size (filter_mset (\<lambda>v. v_Proxy v = 0x0506070800500000) (probing after_refused)) \<le> 0"
  using settled_never_probed_again [OF after_refused(2) [of "\<lambda>_. None" True] probe_reaches.here, where p = "0x0506070800500000"] after_refused(3)
  by (simp add: after_refused_def start_def)

theorem probe_ledger_consistent_witness:
  "blacklist_snapshot (\<lambda>_. []) None (\<lambda>_. []) [0x0506070800500000] (fst (ledger after_refused)) \<noteq> None"
  using probe_ledger_consistent [OF after_refused(2) [of "\<lambda>_. None" True], where waiting = "[]" and order = "[0x0506070800500000]"
      and name = "\<lambda>_. []" and dbs = None and sids = "\<lambda>_. []"]
    after_refused(3) by auto

section \<open>The re-verification that never ends\<close>

text \<open>
  The record of the re-verification exists, runs, and no batch of it is under way: what any report of
  source 0 leaves when there was no record.
\<close>

definition blocked :: "world \<Rightarrow> bool" where
  "blocked w \<longleftrightarrow> batches w = {#} \<and>
     (\<exists>s. snd (ledger w) Reverify = Some s \<and> State s = Running \<and> \<not> finished s)"

lemma handleUpdate_blocked:
  assumes "ss Reverify = Some s" and "State s = Running" and "\<not> finished s"
    and "source \<noteq> Reverify \<or> \<not> is_launch inc \<and> \<not> is_finish inc"
  shows "\<exists>s'. handleUpdate now source inc ss Reverify = Some s' \<and> State s' = Running \<and> \<not> finished s'"
proof (cases "source = Reverify")
  case True
  then have "\<not> finished (increment_stat inc s)" "State (increment_stat inc s) = Running"
    using assms(2-4) by (cases inc; simp)+
  with True assms(1) show ?thesis by (simp add: handleUpdate_here settle_def)
next
  case False
  with assms show ?thesis by simp
qed

lemma Update_blocked:
  "ss Reverify = Some s \<Longrightarrow> State s = Running \<Longrightarrow> \<not> finished s \<Longrightarrow> \<not> is_launch inc \<Longrightarrow> \<not> is_finish inc \<Longrightarrow>
     \<exists>s'. Update now source inc ss Reverify = Some s' \<and> State s' = Running \<and> \<not> finished s'"
  unfolding Update_def by (rule handleUpdate_blocked) auto

definition stays :: "stats \<Rightarrow> bool" where
  "stays ss \<longleftrightarrow> (\<exists>s. ss Reverify = Some s \<and> State s = Running \<and> \<not> finished s)"

lemma stays_Update: "stays ss \<Longrightarrow> \<not> is_launch inc \<Longrightarrow> \<not> is_finish inc \<Longrightarrow> stays (Update now source inc ss)"
  using Update_blocked [of ss] unfolding stays_def by blast

lemma stays_handlers:
  assumes "stays st"
  shows "stays (snd (fst (handleScheduled now v (i, st))))" "stays (snd (handleForget shrink now f (i, st)))"
    "stays (snd (handleTimeout now f (i, st)))" "stays (fst (worker rescue now v speed err st))"
    "stays (fst (Schedule now p source st))"
  using assms stays_Update [OF assms] stays_Update [OF stays_Update [OF assms]]
  by (auto simp: handleScheduled_def handleForget_def handleTimeout_def worker_def Schedule_def Let_def
      split: prod.splits option.splits)

lemma stays_reverify: "stays (snd l) \<Longrightarrow> handleReverify shrink ip6 now order l = (l, [])"
  by (auto simp: stays_def handleReverify_def IsRunning_def)

lemma blocked_iff: "blocked w \<longleftrightarrow> batches w = {#} \<and> stays (snd (ledger w))"
  by (simp add: blocked_def stays_def)

lemma blocked_step:
  assumes "probe_step shrink ip6 rescue w w'" and "blocked w"
  shows "blocked w'"
  using assms(1)
proof cases
  case (schedule now p source st v)
  then show ?thesis using assms(2) stays_handlers(5) [of "snd (ledger w)" now p source] by (simp add: blocked_iff)
next
  case (elsewhere source now inc)
  then show ?thesis using assms(2) by (simp add: blocked_iff stays_def)
next
  case (forget_outside f)
  then show ?thesis using assms(2) by (simp add: blocked_iff)
next
  case (take v now l out)
  then show ?thesis
    using assms(2) stays_handlers(1) [of "snd (ledger w)" now v "fst (ledger w)"] by (simp add: blocked_iff)
next
  case (check v now speed err st reps)
  then show ?thesis
    using assms(2) stays_handlers(4) [of "snd (ledger w)" rescue now v speed err] by (simp add: blocked_iff)
next
  case (timeout f now)
  then show ?thesis
    using assms(2) stays_handlers(3) [of "snd (ledger w)" now f "fst (ledger w)"] by (simp add: blocked_iff)
next
  case (forget f now)
  then show ?thesis
    using assms(2) stays_handlers(2) [of "snd (ledger w)" shrink now f "fst (ledger w)"] by (simp add: blocked_iff)
next
  case (found v speed)
  then show ?thesis using assms(2) by (simp add: blocked_iff)
next
  case (reverify order now l batch)
  then show ?thesis using assms(2) stays_reverify [of "ledger w" shrink ip6 now order] by (simp add: blocked_iff)
next
  case (batch g now st g' v)
  then show ?thesis using assms(2) by (simp add: blocked_iff)
qed

lemma invert_snoc: "invert (fs @ [f]) m = (invert fs m)(f \<mapsto> length fs)"
  by (simp add: invert_def enumerate_append_eq)

lemma invert_iff:
  "distinct fs \<Longrightarrow> invert fs Map.empty err = Some idx \<longleftrightarrow> idx < length fs \<and> fs ! idx = err"
proof (induction fs rule: rev_induct)
  case Nil
  show ?case by (simp add: invert_def)
next
  case (snoc f fs)
  then show ?case by (auto simp: invert_snoc nth_append less_Suc_eq in_set_conv_nth)
qed

lemma internal_ok_distinct: "internal_ok i \<Longrightarrow> distinct (Failures i)"
  unfolding distinct_conv_nth using internal_okD(2) [of i] by (metis option.inject)

text \<open>
  The first report of source 0 that comes before a batch of re-verification was launched (an eviction from the
  pool, a manual removal, or a removal by a source) creates a record that is running: no re-verification
  starts from then on, since only a re-verification would launch or finish that record.
\<close>

theorem report_blocks_reverify:
  assumes "batches w = {#}" and "snd (ledger w) Reverify = None" and "ToForget f \<in># reports w"
    and "v_Source (f_v f) = Reverify"
    and "w1 = w\<lparr>ledger := handleForget shrink now f (ledger w), reports := reports w - {#ToForget f#}\<rparr>"
    and "probe_reaches shrink ip6 rescue w1 w2"
  shows "probe_step shrink ip6 rescue w w1 \<and>
    handleReverify shrink ip6 later order (ledger w2) = (ledger w2, []) \<and> batches w2 = {#}"
proof -
  have step: "probe_step shrink ip6 rescue w w1" unfolding assms(5) by (rule probe_step.forget [OF assms(3)])
  have "snd (handleForget shrink now f (ledger w)) = Update now Reverify IsBlacklisted (snd (ledger w))"
    using assms(4) by (cases "ledger w") (simp add: handleForget_def Let_def split: prod.split)
  then have "blocked w1"
    using assms(1,2) by (simp add: assms(5) blocked_def Update_def handleUpdate_here new_stat_def settle_running
        cap_progress_def refresh_progress_def)
  moreover have "blocked w2"
    using assms(6) by (induction rule: probe_reaches.induct) (use \<open>blocked w1\<close> blocked_step in auto)
  ultimately show ?thesis using step stays_reverify [of "ledger w2"] by (simp add: blocked_iff)
qed

theorem report_blocks_reverify_witness:
  "\<exists>w. probe_reaches (\<lambda>s. s) (\<lambda>_. None) True start w \<and>
    handleReverify (\<lambda>s. s) (\<lambda>_. None) hour [] (ledger w) = (ledger w, [])"
proof -
  let ?w = "start\<lparr>reports := {#ToForget refused#}\<rparr>"
  let ?w1 = "?w\<lparr>ledger := handleForget (\<lambda>s. s) minute refused (ledger ?w), reports := reports ?w - {#ToForget refused#}\<rparr>"
  have s: "probe_step (\<lambda>s. s) (\<lambda>_. None) True start ?w"
    using probe_step.forget_outside [of refused "\<lambda>s. s" "\<lambda>_. None" True start]
    by (simp add: refused_def Reverify_def start_def)
  have "batches ?w = {#}" "snd (ledger ?w) Reverify = None" "ToForget refused \<in># reports ?w" "v_Source (f_v refused) = Reverify"
    by (simp_all add: start_def refused_def Reverify_def)
  from report_blocks_reverify [where shrink = "\<lambda>s. s" and now = minute and ?ip6.0 = "\<lambda>_. None" and rescue = True
      and later = hour and order = "[]", OF this refl probe_reaches.here]
  have "probe_step (\<lambda>s. s) (\<lambda>_. None) True ?w ?w1"
    and "handleReverify (\<lambda>s. s) (\<lambda>_. None) hour [] (ledger ?w1) = (ledger ?w1, [])" by auto
  with s show ?thesis by (blast intro: probe_reaches.intros)
qed

text \<open>
  A re-verification checks an HTTP proxy as HTTPS, and the outcome is booked on the HTTPS one: the
  HTTP proxy keeps waiting with the attempts it had, and once its twin was found every later round sends
  the twin again, only to ignore it.
\<close>

theorem reverify_flips_forever:
  assumes "internal_ok (fst l)" and "\<not> IsRunning (snd l) Reverify" and "distinct order" and "p \<in> set order"
    and "LastReverified (fst l) p = Some v" and "rv_Attempt v \<le> maxReverifies" and "Proto p = HTTP"
    and "handleReverify shrink ip6 now order l = (l1, batch)"
    and "twin = \<lparr>v_Proxy = AsHttps p, v_Source = Reverify, v_Attempt = rv_Attempt v\<rparr>"
  shows "twin \<in> batch_verify ` set batch \<and> LastReverified (fst l1) p = Some v \<and>
    LastReverified (handleFound twin (fst l1)) p = Some v \<and>
    (\<exists>l2. handleScheduled later twin (handleFound twin (fst l1), st) = (l2, None) \<and> LastReverified (fst l2) p = Some v)"
proof -
  have v: "rv_Proxy v = p" by (rule internal_okD(3) [OF assms(1,5)])
  have "Proto (AsHttps p) = HTTPS" and "HTTP \<noteq> HTTPS" by (simp_all add: protos)
  then have ne: "AsHttps p \<noteq> p" using assms(7) by metis
  have "fold (reverify_one shrink ip6 now) order (l, []) = (l1, batch)"
    using assms(2,8) by (simp add: handleReverify_def)
  from reverify_scan_keeps [OF assms(1) _ assms(3) this assms(5,6)] assms(4)
  have keep: "LastReverified (fst l1) p = Some v" "flip ip6 v \<in> set batch" by (auto simp: attempts_ok_def)
  have "batch_verify (flip ip6 v) = twin" by (simp add: batch_verify_def flip_eq v assms(7,9))
  then have "twin \<in> batch_verify ` set batch" using keep(2) by (metis imageI)
  moreover have found: "LastReverified (handleFound twin (fst l1)) p = Some v" "Seen (handleFound twin (fst l1)) (AsHttps p) = Some True"
    using keep(1) ne by (simp_all add: handleFound_def assms(9))
  moreover have "\<exists>l2. handleScheduled later twin (handleFound twin (fst l1), st) = (l2, None) \<and> LastReverified (fst l2) p = Some v"
    using found ne by (auto simp: handleScheduled_def note_source_def assms(9) Let_def)
  ultimately show ?thesis using keep(1) by blast
qed


definition waiting_once :: ledger where
  "waiting_once = handleTimeout minute \<lparr>f_v = \<lparr>v_Proxy = 0x0506070800500000, v_Source = 3, v_Attempt = 0\<rparr>, f_err = ''late''\<rparr>
     (newInternal, Map.empty)"

theorem reverify_flips_forever_witness:
  "\<exists>l1 batch. handleReverify (\<lambda>s. s) (\<lambda>_. None) minute [0x0506070800500000] waiting_once = (l1, batch) \<and>
    LastReverified (handleFound \<lparr>v_Proxy = 0x0506070800500001, v_Source = 0, v_Attempt = 1\<rparr> (fst l1)) 0x0506070800500000 \<noteq> None"
proof -
  obtain l1 batch where r: "handleReverify (\<lambda>s. s) (\<lambda>_. None) minute [0x0506070800500000] waiting_once = (l1, batch)"
    by (meson surj_pair)
  define v where "v = \<lparr>rv_Proxy = 0x0506070800500000, rv_Attempt = 1, rv_After = unix (minute + 30 * minute)\<rparr>"
  have w: "LastReverified (fst waiting_once) 0x0506070800500000 = Some v" "IsRunning (snd waiting_once) Reverify = False"
    by (simp_all add: waiting_once_def handleTimeout_def v_def Reverify_def IsRunning_def Update_def)
  have ok: "internal_ok (fst waiting_once)"
    unfolding waiting_once_def by (rule handleTimeout_ok [OF newInternal_ok]) (simp_all add: maxReverifies_def)
  have p: "Proto 0x0506070800500000 = HTTP" "AsHttps 0x0506070800500000 = 0x0506070800500001" by code_simp+
  have "rv_Attempt v \<le> maxReverifies" by (simp add: v_def maxReverifies_def)
  from reverify_flips_forever [OF ok _ _ _ w(1) this p(1) r refl] w(2) p(2) r show ?thesis
    by (auto simp: v_def Reverify_def)
qed

text \<open>
  Saving the state and reading it back gives the state again, the index of the reasons rebuilt.
\<close>

theorem probe_restart:
  assumes "probe_reaches shrink ip6 rescue start w" and "\<And>i. dec (enc i) = Inr i"
  shows "UnmarshalBinary dec (MarshalBinary enc (fst (ledger w))) = Inr (fst (ledger w))"
proof -
  let ?i = "fst (ledger w)"
  have ok: "internal_ok ?i" using probe_world_reaches [OF assms(1) start_ok] by (simp add: world_ok_def)
  have "invert (Failures ?i) Map.empty = failuresInverted ?i"
  proof
    fix err
    have "invert (Failures ?i) Map.empty err = Some idx \<longleftrightarrow> failuresInverted ?i err = Some idx" for idx
      using invert_iff [OF internal_ok_distinct [OF ok]] internal_okD(2) [OF ok] by simp
    then show "invert (Failures ?i) Map.empty err = failuresInverted ?i err"
      by (metis not_Some_eq)
  qed
  then show ?thesis by (simp add: UnmarshalBinary_def MarshalBinary_def assms(2) hanldeSnapshot_def)
qed

theorem probe_restart_witness:
  "UnmarshalBinary Inr (MarshalBinary (\<lambda>i. i) (fst (ledger after_refused))) = Inr (fst (ledger after_refused))"
  using probe_restart [OF after_refused(2), of Inr "\<lambda>i. i"] by simp

end
