(* ===== verification/Ast.thy ===== *)
theory Ast
  imports Floats
begin

text \<open>
  The packages \<open>ql/ast\<close> and \<open>ql/eval/nodes.go\<close>: the nodes of a query, before and after it was compiled, as one
  datatype (Go's interface \<open>Node\<close>, with \<open>Nil\<close> for a nil of it), and their \<open>Transform\<close>. A callback has a
  state, and can panic: \<open>None\<close>, which is also what a method call on nil gives.
\<close>

record orderBy =
  ob_Ident :: string
  ob_Asc :: bool

datatype node =
    Nil
  | Query node "orderBy list" int
  | BoolNode bool
  | Ident string
  | Str string
  | Number gofloat
  | Dur duration
  | And node node
  | Or node node
  | Not node
  | Equals node node
  | Contains node node
  | LessThan node node
  | GreaterThan node node
  | BooleanGetter string "nat \<Rightarrow> bool"
  | NumberGetter string "nat \<Rightarrow> gofloat"
  | StringGetter string "nat \<Rightarrow> string"
  | EqualNumber node node
  | LessThanNumber node node
  | GreaterThanNumber node node
  | EqualString node node
  | LessThanString node node
  | GreaterThanString node node
  | Invalid string node

section \<open>Transform\<close>

type_synonym 's callback = "node \<Rightarrow> 's \<Rightarrow> (node \<times> 's) option"

text \<open>A child is transformed, and the callback is called on the result once more.\<close>

definition child :: "'s callback \<Rightarrow> ('s \<Rightarrow> (node \<times> 's) option) \<Rightarrow> 's \<Rightarrow> (node \<times> 's) option" where
  "child cb m s = (case m s of None \<Rightarrow> None | Some (n, s) \<Rightarrow> cb n s)"

definition two :: "'s callback \<Rightarrow> (node \<Rightarrow> node \<Rightarrow> node) \<Rightarrow> ('s \<Rightarrow> (node \<times> 's) option) \<Rightarrow> ('s \<Rightarrow> (node \<times> 's) option)
    \<Rightarrow> 's \<Rightarrow> (node \<times> 's) option" where
  "two cb con ml mr s =
     (case child cb ml s of
        None \<Rightarrow> None
      | Some (l, s) \<Rightarrow> (case child cb mr s of None \<Rightarrow> None | Some (r, s) \<Rightarrow> cb (con l r) s))"

primrec Transform :: "'s callback \<Rightarrow> node \<Rightarrow> 's \<Rightarrow> (node \<times> 's) option" where
  "Transform cb Nil = (\<lambda>s. None)"
| "Transform cb (Query f ord limit) =
     (\<lambda>s. case child cb (Transform cb f) s of None \<Rightarrow> None | Some (f, s) \<Rightarrow> cb (Query f ord limit) s)"
| "Transform cb (BoolNode b) = cb (BoolNode b)"
| "Transform cb (Ident i) = cb (Ident i)"
| "Transform cb (Str x) = cb (Str x)"
| "Transform cb (Number x) = cb (Number x)"
| "Transform cb (Dur d) = cb (Dur d)"
| "Transform cb (And l r) = two cb And (Transform cb l) (Transform cb r)"
| "Transform cb (Or l r) = two cb Or (Transform cb l) (Transform cb r)"
| "Transform cb (Not l) =
     (\<lambda>s. case child cb (Transform cb l) s of None \<Rightarrow> None | Some (l, s) \<Rightarrow> cb (Not l) s)"
| "Transform cb (Equals l r) = two cb Equals (Transform cb l) (Transform cb r)"
| "Transform cb (Contains l r) = two cb Contains (Transform cb l) (Transform cb r)"
| "Transform cb (LessThan l r) = two cb LessThan (Transform cb l) (Transform cb r)"
| "Transform cb (GreaterThan l r) = two cb GreaterThan (Transform cb l) (Transform cb r)"
| "Transform cb (BooleanGetter n f) = cb (BooleanGetter n f)"
| "Transform cb (NumberGetter n f) = cb (NumberGetter n f)"
| "Transform cb (StringGetter n f) = cb (StringGetter n f)"
| "Transform cb (EqualNumber l r) = two cb EqualNumber (Transform cb l) (Transform cb r)"
| "Transform cb (LessThanNumber l r) = two cb LessThanNumber (Transform cb l) (Transform cb r)"
| "Transform cb (GreaterThanNumber l r) = two cb GreaterThanNumber (Transform cb l) (Transform cb r)"
| "Transform cb (EqualString l r) = two cb EqualString (Transform cb l) (Transform cb r)"
| "Transform cb (LessThanString l r) = two cb LessThanString (Transform cb l) (Transform cb r)"
| "Transform cb (GreaterThanString l r) = two cb GreaterThanString (Transform cb l) (Transform cb r)"
| "Transform cb (Invalid m n) = cb (Invalid m n)"

text \<open>A callback without a state.\<close>

definition pure :: "(node \<Rightarrow> node option) \<Rightarrow> unit callback" where
  "pure f n s = map_option (\<lambda>n. (n, ())) (f n)"

definition transform :: "(node \<Rightarrow> node option) \<Rightarrow> node \<Rightarrow> node option" where
  "transform f n = map_option fst (Transform (pure f) n ())"

section \<open>Texts\<close>

text \<open>
  The \<open>String\<close> methods, as \<open>%s\<close> prints a node: a struct without one is printed field by field, and a
  duration, which is an integer without one, as a bad verb. \<open>float\<close> prints a number.
\<close>

primrec show_node :: "(gofloat \<Rightarrow> string) \<Rightarrow> node \<Rightarrow> string" where
  "show_node float Nil = ''%!s(<nil>)''"
| "show_node float (Query f ord limit) = ''{'' @ show_node float f @ ''}''"
| "show_node float (BoolNode b) = (if b then ''true'' else ''false'')"
| "show_node float (Ident i) = i"
| "show_node float (Str x) = ''\"'' @ x @ ''\"''"
| "show_node float (Number x) = float x"
| "show_node float (Dur d) = ''%!s(ast.Duration='' @ show_int d @ '')''"
| "show_node float (And l r) = ''('' @ show_node float l @ '' AND '' @ show_node float r @ '')''"
| "show_node float (Or l r) = ''('' @ show_node float l @ '' OR '' @ show_node float r @ '')''"
| "show_node float (Not l) = ''NOT '' @ show_node float l"
| "show_node float (Equals l r) = show_node float l @ '' = '' @ show_node float r"
| "show_node float (Contains l r) = show_node float l @ '' ~ '' @ show_node float r"
| "show_node float (LessThan l r) = show_node float l @ '' < '' @ show_node float r"
| "show_node float (GreaterThan l r) = show_node float l @ '' > '' @ show_node float r"
| "show_node float (BooleanGetter n f) = n @ ''@bool''"
| "show_node float (NumberGetter n f) = n @ ''@number''"
| "show_node float (StringGetter n f) = n @ ''@string''"
| "show_node float (EqualNumber l r) = ''{'' @ show_node float l @ '' '' @ show_node float r @ ''}''"
| "show_node float (LessThanNumber l r) = ''{'' @ show_node float l @ '' '' @ show_node float r @ ''}''"
| "show_node float (GreaterThanNumber l r) = ''{'' @ show_node float l @ '' '' @ show_node float r @ ''}''"
| "show_node float (EqualString l r) = ''{'' @ show_node float l @ '' '' @ show_node float r @ ''}''"
| "show_node float (LessThanString l r) = ''{'' @ show_node float l @ '' '' @ show_node float r @ ''}''"
| "show_node float (GreaterThanString l r) = ''{'' @ show_node float l @ '' '' @ show_node float r @ ''}''"
| "show_node float (Invalid m n) = m"

definition invalidExpr :: "(gofloat \<Rightarrow> string) \<Rightarrow> string \<Rightarrow> node \<Rightarrow> node" where
  "invalidExpr float msg n = Invalid (msg @ '': '' @ show_node float n) n"

section \<open>Transform with an idempotent callback\<close>

text \<open>
  The second call of the callback on a child has no effect when the callback leaves its own
  results alone; then a node without nil is transformed bottom-up, each node once.
\<close>

lemma transform_pure:
  "Transform (pure f) n () = map_option (\<lambda>n. (n, ())) (transform f n)"
proof -
  have "snd x = ()" for x :: "node \<times> unit" by simp
  then show ?thesis
    by (cases "Transform (pure f) n ()") (simp_all add: transform_def prod_eq_iff)
qed

lemma child_pure:
  "child (pure f) (Transform (pure f) n) () = map_option (\<lambda>n. (n, ())) (Option.bind (transform f n) f)"
  by (cases "transform f n") (simp_all add: child_def transform_pure pure_def)

lemma two_pure:
  "map_option fst (two (pure f) con (Transform (pure f) l) (Transform (pure f) r) ()) =
     Option.bind (Option.bind (transform f l) f) (\<lambda>l. Option.bind (Option.bind (transform f r) f) (\<lambda>r. f (con l r)))"
  by (cases "Option.bind (transform f l) f"; cases "Option.bind (transform f r) f")
    (simp_all add: two_def child_pure pure_def option.map_comp o_def option.map_ident)

lemma one_pure:
  "map_option fst (case child (pure f) (Transform (pure f) l) () of None \<Rightarrow> None | Some (l, s) \<Rightarrow> pure f (con l) s) =
     Option.bind (Option.bind (transform f l) f) (\<lambda>l. f (con l))"
  by (cases "Option.bind (transform f l) f")
    (simp_all add: child_pure pure_def option.map_comp o_def option.map_ident)

lemma leaf_pure: "map_option fst (pure f n ()) = f n"
  by (simp add: pure_def option.map_comp o_def option.map_ident)

lemma transform_simps [simp]:
  "transform f Nil = None"
  "transform f (BoolNode b) = f (BoolNode b)"
  "transform f (Ident i) = f (Ident i)"
  "transform f (Str x) = f (Str x)"
  "transform f (Number y) = f (Number y)"
  "transform f (Dur d) = f (Dur d)"
  "transform f (BooleanGetter n bf) = f (BooleanGetter n bf)"
  "transform f (NumberGetter n nf) = f (NumberGetter n nf)"
  "transform f (StringGetter n sf) = f (StringGetter n sf)"
  "transform f (Invalid m n') = f (Invalid m n')"
  by (simp_all add: transform_def leaf_pure)

abbreviation both :: "(node \<Rightarrow> node option) \<Rightarrow> (node \<Rightarrow> node \<Rightarrow> node) \<Rightarrow> node \<Rightarrow> node \<Rightarrow> node option" where
  "both f con l r \<equiv> Option.bind (Option.bind (transform f l) f)
     (\<lambda>l. Option.bind (Option.bind (transform f r) f) (\<lambda>r. f (con l r)))"

lemma transform_nodes [simp]:
  "transform f (Query q ord limit) = Option.bind (Option.bind (transform f q) f) (\<lambda>q. f (Query q ord limit))"
  "transform f (Not l) = Option.bind (Option.bind (transform f l) f) (\<lambda>l. f (Not l))"
  "transform f (And l r) = both f And l r"
  "transform f (Or l r) = both f Or l r"
  "transform f (Equals l r) = both f Equals l r"
  "transform f (Contains l r) = both f Contains l r"
  "transform f (LessThan l r) = both f LessThan l r"
  "transform f (GreaterThan l r) = both f GreaterThan l r"
  "transform f (EqualNumber l r) = both f EqualNumber l r"
  "transform f (LessThanNumber l r) = both f LessThanNumber l r"
  "transform f (GreaterThanNumber l r) = both f GreaterThanNumber l r"
  "transform f (EqualString l r) = both f EqualString l r"
  "transform f (LessThanString l r) = both f LessThanString l r"
  "transform f (GreaterThanString l r) = both f GreaterThanString l r"
  unfolding transform_def [of f "Query q ord limit"] transform_def [of f "Not l"] transform_def [of f "And l r"]
    transform_def [of f "Or l r"] transform_def [of f "Equals l r"] transform_def [of f "Contains l r"]
    transform_def [of f "LessThan l r"] transform_def [of f "GreaterThan l r"] transform_def [of f "EqualNumber l r"]
    transform_def [of f "LessThanNumber l r"] transform_def [of f "GreaterThanNumber l r"]
    transform_def [of f "EqualString l r"] transform_def [of f "LessThanString l r"]
    transform_def [of f "GreaterThanString l r"] Transform.simps
  by (rule two_pure one_pure [where con = "\<lambda>q. Query q ord limit"] one_pure [where con = Not])+

end
