(* ===== verification/Eval.thy ===== *)
theory Eval
  imports Ast Sorter Config
begin

text \<open>
  The package \<open>ql/eval\<close>: a query is compiled against the fields of a dataset (\<open>optimize.go\<close>), evaluated on every
  record (\<open>execute.go\<close>), and the records that stay are sorted, counted in facets and cut (\<open>dataset.go\<close>,
  \<open>sort.go\<close>, \<open>facets.go\<close>). Field accessors are association lists in the order Go iterates over the map;
  the printing of numbers and durations is an argument. \<open>strings.ToLower\<close> is that of ASCII.
\<close>

section \<open>Compilation\<close>

type_synonym accessors = "(string \<times> node) list"

fun IsString :: "node \<Rightarrow> bool" where
  "IsString (StringGetter n f) = True"
| "IsString (Str x) = True"
| "IsString _ = False"

fun IsNumber :: "node \<Rightarrow> bool" where
  "IsNumber (NumberGetter n f) = True"
| "IsNumber (Number x) = True"
| "IsNumber _ = False"

fun IsBoolean :: "node \<Rightarrow> bool" where
  "IsBoolean (Invalid m n) = True"
| "IsBoolean (BooleanGetter n f) = True"
| "IsBoolean (BoolNode b) = True"
| "IsBoolean (EqualNumber l r) = True"
| "IsBoolean (EqualString l r) = True"
| "IsBoolean (LessThanNumber l r) = True"
| "IsBoolean (LessThanString l r) = True"
| "IsBoolean (GreaterThanNumber l r) = True"
| "IsBoolean (GreaterThanString l r) = True"
| "IsBoolean (Equals l r) = True"
| "IsBoolean (LessThan l r) = True"
| "IsBoolean (GreaterThan l r) = True"
| "IsBoolean (Contains l r) = True"
| "IsBoolean (Not l) = True"
| "IsBoolean _ = False"

fun StringFrom :: "node \<Rightarrow> node option" where
  "StringFrom (Ident i) = Some (Str i)"
| "StringFrom (Str x) = Some (Str x)"
| "StringFrom _ = None"

text \<open>One turn of the loop over the accessors, then the loop. With fewer than two string fields a side stays nil.\<close>

definition match_one :: "node \<Rightarrow> node \<Rightarrow> node \<times> node \<Rightarrow> node \<times> node" where
  "match_one m v = (\<lambda>(l, r).
     case v of
       StringGetter n f \<Rightarrow>
         (let cond = Contains v m
          in if l = Nil then (cond, r) else if r = Nil then (l, cond) else (cond, Or l r))
     | _ \<Rightarrow> (l, r))"

definition MatchAll :: "accessors \<Rightarrow> node \<Rightarrow> node" where
  "MatchAll acc m = (case fold (\<lambda>(k, v). match_one m v) acc (Nil, Nil) of (l, r) \<Rightarrow> Or l r)"

definition typed :: "(gofloat \<Rightarrow> string) \<Rightarrow> string \<Rightarrow> (node \<Rightarrow> node \<Rightarrow> node) \<Rightarrow> (node \<Rightarrow> node \<Rightarrow> node)
    \<Rightarrow> (node \<Rightarrow> node \<Rightarrow> node) \<Rightarrow> node \<Rightarrow> node \<Rightarrow> node" where
  "typed float msg con str num l r =
     (if IsString l \<and> IsString r then str l r
      else if IsNumber l \<and> IsNumber r then num l r
      else invalidExpr float msg (con l r))"

fun compile_node :: "(gofloat \<Rightarrow> string) \<Rightarrow> accessors \<Rightarrow> node \<Rightarrow> node" where
  "compile_node float acc (Query f ord limit) =
     (case StringFrom f of None \<Rightarrow> Query f ord limit | Some m \<Rightarrow> MatchAll acc m)"
| "compile_node float acc (And l r) =
     (if \<not> IsBoolean l \<or> \<not> IsBoolean r then invalidExpr float ''incompatible branches'' (And l r) else And l r)"
| "compile_node float acc (Or l r) =
     (if \<not> IsBoolean l \<or> \<not> IsBoolean r then invalidExpr float ''incompatible branches'' (Or l r) else Or l r)"
| "compile_node float acc (Not l) =
     (if \<not> IsBoolean l then invalidExpr float ''incompatible branches'' (Not l) else Not l)"
| "compile_node float acc (Equals l r) = typed float ''incompatible equals'' Equals EqualString EqualNumber l r"
| "compile_node float acc (LessThan l r) = typed float ''incompatible less'' LessThan LessThanString LessThanNumber l r"
| "compile_node float acc (GreaterThan l r) =
     typed float ''incompatible greater'' GreaterThan GreaterThanString GreaterThanNumber l r"
| "compile_node float acc (Contains l r) =
     (if \<not> (IsString l \<and> IsString r) then invalidExpr float ''incompatible contains'' (Contains l r) else Contains l r)"
| "compile_node float acc (Ident i) = (case map_of acc i of None \<Rightarrow> Str i | Some getter \<Rightarrow> getter)"
| "compile_node float acc n = n"

definition Dataset_Transform :: "(gofloat \<Rightarrow> string) \<Rightarrow> accessors \<Rightarrow> node \<Rightarrow> node option" where
  "Dataset_Transform float acc src = transform (\<lambda>n. Some (compile_node float acc n)) src"

text \<open>\<open>IsFailure\<close> transforms the compiled query with a callback that collects the invalid nodes.\<close>

definition collect_invalid :: "(string list) callback" where
  "collect_invalid n found =
     (case n of Invalid m _ \<Rightarrow> Some (Nil, found @ [m]) | _ \<Rightarrow> Some (n, found))"

text \<open>\<open>Some None\<close>: no failure; \<open>Some (Some m)\<close>: the first one; \<open>None\<close>: a panic.\<close>

definition IsFailure :: "node \<Rightarrow> string option option" where
  "IsFailure n =
     (case Transform collect_invalid n [] of
        None \<Rightarrow> None
      | Some (_, found) \<Rightarrow> Some (case found of [] \<Rightarrow> None | m # _ \<Rightarrow> Some m))"

section \<open>Evaluation\<close>

text \<open>The type assertions of the operands.\<close>

fun on_strings :: "(string \<Rightarrow> string \<Rightarrow> bool) \<Rightarrow> node \<Rightarrow> node \<Rightarrow> node option" where
  "on_strings f (Str l) (Str r) = Some (BoolNode (f l r))"
| "on_strings f l r = None"

fun on_numbers :: "(gofloat \<Rightarrow> gofloat \<Rightarrow> bool) \<Rightarrow> node \<Rightarrow> node \<Rightarrow> node option" where
  "on_numbers f (Number l) (Number r) = Some (BoolNode (f l r))"
| "on_numbers f l r = None"

fun on_bools :: "(bool \<Rightarrow> bool \<Rightarrow> bool) \<Rightarrow> node \<Rightarrow> node \<Rightarrow> node option" where
  "on_bools f (BoolNode l) (BoolNode r) = Some (BoolNode (f l r))"
| "on_bools f l r = None"

definition string_contains :: "string \<Rightarrow> string \<Rightarrow> bool" where
  "string_contains l r = str_contains (to_lower l) (to_lower r)"

fun eval_node :: "nat \<Rightarrow> node \<Rightarrow> node option" where
  "eval_node i (BoolNode b) = Some (BoolNode b)"
| "eval_node i (Str x) = Some (Str x)"
| "eval_node i (Number x) = Some (Number x)"
| "eval_node i (StringGetter n f) = Some (Str (f i))"
| "eval_node i (NumberGetter n f) = Some (Number (f i))"
| "eval_node i (BooleanGetter n f) = Some (BoolNode (f i))"
| "eval_node i (Contains l r) = on_strings string_contains l r"
| "eval_node i (EqualString l r) = on_strings (=) l r"
| "eval_node i (LessThanString l r) = on_strings (<) l r"
| "eval_node i (GreaterThanString l r) = on_strings (>) l r"
| "eval_node i (EqualNumber l r) = on_numbers flt_eq l r"
| "eval_node i (LessThanNumber l r) = on_numbers flt_less l r"
| "eval_node i (GreaterThanNumber l r) = on_numbers (\<lambda>a b. flt_less b a) l r"
| "eval_node i (Not l) = (case l of BoolNode b \<Rightarrow> Some (BoolNode (\<not> b)) | _ \<Rightarrow> None)"
| "eval_node i (And l r) = on_bools (\<and>) l r"
| "eval_node i (Or l r) = on_bools (\<or>) l r"
| "eval_node i (Invalid m n) = Some (Invalid m n)"
| "eval_node i (Query f ord limit) = Some f"
| "eval_node i n = Some (BoolNode False)"

definition Filter :: "nat \<Rightarrow> node \<Rightarrow> (string + bool) option" where
  "Filter i flt =
     (case transform (eval_node i) flt of
        None \<Rightarrow> None
      | Some (BoolNode b) \<Rightarrow> Some (Inr b)
      | Some t \<Rightarrow> Some (Inl ''unknown return''))"

section \<open>Sorting\<close>

record 'a sorter =
  Asc :: "'a \<Rightarrow> 'a \<Rightarrow> bool"
  Desc :: "'a \<Rightarrow> 'a \<Rightarrow> bool"
  AscDefault :: bool
  DescDefault :: bool

definition Comparator :: "'a sorter \<Rightarrow> orderBy \<Rightarrow> 'a \<Rightarrow> 'a \<Rightarrow> bool" where
  "Comparator s ob = (if ob_Asc ob then Asc s else Desc s)"

type_synonym 'a sorters = "(string \<times> 'a sorter) list"

text \<open>The comparison is the chain of the comparators, \<open>chain_by\<close>.\<close>

fun sort_chain :: "'a sorters \<Rightarrow> orderBy list \<Rightarrow> string + ('a \<Rightarrow> 'a \<Rightarrow> bool) list" where
  "sort_chain ss [] = Inr []"
| "sort_chain ss (ob # obs) =
     (case map_of ss (ob_Ident ob) of
        None \<Rightarrow> Inl (''no field: '' @ ob_Ident ob)
      | Some o' \<Rightarrow> (case sort_chain ss obs of Inl err \<Rightarrow> Inl err | Inr cs \<Rightarrow> Inr (Comparator o' ob # cs)))"

definition Sorters_Sort :: "'a sorters \<Rightarrow> orderBy list \<Rightarrow> string + ('a \<Rightarrow> 'a \<Rightarrow> bool)" where
  "Sorters_Sort ss obs = (case sort_chain ss obs of Inl err \<Rightarrow> Inl err | Inr cs \<Rightarrow> Inr (chain_by cs))"

definition default_order :: "'a sorters \<Rightarrow> orderBy list" where
  "default_order ss =
     map (\<lambda>(k, v). \<lparr>ob_Ident = k, ob_Asc = AscDefault v\<rparr>) (filter (\<lambda>(k, v). AscDefault v \<or> DescDefault v) ss)"

section \<open>Facets\<close>

record card =
  c_Name :: string
  c_Value :: int
  c_Filter :: string

record facet =
  f_Name :: string
  f_Top :: "card list"

text \<open>The counts of the values, in the order of the iteration over the map (here: of first occurrence).\<close>

fun tally :: "string \<Rightarrow> (string \<times> int) list \<Rightarrow> (string \<times> int) list" where
  "tally x [] = [(x, 1)]"
| "tally x ((y, n) # ys) = (if x = y then (y, n + 1) # ys else (y, n) # tally x ys)"

definition word_char :: "char \<Rightarrow> bool" where
  "word_char c \<longleftrightarrow> c = CHR ''_'' \<or>
     (let n = of_char c :: nat in (48 \<le> n \<and> n \<le> 57) \<or> (65 \<le> n \<and> n \<le> 90) \<or> (97 \<le> n \<and> n \<le> 122))"

definition isAlpha :: "string \<Rightarrow> bool" where
  "isAlpha s \<longleftrightarrow> s \<noteq> [] \<and> (\<forall>c \<in> set s. word_char c)"

record string_facet =
  sf_Getter :: "nat \<Rightarrow> string"
  sf_Field :: string
  sf_Name :: string
  sf_Contains :: bool

definition card_of :: "string_facet \<Rightarrow> string \<times> int \<Rightarrow> card" where
  "card_of s = (\<lambda>(name, cnt).
     let name = (if name = [] then ''n/a'' else name);
         q = (if isAlpha name then name else ''\"'' @ name @ ''\"'');
         query = (if sf_Contains s then sf_Field s @ '' ~ '' @ q else sf_Field s @ '':'' @ q)
     in \<lparr>c_Name = name, c_Value = cnt, c_Filter = query\<rparr>)"

definition card_less :: "card \<Rightarrow> card \<Rightarrow> bool" where
  "card_less a b = (if c_Value a \<noteq> c_Value b then c_Value a > c_Value b else c_Name a > c_Name b)"

text \<open>\<open>summary\<close> is the map in the order of its iteration; \<open>n\<close> is not negative.\<close>

definition StringFacet_Facet :: "string_facet \<Rightarrow> (string \<times> int) list \<Rightarrow> nat \<Rightarrow> facet" where
  "StringFacet_Facet s summary n =
     (let cards = sort_by card_less (map (card_of s) (filter (\<lambda>(name, cnt). \<not> cnt < 2) summary))
      in \<lparr>f_Name = sf_Name s, f_Top = take (min n (length cards)) cards\<rparr>)"

definition string_summary :: "string_facet \<Rightarrow> nat \<Rightarrow> (string \<times> int) list" where
  "string_summary s len = fold (\<lambda>i summary. tally (sf_Getter s i) summary) [0..<len] []"

record number_ranges =
  nr_Getter :: "nat \<Rightarrow> gofloat"
  nr_Field :: string
  nr_Name :: string
  nr_Duration :: bool
  nr_Size :: bool
  nr_TimeAgo :: bool

record bin =
  bin_start :: gofloat
  bin_end :: gofloat
  bin_min :: gofloat
  bin_max :: gofloat
  bin_count :: int

fun flt_ceil :: "gofloat \<Rightarrow> gofloat" where
  "flt_ceil (Fin q) = Fin (of_int \<lceil>q\<rceil>)"
| "flt_ceil f = f"

fun flt_sub :: "gofloat \<Rightarrow> gofloat \<Rightarrow> gofloat" where
  "flt_sub (Fin a) (Fin b) = round_flt binary64 (a - b)"
| "flt_sub _ _ = NaN"

fun flt_add :: "gofloat \<Rightarrow> gofloat \<Rightarrow> gofloat" where
  "flt_add (Fin a) (Fin b) = round_flt binary64 (a + b)"
| "flt_add _ _ = NaN"

definition MaxFloat64 :: gofloat where "MaxFloat64 = Fin ((2 - 1 / 2 ^ 52) * 2 ^ 1023)"
definition SmallestNonzeroFloat64 :: gofloat where "SmallestNonzeroFloat64 = Fin (1 / 2 ^ 1074)"

definition flt_leq :: "gofloat \<Rightarrow> gofloat \<Rightarrow> bool" where
  "flt_leq a b \<longleftrightarrow> flt_less a b \<or> flt_eq a b"

definition bin_add :: "gofloat \<Rightarrow> bin \<Rightarrow> bin" where
  "bin_add v b =
     (if flt_leq (bin_start b) v \<and> flt_leq v (bin_end b)
      then b\<lparr>bin_max := (if flt_less (bin_max b) v then v else bin_max b),
             bin_min := (if flt_less v (bin_min b) then v else bin_min b), bin_count := bin_count b + 1\<rparr>
      else b)"

fun bins :: "nat \<Rightarrow> gofloat list \<Rightarrow> gofloat \<Rightarrow> gofloat \<Rightarrow> gofloat \<Rightarrow> bin list" where
  "bins 0 data mx start rangeSize = []"
| "bins (Suc k) data mx start rangeSize =
     (let b = fold bin_add data \<lparr>bin_start = start, bin_end = flt_ceil (flt_add start rangeSize), bin_min = mx,
                bin_max = Fin 0, bin_count = 0\<rparr>
      in b # bins k data mx (flt_add (bin_end b) (Fin 1)) rangeSize)"

text \<open>\<open>int(f)\<close>, with the least integer for what does not fit (amd64).\<close>

definition to_int :: "gofloat \<Rightarrow> int" where
  "to_int f = (case int_of_flt f of None \<Rightarrow> - (2 ^ 63) | Some i \<Rightarrow> i)"

definition readableSize :: "gofloat \<Rightarrow> string" where
  "readableSize bytes =
     (let b = to_int bytes
      in if flt_less bytes (Fin 1024) then show_int b @ ''b''
         else if flt_less bytes (Fin (1024 * 1024)) then show_int (b sdiv 1024) @ ''kb''
         else show_int (b sdiv 1024 sdiv 1024) @ ''mb'')"

definition readableSince :: "time \<Rightarrow> gofloat \<Rightarrow> string" where
  "readableSince now t =
     (let x = (to_int t + epoch_seconds) * second; day = 24 * hour; week = 7 * day; month = 30 * day + 12 * hour;
          dur = time_sub now x
      in if dur < minute then show_int (dur sdiv second) @ '' seconds''
         else if dur < hour then show_int (dur sdiv minute) @ '' minutes''
         else if dur < day then show_int (dur sdiv hour) @ '' hours''
         else if dur < week then show_int (dur sdiv day) @ '' days''
         else if dur < month then show_int (dur sdiv week) @ '' weeks''
         else show_int (dur sdiv month) @ '' months'')"

text \<open>\<open>dur\<close> prints a duration rounded to milliseconds.\<close>

definition range_card :: "(duration \<Rightarrow> string) \<Rightarrow> time \<Rightarrow> number_ranges \<Rightarrow> bin \<Rightarrow> card" where
  "range_card dur now s r =
     (let start = to_int (bin_min r); end' = to_int (bin_max r);
          name =
            (if nr_TimeAgo s
             then (let a = readableSince now (bin_min r); b = readableSince now (bin_max r)
                   in if a = b then a @ '' ago'' else a @ '' .. '' @ b)
             else if nr_Size s
             then (let a = readableSize (bin_min r); b = readableSize (bin_max r)
                   in if a = b then a else a @ '' .. '' @ b)
             else if nr_Duration s then dur start @ '' .. '' @ dur end'
             else show_int start @ '' .. '' @ show_int end')
      in \<lparr>c_Name = name, c_Value = bin_count r,
          c_Filter = nr_Field s @ '' > '' @ show_int start @ '' AND '' @ nr_Field s @ '' < '' @ show_int end'\<rparr>)"

definition NumberRanges_Facet :: "(duration \<Rightarrow> string) \<Rightarrow> time \<Rightarrow> number_ranges \<Rightarrow> gofloat list \<Rightarrow> nat \<Rightarrow> facet" where
  "NumberRanges_Facet dur now s data n =
     (let n = (if n > 5 then 5 else n);
          mx = fold (\<lambda>v m. if flt_less m v then v else m) data SmallestNonzeroFloat64;
          mn = fold (\<lambda>v m. if flt_less v m then v else m) data MaxFloat64;
          rangeSize = flt_div binary64 (flt_sub mx mn) (flt_of_int binary64 (int n));
          cards = map (range_card dur now s) (filter (\<lambda>r. \<not> bin_count r \<le> 1) (bins n data mx mn rangeSize))
      in \<lparr>f_Name = nr_Name s, f_Top = sort_by card_less cards\<rparr>)"

datatype retriever = StringRetriever string_facet | RangesRetriever number_ranges

definition retrieve :: "(duration \<Rightarrow> string) \<Rightarrow> time \<Rightarrow> nat \<Rightarrow> nat \<Rightarrow> retriever \<Rightarrow> facet" where
  "retrieve dur now len topN r =
     (case r of
        StringRetriever s \<Rightarrow> StringFacet_Facet s (string_summary s len) topN
      | RangesRetriever s \<Rightarrow> NumberRanges_Facet dur now s (map (nr_Getter s) [0..<len]) topN)"

definition Facets :: "(duration \<Rightarrow> string) \<Rightarrow> time \<Rightarrow> retriever list \<Rightarrow> nat \<Rightarrow> nat \<Rightarrow> facet list" where
  "Facets dur now rs len topN = filter (\<lambda>f. f_Top f \<noteq> []) (map (retrieve dur now len topN) rs)"

section \<open>Queries\<close>

record 'a dataset =
  Source :: "'a list"
  Accessors :: accessors
  Sorters :: "'a sorters"
  FacetsOf :: "'a list \<Rightarrow> nat \<Rightarrow> facet list"

record 'a query_result =
  Total :: int
  Records :: "'a list"
  FacetList :: "facet list"

text \<open>The loop over the records: an error ends it.\<close>

fun select :: "node \<Rightarrow> nat \<Rightarrow> 'a list \<Rightarrow> (string + 'a list) option" where
  "select flt i [] = Some (Inr [])"
| "select flt i (x # xs) =
     (case Filter i flt of
        None \<Rightarrow> None
      | Some (Inl err) \<Rightarrow> Some (Inl err)
      | Some (Inr include) \<Rightarrow>
          (case select flt (i + 1) xs of
             None \<Rightarrow> None
           | Some (Inl err) \<Rightarrow> Some (Inl err)
           | Some (Inr ys) \<Rightarrow> Some (Inr (if include then x # ys else ys))))"

text \<open>\<open>plan\<close> is the parsed query, or the parser's error. A negative limit is a slice out of range.\<close>

definition cut_result :: "('a list \<Rightarrow> nat \<Rightarrow> facet list) \<Rightarrow> int \<Rightarrow> 'a list \<Rightarrow> 'a query_result option" where
  "cut_result facets limit result =
     (let limit = (if limit = 0 then 20 else limit);
          limit = (if limit \<ge> int (length result) then int (length result) else limit)
      in if limit < 0 then None
         else Some \<lparr>Total = int (length result), Records = take (nat limit) result, FacetList = facets result (nat limit)\<rparr>)"

definition run_query :: "(gofloat \<Rightarrow> string) \<Rightarrow> 'a dataset \<Rightarrow> node \<times> orderBy list \<times> int \<Rightarrow> (string + 'a query_result) option" where
  "run_query float d = (\<lambda>(f, ord, limit).
     case Dataset_Transform float (Accessors d) (Query f ord limit) of
       None \<Rightarrow> None
     | Some optimized \<Rightarrow>
         (case IsFailure optimized of
            None \<Rightarrow> None
          | Some (Some err) \<Rightarrow> Some (Inl err)
          | Some None \<Rightarrow>
              (case select optimized 0 (Source d) of
                 None \<Rightarrow> None
               | Some (Inl err) \<Rightarrow> Some (Inl err)
               | Some (Inr result) \<Rightarrow>
                   (case Sorters_Sort (Sorters d) (if ord = [] then default_order (Sorters d) else ord) of
                      Inl err \<Rightarrow> Some (Inl (''sort: '' @ err))
                    | Inr lt \<Rightarrow> map_option Inr (cut_result (FacetsOf d) limit (sort_by lt result))))))"

definition Dataset_Query :: "(string \<Rightarrow> (string + node \<times> orderBy list \<times> int) option) \<Rightarrow> (gofloat \<Rightarrow> string)
    \<Rightarrow> 'a dataset \<Rightarrow> string \<Rightarrow> (string + 'a query_result) option" where
  "Dataset_Query parse float d query =
     (case parse query of
        None \<Rightarrow> None
      | Some (Inl err) \<Rightarrow> Some (Inl err)
      | Some (Inr plan) \<Rightarrow> run_query float d plan)"

end
