(* ===== verification/Queries.thy ===== *)
theory Queries
  imports Eval
begin

text \<open>
  What a query of \<open>ql/eval\<close> means. \<open>truth\<close> gives the meaning of a filter on a record straight from its syntax tree; the
  compiled and evaluated query agrees with it on the filters that the compiler accepts, and the compiler
  accepts exactly the well-typed ones in which no AND or OR is an operand of another operator.
\<close>

section \<open>The meaning of a filter\<close>

definition getters :: "accessors \<Rightarrow> bool" where
  "getters acc \<longleftrightarrow> (\<forall>(k, v) \<in> set acc. (\<exists>n f. v = StringGetter n f) \<or> (\<exists>n f. v = NumberGetter n f) \<or> (\<exists>n f. v = BooleanGetter n f))"

text \<open>The nodes that the parser makes.\<close>

fun is_source :: "node \<Rightarrow> bool" where
  "is_source (Ident i) = True"
| "is_source (Str x) = True"
| "is_source (Number x) = True"
| "is_source (Dur d) = True"
| "is_source (BoolNode b) = True"
| "is_source (And l r) = (is_source l \<and> is_source r)"
| "is_source (Or l r) = (is_source l \<and> is_source r)"
| "is_source (Not l) = is_source l"
| "is_source (Equals l r) = (is_source l \<and> is_source r)"
| "is_source (Contains l r) = (is_source l \<and> is_source r)"
| "is_source (LessThan l r) = (is_source l \<and> is_source r)"
| "is_source (GreaterThan l r) = (is_source l \<and> is_source r)"
| "is_source n = False"

text \<open>An operand: the field of that name, or the name itself as a text when there is none.\<close>

fun text_of :: "accessors \<Rightarrow> nat \<Rightarrow> node \<Rightarrow> string option" where
  "text_of acc i (Str x) = Some x"
| "text_of acc i (Ident x) =
     (case map_of acc x of None \<Rightarrow> Some x | Some (StringGetter n f) \<Rightarrow> Some (f i) | Some v \<Rightarrow> None)"
| "text_of acc i n = None"

fun number_of :: "accessors \<Rightarrow> nat \<Rightarrow> node \<Rightarrow> gofloat option" where
  "number_of acc i (Number x) = Some x"
| "number_of acc i (Ident x) = (case map_of acc x of Some (NumberGetter n f) \<Rightarrow> Some (f i) | _ \<Rightarrow> None)"
| "number_of acc i n = None"

definition compare_with :: "(string \<Rightarrow> string \<Rightarrow> bool) \<Rightarrow> (gofloat \<Rightarrow> gofloat \<Rightarrow> bool) \<Rightarrow> accessors \<Rightarrow> nat \<Rightarrow> node \<Rightarrow> node \<Rightarrow> bool option" where
  "compare_with str num acc i l r =
     (case (text_of acc i l, text_of acc i r) of
        (Some a, Some b) \<Rightarrow> Some (str a b)
      | _ \<Rightarrow> (case (number_of acc i l, number_of acc i r) of (Some a, Some b) \<Rightarrow> Some (num a b) | _ \<Rightarrow> None))"

definition both_true :: "(bool \<Rightarrow> bool \<Rightarrow> bool) \<Rightarrow> bool option \<Rightarrow> bool option \<Rightarrow> bool option" where
  "both_true f a b = (case (a, b) of (Some a, Some b) \<Rightarrow> Some (f a b) | _ \<Rightarrow> None)"

text \<open>\<open>None\<close>: the filter is not well typed.\<close>

fun truth :: "accessors \<Rightarrow> nat \<Rightarrow> node \<Rightarrow> bool option" where
  "truth acc i (Ident x) = (case map_of acc x of Some (BooleanGetter n f) \<Rightarrow> Some (f i) | _ \<Rightarrow> None)"
| "truth acc i (BoolNode b) = Some b"
| "truth acc i (And l r) = both_true (\<and>) (truth acc i l) (truth acc i r)"
| "truth acc i (Or l r) = both_true (\<or>) (truth acc i l) (truth acc i r)"
| "truth acc i (Not l) = map_option (\<lambda>b. \<not> b) (truth acc i l)"
| "truth acc i (Equals l r) = compare_with (=) flt_eq acc i l r"
| "truth acc i (LessThan l r) = compare_with (<) flt_less acc i l r"
| "truth acc i (GreaterThan l r) = compare_with (>) (\<lambda>a b. flt_less b a) acc i l r"
| "truth acc i (Contains l r) =
     (case (text_of acc i l, text_of acc i r) of (Some a, Some b) \<Rightarrow> Some (string_contains a b) | _ \<Rightarrow> None)"
| "truth acc i n = None"

fun junction :: "node \<Rightarrow> bool" where
  "junction (And l r) = True"
| "junction (Or l r) = True"
| "junction n = False"

text \<open>No AND or OR below another operator.\<close>

fun flat :: "node \<Rightarrow> bool" where
  "flat (And l r) = (flat l \<and> flat r \<and> \<not> junction l \<and> \<not> junction r)"
| "flat (Or l r) = (flat l \<and> flat r \<and> \<not> junction l \<and> \<not> junction r)"
| "flat (Not l) = (flat l \<and> \<not> junction l)"
| "flat n = True"

section \<open>Compilation\<close>

text \<open>The filter compiled bottom-up, each node once.\<close>

primrec opt :: "(gofloat \<Rightarrow> string) \<Rightarrow> accessors \<Rightarrow> node \<Rightarrow> node" where
  "opt p acc Nil = Nil"
| "opt p acc (Query f ord limit) = Query f ord limit"
| "opt p acc (BoolNode b) = BoolNode b"
| "opt p acc (Ident i) = compile_node p acc (Ident i)"
| "opt p acc (Str x) = Str x"
| "opt p acc (Number x) = Number x"
| "opt p acc (Dur d) = Dur d"
| "opt p acc (And l r) = compile_node p acc (And (opt p acc l) (opt p acc r))"
| "opt p acc (Or l r) = compile_node p acc (Or (opt p acc l) (opt p acc r))"
| "opt p acc (Not l) = compile_node p acc (Not (opt p acc l))"
| "opt p acc (Equals l r) = compile_node p acc (Equals (opt p acc l) (opt p acc r))"
| "opt p acc (Contains l r) = compile_node p acc (Contains (opt p acc l) (opt p acc r))"
| "opt p acc (LessThan l r) = compile_node p acc (LessThan (opt p acc l) (opt p acc r))"
| "opt p acc (GreaterThan l r) = compile_node p acc (GreaterThan (opt p acc l) (opt p acc r))"
| "opt p acc (BooleanGetter n f) = BooleanGetter n f"
| "opt p acc (NumberGetter n f) = NumberGetter n f"
| "opt p acc (StringGetter n f) = StringGetter n f"
| "opt p acc (EqualNumber l r) = EqualNumber l r"
| "opt p acc (LessThanNumber l r) = LessThanNumber l r"
| "opt p acc (GreaterThanNumber l r) = GreaterThanNumber l r"
| "opt p acc (EqualString l r) = EqualString l r"
| "opt p acc (LessThanString l r) = LessThanString l r"
| "opt p acc (GreaterThanString l r) = GreaterThanString l r"
| "opt p acc (Invalid m n) = Invalid m n"

lemma getters_lookup:
  assumes "getters acc" and "map_of acc x = Some v"
  obtains (string) n f where "v = StringGetter n f" | (number) n f where "v = NumberGetter n f"
    | (boolean) n f where "v = BooleanGetter n f"
  using assms map_of_SomeD [of acc x v] unfolding getters_def by fastforce

text \<open>Compiling a compiled node again does nothing.\<close>

lemma compile_again:
  assumes "getters acc" and "\<And>f ord limit. n \<noteq> Query f ord limit"
  shows "compile_node p acc (compile_node p acc n) = compile_node p acc n"
proof (cases n)
  case (Ident x)
  show ?thesis
  proof (cases "map_of acc x")
    case (Some v)
    show ?thesis by (rule getters_lookup [OF assms(1) Some]) (simp_all add: Ident Some)
  qed (simp add: Ident)
qed (use assms(2) in \<open>auto simp: typed_def invalidExpr_def\<close>)

lemma opt_compiled:
  assumes "getters acc" and "is_source n"
  shows "compile_node p acc (opt p acc n) = opt p acc n"
  using assms(2)
  by (cases n) (simp_all only: opt.simps is_source.simps compile_again [OF assms(1)] node.distinct simp_thms, simp_all)

lemma transform_compile:
  assumes "getters acc" and "is_source n"
  shows "transform (\<lambda>n. Some (compile_node p acc n)) n = Some (opt p acc n)"
  using assms(2)
proof (induction n)
  case (And l r) then show ?case by (simp add: opt_compiled assms(1) del: compile_node.simps)
next
  case (Or l r) then show ?case by (simp add: opt_compiled assms(1) del: compile_node.simps)
next
  case (Not l) then show ?case by (simp add: opt_compiled assms(1) del: compile_node.simps)
next
  case (Equals l r) then show ?case by (simp add: opt_compiled assms(1) del: compile_node.simps)
next
  case (Contains l r) then show ?case by (simp add: opt_compiled assms(1) del: compile_node.simps)
next
  case (LessThan l r) then show ?case by (simp add: opt_compiled assms(1) del: compile_node.simps)
next
  case (GreaterThan l r) then show ?case by (simp add: opt_compiled assms(1) del: compile_node.simps)
qed simp_all


section \<open>What the compiler rejects\<close>

primrec invalids :: "node \<Rightarrow> string list" where
  "invalids Nil = []"
| "invalids (Query f ord limit) = invalids f"
| "invalids (BoolNode b) = []"
| "invalids (Ident i) = []"
| "invalids (Str x) = []"
| "invalids (Number x) = []"
| "invalids (Dur d) = []"
| "invalids (And l r) = invalids l @ invalids r"
| "invalids (Or l r) = invalids l @ invalids r"
| "invalids (Not l) = invalids l"
| "invalids (Equals l r) = invalids l @ invalids r"
| "invalids (Contains l r) = invalids l @ invalids r"
| "invalids (LessThan l r) = invalids l @ invalids r"
| "invalids (GreaterThan l r) = invalids l @ invalids r"
| "invalids (BooleanGetter n f) = []"
| "invalids (NumberGetter n f) = []"
| "invalids (StringGetter n f) = []"
| "invalids (EqualNumber l r) = invalids l @ invalids r"
| "invalids (LessThanNumber l r) = invalids l @ invalids r"
| "invalids (GreaterThanNumber l r) = invalids l @ invalids r"
| "invalids (EqualString l r) = invalids l @ invalids r"
| "invalids (LessThanString l r) = invalids l @ invalids r"
| "invalids (GreaterThanString l r) = invalids l @ invalids r"
| "invalids (Invalid m n) = [m]"

text \<open>No nil inside.\<close>

primrec whole :: "node \<Rightarrow> bool" where
  "whole Nil = False"
| "whole (Query f ord limit) = whole f"
| "whole (BoolNode b) = True"
| "whole (Ident i) = True"
| "whole (Str x) = True"
| "whole (Number x) = True"
| "whole (Dur d) = True"
| "whole (And l r) = (whole l \<and> whole r)"
| "whole (Or l r) = (whole l \<and> whole r)"
| "whole (Not l) = whole l"
| "whole (Equals l r) = (whole l \<and> whole r)"
| "whole (Contains l r) = (whole l \<and> whole r)"
| "whole (LessThan l r) = (whole l \<and> whole r)"
| "whole (GreaterThan l r) = (whole l \<and> whole r)"
| "whole (BooleanGetter n f) = True"
| "whole (NumberGetter n f) = True"
| "whole (StringGetter n f) = True"
| "whole (EqualNumber l r) = (whole l \<and> whole r)"
| "whole (LessThanNumber l r) = (whole l \<and> whole r)"
| "whole (GreaterThanNumber l r) = (whole l \<and> whole r)"
| "whole (EqualString l r) = (whole l \<and> whole r)"
| "whole (LessThanString l r) = (whole l \<and> whole r)"
| "whole (GreaterThanString l r) = (whole l \<and> whole r)"
| "whole (Invalid m n) = True"

definition gathers :: "node \<Rightarrow> bool" where
  "gathers n \<longleftrightarrow> (\<forall>s. \<exists>n'. Transform collect_invalid n s = Some (n', s @ invalids n) \<and> (\<forall>m k. n' \<noteq> Invalid m k))"

lemma gathers_child: "gathers n \<Longrightarrow> \<exists>n'. child collect_invalid (Transform collect_invalid n) s = Some (n', s @ invalids n)"
proof -
  assume "gathers n"
  then obtain n' where "Transform collect_invalid n s = Some (n', s @ invalids n)" "\<forall>m k. n' \<noteq> Invalid m k"
    unfolding gathers_def by blast
  then show ?thesis by (cases n') (simp_all add: child_def collect_invalid_def)
qed

lemma gathers_one:
  assumes "gathers l" and "\<And>a m k. con a \<noteq> Invalid m k"
  shows "\<exists>n'. (case child collect_invalid (Transform collect_invalid l) s of
      None \<Rightarrow> None | Some (l, s) \<Rightarrow> collect_invalid (con l) s) = Some (n', s @ invalids l) \<and> (\<forall>m k. n' \<noteq> Invalid m k)"
proof -
  obtain l' where "child collect_invalid (Transform collect_invalid l) s = Some (l', s @ invalids l)"
    using gathers_child [OF assms(1)] by blast
  then show ?thesis using assms(2) by (auto simp: collect_invalid_def split: node.split)
qed

lemma gathers_two:
  assumes "gathers l" and "gathers r" and "\<And>a b m k. con a b \<noteq> Invalid m k"
  shows "\<exists>n'. two collect_invalid con (Transform collect_invalid l) (Transform collect_invalid r) s =
    Some (n', s @ invalids l @ invalids r) \<and> (\<forall>m k. n' \<noteq> Invalid m k)"
proof -
  obtain l' where l: "child collect_invalid (Transform collect_invalid l) s = Some (l', s @ invalids l)"
    using gathers_child [OF assms(1)] by blast
  obtain r' where r: "child collect_invalid (Transform collect_invalid r) (s @ invalids l) = Some (r', (s @ invalids l) @ invalids r)"
    using gathers_child [OF assms(2)] by blast
  show ?thesis using assms(3) by (auto simp: two_def l r collect_invalid_def split: node.split)
qed

lemma whole_gathers: "whole n \<Longrightarrow> gathers n"
proof (induction n)
  case (Query f ord limit)
  then show ?case using gathers_one [of f "\<lambda>f. Query f ord limit"] by (simp add: gathers_def [of "Query _ _ _"])
next
  case (Not l)
  then show ?case using gathers_one [of l Not] by (simp add: gathers_def [of "Not _"])
qed (unfold gathers_def [of "And _ _"] gathers_def [of "Or _ _"] gathers_def [of "Equals _ _"] gathers_def [of "Contains _ _"]
    gathers_def [of "LessThan _ _"] gathers_def [of "GreaterThan _ _"] gathers_def [of "EqualNumber _ _"]
    gathers_def [of "LessThanNumber _ _"] gathers_def [of "GreaterThanNumber _ _"] gathers_def [of "EqualString _ _"]
    gathers_def [of "LessThanString _ _"] gathers_def [of "GreaterThanString _ _"],
    auto simp: gathers_two, auto simp: gathers_def collect_invalid_def)

lemma IsFailure_invalids:
  assumes "whole n"
  shows "IsFailure n = Some (case invalids n of [] \<Rightarrow> None | m # ms \<Rightarrow> Some m)"
proof -
  obtain n' where "Transform collect_invalid n [] = Some (n', [] @ invalids n)"
    using whole_gathers [OF assms] unfolding gathers_def by blast
  then show ?thesis by (simp add: IsFailure_def split: list.split)
qed


lemma IsString_opt:
  assumes "getters acc" and "is_source n"
  shows "IsString (opt p acc n) \<longleftrightarrow> text_of acc i n \<noteq> None"
proof (cases n)
  case (Ident x)
  show ?thesis
  proof (cases "map_of acc x")
    case (Some v)
    show ?thesis by (rule getters_lookup [OF assms(1) Some]) (simp_all add: Ident Some)
  qed (simp add: Ident)
qed (use assms(2) in \<open>auto simp: typed_def invalidExpr_def\<close>)

lemma IsNumber_opt:
  assumes "getters acc" and "is_source n"
  shows "IsNumber (opt p acc n) \<longleftrightarrow> number_of acc i n \<noteq> None"
proof (cases n)
  case (Ident x)
  show ?thesis
  proof (cases "map_of acc x")
    case (Some v)
    show ?thesis by (rule getters_lookup [OF assms(1) Some]) (simp_all add: Ident Some)
  qed (simp add: Ident)
qed (use assms(2) in \<open>auto simp: typed_def invalidExpr_def\<close>)

lemma operand_valid: "IsString m \<or> IsNumber m \<Longrightarrow> invalids m = []"
  by (cases m) simp_all

definition boolish :: "node \<Rightarrow> bool" where
  "boolish n \<longleftrightarrow> IsBoolean n \<or> junction n"

lemma junction_opt:
  assumes "getters acc" and "is_source n" and "invalids (opt p acc n) = []"
  shows "junction (opt p acc n) \<longleftrightarrow> junction n"
proof (cases n)
  case (Ident x)
  show ?thesis
  proof (cases "map_of acc x")
    case (Some v)
    show ?thesis by (rule getters_lookup [OF assms(1) Some]) (simp_all add: Ident Some)
  qed (simp add: Ident)
qed (use assms(2,3) in \<open>auto simp: typed_def invalidExpr_def split: if_splits\<close>)

lemma typed_valid:
  assumes "getters acc" and "is_source l" and "is_source r"
    and "\<And>a b. boolish (str a b)" and "\<And>a b. boolish (num a b)"
    and "\<And>a b. invalids (str a b) = invalids a @ invalids b" and "\<And>a b. invalids (num a b) = invalids a @ invalids b"
  shows "invalids (typed p m con str num (opt p acc l) (opt p acc r)) = [] \<and>
      boolish (typed p m con str num (opt p acc l) (opt p acc r)) \<longleftrightarrow> compare_with f g acc i l r \<noteq> None"
proof -
  have "text_of acc i n = None \<or> number_of acc i n = None" if "is_source n" for n
    using that by (cases n) (auto split: option.splits node.splits)
  then show ?thesis
    using assms(2-) operand_valid [of "opt p acc l"] operand_valid [of "opt p acc r"]
    by (auto simp: typed_def compare_with_def IsString_opt [OF assms(1), of _ _ i] IsNumber_opt [OF assms(1), of _ _ i]
        invalidExpr_def split: option.splits)
qed

lemma boolish_simps [simp]:
  "boolish (EqualString l r)" "boolish (EqualNumber l r)" "boolish (LessThanString l r)" "boolish (LessThanNumber l r)"
  "boolish (GreaterThanString l r)" "boolish (GreaterThanNumber l r)" "boolish (Equals l r)" "boolish (LessThan l r)"
  "boolish (GreaterThan l r)" "boolish (Contains l r)" "boolish (Not l)" "boolish (And l r)" "boolish (Or l r)"
  "boolish (Invalid m n)" "boolish (BoolNode b)" "boolish (BooleanGetter x f)" "\<not> boolish (Str x)" "\<not> boolish (Number y)" "\<not> boolish (Dur d)"
  "\<not> boolish (StringGetter x g)" "\<not> boolish (NumberGetter x h)"
  by (simp_all add: boolish_def)

lemma IsBoolean_opt:
  assumes "getters acc" and "is_source n" and "invalids (opt p acc n) = []"
  shows "IsBoolean (opt p acc n) \<longleftrightarrow> boolish (opt p acc n) \<and> \<not> junction n"
proof -
  have "IsBoolean m \<Longrightarrow> \<not> junction m" for m by (cases m) simp_all
  then show ?thesis using junction_opt [OF assms] by (auto simp: boolish_def)
qed

text \<open>The compiler finds no fault exactly with the flat and well-typed filters.\<close>

lemma opt_valid:
  assumes "getters acc" and "is_source n"
  shows "invalids (opt p acc n) = [] \<and> boolish (opt p acc n) \<longleftrightarrow> flat n \<and> truth acc i n \<noteq> None"
  using assms(2)
proof (induction n)
  case (Ident x)
  show ?case
  proof (cases "map_of acc x")
    case (Some v)
    show ?thesis by (rule getters_lookup [OF assms(1) Some]) (simp_all add: Some)
  qed simp
next
  case (And l r)
  then show ?case
    using IsBoolean_opt [OF assms(1), of l p] IsBoolean_opt [OF assms(1), of r p]
    by (auto simp: invalidExpr_def both_true_def split: option.splits)
next
  case (Or l r)
  then show ?case
    using IsBoolean_opt [OF assms(1), of l p] IsBoolean_opt [OF assms(1), of r p]
    by (auto simp: invalidExpr_def both_true_def split: option.splits)
next
  case (Not l)
  then show ?case
    using IsBoolean_opt [OF assms(1), of l p] by (auto simp: invalidExpr_def)
next
  case (Equals l r)
  then show ?case by (simp add: typed_valid [OF assms(1), where i = i and f = "(=)" and g = flt_eq] del: not_None_eq)
next
  case (LessThan l r)
  then show ?case by (simp add: typed_valid [OF assms(1), where i = i and f = "(<)" and g = flt_less] del: not_None_eq)
next
  case (GreaterThan l r)
  then show ?case by (simp add: typed_valid [OF assms(1), where i = i and f = "(>)" and g = "\<lambda>a b. flt_less b a"] del: not_None_eq)
next
  case (Contains l r)
  then show ?case using operand_valid [of "opt p acc l"] operand_valid [of "opt p acc r"]
    by (auto simp: IsString_opt [OF assms(1), of _ _ i] invalidExpr_def split: option.splits)
qed simp_all


section \<open>Evaluation\<close>

lemma eval_operand:
  assumes "getters acc" and "is_source n"
  shows "text_of acc i n = Some s \<Longrightarrow> transform (eval_node i) (opt p acc n) = Some (Str s)"
    and "number_of acc i n = Some x \<Longrightarrow> transform (eval_node i) (opt p acc n) = Some (Number x)"
  using assms(2) by (cases n; auto split: option.splits node.splits)+

lemma eval_typed:
  assumes "getters acc" and "is_source l" and "is_source r" and "compare_with f g acc i l r = Some b"
    and "\<And>a b a' b'. transform (eval_node i) a = Some (Str a') \<Longrightarrow> transform (eval_node i) b = Some (Str b') \<Longrightarrow>
      transform (eval_node i) (str a b) = Some (BoolNode (f a' b'))"
    and "\<And>a b a' b'. transform (eval_node i) a = Some (Number a') \<Longrightarrow> transform (eval_node i) b = Some (Number b') \<Longrightarrow>
      transform (eval_node i) (num a b) = Some (BoolNode (g a' b'))"
  shows "transform (eval_node i) (typed p m con str num (opt p acc l) (opt p acc r)) = Some (BoolNode b)"
proof -
  have excl: "text_of acc i n = None \<or> number_of acc i n = None" if "is_source n" for n
    using that by (cases n) (auto split: option.splits node.splits)
  show ?thesis
  proof (cases "text_of acc i l")
    case (Some a)
    then obtain b' where "text_of acc i r = Some b'" "b = f a b'"
      using assms(4) excl [OF assms(2)] by (auto simp: compare_with_def split: option.splits)
    with Some show ?thesis
      using assms(5) eval_operand(1) [OF assms(1,2)] eval_operand(1) [OF assms(1,3)]
      by (simp add: typed_def IsString_opt [OF assms(1), of _ _ i] assms(2,3))
  next
    case None
    then obtain a b' where "number_of acc i l = Some a" "number_of acc i r = Some b'" "b = g a b'"
      using assms(4) by (auto simp: compare_with_def split: option.splits)
    with None show ?thesis
      using assms(6) eval_operand(2) [OF assms(1,2)] eval_operand(2) [OF assms(1,3)]
      by (simp add: typed_def IsString_opt [OF assms(1), of _ _ i] IsNumber_opt [OF assms(1), of _ _ i] assms(2,3))
  qed
qed

text \<open>The compiled filter evaluates to the meaning of its source.\<close>

lemma opt_correct:
  assumes "getters acc" and "is_source n" and "flat n" and "truth acc i n = Some b"
  shows "transform (eval_node i) (opt p acc n) = Some (BoolNode b)"
  using assms(2-)
proof (induction n arbitrary: b)
  case (Ident x)
  then show ?case by (auto split: option.splits node.splits)
next
  case (And l r)
  then show ?case
    using IsBoolean_opt [OF assms(1), of l p] IsBoolean_opt [OF assms(1), of r p]
      opt_valid [OF assms(1), of l p i] opt_valid [OF assms(1), of r p i]
    by (auto simp: both_true_def split: option.splits)
next
  case (Or l r)
  then show ?case
    using IsBoolean_opt [OF assms(1), of l p] IsBoolean_opt [OF assms(1), of r p]
      opt_valid [OF assms(1), of l p i] opt_valid [OF assms(1), of r p i]
    by (auto simp: both_true_def split: option.splits)
next
  case (Not l)
  then show ?case
    using IsBoolean_opt [OF assms(1), of l p] opt_valid [OF assms(1), of l p i] by auto
next
  case (Equals l r)
  then show ?case by (auto intro!: eval_typed [OF assms(1), where f = "(=)" and g = flt_eq])
next
  case (LessThan l r)
  then show ?case by (auto intro!: eval_typed [OF assms(1), where f = "(<)" and g = flt_less])
next
  case (GreaterThan l r)
  then show ?case by (auto intro!: eval_typed [OF assms(1), where f = "(>)" and g = "\<lambda>a b. flt_less b a"])
next
  case (Contains l r)
  then show ?case
    using eval_operand(1) [OF assms(1), of l i _ p] eval_operand(1) [OF assms(1), of r i _ p]
    by (auto simp: IsString_opt [OF assms(1), of _ _ i] split: option.splits)
qed simp_all

section \<open>A text alone\<close>

text \<open>A filter that is only a text is looked for in every text field.\<close>

definition text_fields :: "accessors \<Rightarrow> (nat \<Rightarrow> string) list" where
  "text_fields acc = concat (map (\<lambda>(k, v). case v of StringGetter n f \<Rightarrow> [f] | _ \<Rightarrow> []) acc)"

definition yields :: "nat \<Rightarrow> node \<Rightarrow> bool \<Rightarrow> bool" where
  "yields i m b \<longleftrightarrow> transform (eval_node i) m = Some (BoolNode b) \<and> whole m \<and> invalids m = []"

definition covers_fields :: "nat \<Rightarrow> string \<Rightarrow> (nat \<Rightarrow> string) list \<Rightarrow> node \<times> node \<Rightarrow> bool" where
  "covers_fields i x fs = (\<lambda>(l, r).
     (case fs of
        [] \<Rightarrow> l = Nil \<and> r = Nil
      | [f] \<Rightarrow> r = Nil \<and> yields i l (string_contains (f i) x)
      | _ \<Rightarrow> (\<exists>a b. yields i l a \<and> yields i r b \<and> (a \<or> b \<longleftrightarrow> (\<exists>f \<in> set fs. string_contains (f i) x)))))"

lemma yields_contains: "yields i (Contains (StringGetter n f) (Str x)) (string_contains (f i) x)"
  by (simp add: yields_def)

lemma yields_or: "yields i l a \<Longrightarrow> yields i r b \<Longrightarrow> yields i (Or l r) (a \<or> b)"
  by (simp add: yields_def)

lemma yields_not_Nil: "\<not> yields i Nil b"
  by (simp add: yields_def)

lemma match_one_covers:
  assumes "covers_fields i x fs s"
  shows "covers_fields i x (fs @ [f]) (match_one (Str x) (StringGetter n f) s)"
proof (cases fs)
  case Nil
  with assms show ?thesis by (auto simp: covers_fields_def match_one_def yields_contains split: prod.splits)
next
  case (Cons f' fs')
  show ?thesis
  proof (cases fs')
    case Nil
    obtain l r where s: "s = (l, r)" by (cases s)
    from assms Cons Nil s have y: "r = node.Nil" "yields i l (string_contains (f' i) x)"
      by (auto simp: covers_fields_def)
    then have "l \<noteq> node.Nil" using yields_not_Nil by blast
    then have "match_one (Str x) (StringGetter n f) s = (l, Contains (StringGetter n f) (Str x))"
      by (simp add: s y(1) match_one_def)
    then show ?thesis
      using y(2) yields_contains [of i n f x] Cons Nil by (auto simp: covers_fields_def intro!: exI)
  next
    case (Cons f'' fs'')
    obtain l r where s: "s = (l, r)" by (cases s)
    from assms \<open>fs = f' # fs'\<close> Cons s obtain a b where y: "yields i l a" "yields i r b"
      "a \<or> b \<longleftrightarrow> (\<exists>f \<in> set fs. string_contains (f i) x)"
      by (auto simp: covers_fields_def)
    have "l \<noteq> Nil" "r \<noteq> Nil" using y yields_not_Nil by blast+
    then have "match_one (Str x) (StringGetter n f) s = (Contains (StringGetter n f) (Str x), Or l r)"
      by (simp add: s match_one_def)
    moreover have "yields i (Or l r) (a \<or> b)" using y(1,2) by (rule yields_or)
    moreover have "string_contains (f i) x \<or> (a \<or> b) \<longleftrightarrow> (\<exists>f \<in> set (fs @ [f]). string_contains (f i) x)"
      using y(3) by auto
    ultimately show ?thesis
      using yields_contains [of i n f x] \<open>fs = f' # fs'\<close> Cons
      unfolding covers_fields_def by (auto simp del: set_append)
  qed
qed

lemma fold_covers:
  "covers_fields i x fs s \<Longrightarrow> covers_fields i x (fs @ text_fields acc) (fold (\<lambda>(k, v). match_one (Str x) v) acc s)"
proof (induction acc arbitrary: fs s)
  case Nil
  then show ?case by (simp add: text_fields_def)
next
  case (Cons kv acc)
  obtain k v where kv: "kv = (k, v)" by (cases kv)
  show ?case
  proof (cases "\<exists>n f. v = StringGetter n f")
    case True
    then obtain n f where v: "v = StringGetter n f" by blast
    have "covers_fields i x ((fs @ [f]) @ text_fields acc) (fold (\<lambda>(k, v). match_one (Str x) v) acc (match_one (Str x) v s))"
      using Cons.IH match_one_covers [OF Cons.prems] v by blast
    then show ?thesis by (simp add: kv v text_fields_def)
  next
    case False
    then have "match_one (Str x) v s = s" "text_fields (kv # acc) = text_fields acc"
      by (auto simp: match_one_def text_fields_def kv split: node.splits prod.splits)
    then show ?thesis using Cons by (simp add: kv)
  qed
qed

lemma MatchAll_yields:
  assumes "2 \<le> length (text_fields acc)"
  shows "yields i (MatchAll acc (Str x)) (\<exists>f \<in> set (text_fields acc). string_contains (f i) x)"
proof -
  have "covers_fields i x (text_fields acc) (fold (\<lambda>(k, v). match_one (Str x) v) acc (Nil, Nil))"
    using fold_covers [of i x "[]" "(Nil, Nil)" acc] by (simp add: covers_fields_def)
  moreover obtain f f' fs where "text_fields acc = f # f' # fs"
    using assms by (cases "text_fields acc"; cases "tl (text_fields acc)") auto
  moreover obtain l r where "fold (\<lambda>(k, v). match_one (Str x) v) acc (Nil, Nil) = (l, r)" by fastforce
  ultimately obtain a b where y: "yields i l a" "yields i r b" "MatchAll acc (Str x) = Or l r"
    "a \<or> b \<longleftrightarrow> (\<exists>f \<in> set (text_fields acc). string_contains (f i) x)"
    unfolding covers_fields_def MatchAll_def by auto
  show ?thesis using yields_or [OF y(1,2)] by (simp only: y(3,4))
qed


section \<open>Queries\<close>

fun lone_text :: "accessors \<Rightarrow> node \<Rightarrow> string option" where
  "lone_text acc (Str x) = Some x"
| "lone_text acc (Ident x) = (if map_of acc x = None then Some x else None)"
| "lone_text acc n = None"

text \<open>Whether a filter means to keep a record, and whether it is one that can be compiled.\<close>

definition keeps :: "accessors \<Rightarrow> node \<Rightarrow> nat \<Rightarrow> bool" where
  "keeps acc f i =
     (case lone_text acc f of
        Some x \<Rightarrow> (\<exists>g \<in> set (text_fields acc). string_contains (g i) x)
      | None \<Rightarrow> truth acc i f = Some True)"

definition answerable :: "accessors \<Rightarrow> node \<Rightarrow> bool" where
  "answerable acc f \<longleftrightarrow> getters acc \<and> is_source f \<and>
     (if lone_text acc f \<noteq> None then 2 \<le> length (text_fields acc) else flat f \<and> truth acc 0 f \<noteq> None)"

lemma operand_typed:
  "text_of acc i n = None \<longleftrightarrow> text_of acc j n = None"
  "number_of acc i n = None \<longleftrightarrow> number_of acc j n = None"
  by (cases n; auto split: option.splits node.splits)+

lemma compare_None:
  "compare_with f g acc i l r = None \<longleftrightarrow>
     (text_of acc i l = None \<or> text_of acc i r = None) \<and> (number_of acc i l = None \<or> number_of acc i r = None)"
  by (simp add: compare_with_def split: option.splits)

lemma compare_typed: "compare_with f g acc i l r = None \<longleftrightarrow> compare_with f g acc j l r = None"
  by (simp only: compare_None operand_typed [of acc i l j] operand_typed [of acc i r j])

lemma truth_typed: "truth acc i n = None \<longleftrightarrow> truth acc j n = None"
proof (induction n)
  case (Contains l r)
  then show ?case
    using operand_typed(1) [of acc i l j] operand_typed(1) [of acc i r j] by (auto split: option.splits)
next
  case (Equals l r) show ?case unfolding truth.simps by (rule compare_typed)
next
  case (LessThan l r) show ?case unfolding truth.simps by (rule compare_typed)
next
  case (GreaterThan l r) show ?case unfolding truth.simps by (rule compare_typed)
qed (auto simp: both_true_def split: option.splits node.splits)

lemma opt_text: "is_source f \<Longrightarrow> getters acc \<Longrightarrow> StringFrom (opt p acc f) = map_option Str (lone_text acc f)"
proof (cases f)
  case (Ident x)
  assume "getters acc"
  show ?thesis
  proof (cases "map_of acc x")
    case (Some v)
    show ?thesis by (rule getters_lookup [OF \<open>getters acc\<close> Some]) (simp_all add: Ident Some)
  qed (simp add: Ident)
qed (auto simp: typed_def invalidExpr_def)

definition compiled :: "(gofloat \<Rightarrow> string) \<Rightarrow> accessors \<Rightarrow> node \<Rightarrow> orderBy list \<Rightarrow> int \<Rightarrow> node" where
  "compiled p acc f ord limit =
     (case lone_text acc f of Some x \<Rightarrow> MatchAll acc (Str x) | None \<Rightarrow> Query (opt p acc f) ord limit)"

lemma Dataset_Transform_compiled:
  assumes "getters acc" and "is_source f"
  shows "Dataset_Transform p acc (Query f ord limit) = Some (compiled p acc f ord limit)"
  using opt_text [OF assms(2,1), of p]
  by (simp add: Dataset_Transform_def transform_compile [OF assms] opt_compiled [OF assms] compiled_def split: option.split)

lemma opt_whole:
  assumes "getters acc" and "is_source n"
  shows "whole (opt p acc n)"
  using assms(2)
proof (induction n)
  case (Ident x)
  show ?case
  proof (cases "map_of acc x")
    case (Some v)
    show ?thesis by (rule getters_lookup [OF assms(1) Some]) (simp_all add: Some)
  qed simp
qed (auto simp: typed_def invalidExpr_def)

lemma yields_Filter: "yields i m b \<Longrightarrow> Filter i m = Some (Inr b)"
  by (simp add: yields_def Filter_def)

lemma compiled_yields:
  assumes "answerable acc f"
  shows "yields i (compiled p acc f ord limit) (keeps acc f i)"
proof (cases "lone_text acc f")
  case (Some x)
  then show ?thesis using assms MatchAll_yields by (simp add: answerable_def compiled_def keeps_def)
next
  case None
  with assms have *: "getters acc" "is_source f" "flat f" "truth acc i f \<noteq> None"
    using truth_typed [of acc 0 f i] by (auto simp: answerable_def)
  then obtain b where "truth acc i f = Some b" by auto
  with * opt_correct [OF *(1-3), of i b p] opt_valid [OF *(1,2), of p i] opt_whole [OF *(1,2)] None show ?thesis
    by (simp add: compiled_def keeps_def yields_def)
qed

lemma select_nths:
  assumes "\<And>j. Filter j m = Some (Inr (keep j))"
  shows "select m i xs = Some (Inr (nths xs {j. keep (i + j)}))"
  by (induction xs arbitrary: i) (simp_all add: assms nths_Cons)

lemma sort_chain_known:
  assumes "\<forall>ob \<in> set obs. ob_Ident ob \<in> fst ` set ss"
  shows "sort_chain ss obs = Inr (map (\<lambda>ob. Comparator (the (map_of ss (ob_Ident ob))) ob) obs)"
  using assms by (induction obs) (auto simp: map_of_eq_None_iff split: option.split)

lemma default_order_known: "ob \<in> set (default_order ss) \<Longrightarrow> ob_Ident ob \<in> fst ` set ss"
  by (force simp: default_order_def)

definition ordering :: "'a sorters \<Rightarrow> orderBy list \<Rightarrow> 'a \<Rightarrow> 'a \<Rightarrow> bool" where
  "ordering ss ord =
     chain_by (map (\<lambda>ob. Comparator (the (map_of ss (ob_Ident ob))) ob) (if ord = [] then default_order ss else ord))"

lemma query_found:
  assumes "answerable (Accessors d) f" and "\<forall>ob \<in> set ord. ob_Ident ob \<in> fst ` set (Sorters d)" and "0 \<le> limit"
    and "strict_weak (ordering (Sorters d) ord)"
  defines "found \<equiv> sort_by (ordering (Sorters d) ord) (nths (Source d) {i. keeps (Accessors d) f i})"
    and "n \<equiv> if limit = 0 then 20 else nat limit"
  shows "run_query p d (f, ord, limit) =
    Some (Inr \<lparr>Total = int (length found), Records = take n found, FacetList = FacetsOf d found (min n (length found))\<rparr>) \<and>
    in_order (ordering (Sorters d) ord) found"
proof -
  define m where "m = compiled p (Accessors d) f ord limit"
  have y: "yields i m (keeps (Accessors d) f i)" for i using compiled_yields [OF assms(1)] by (simp add: m_def)
  then have valid: "IsFailure m = Some None" by (simp add: IsFailure_invalids yields_def)
  have sel: "select m 0 (Source d) = Some (Inr (nths (Source d) {i. keeps (Accessors d) f i}))"
    using select_nths [OF yields_Filter [OF y], of 0] by simp
  have "Sorters_Sort (Sorters d) (if ord = [] then default_order (Sorters d) else ord) = Inr (ordering (Sorters d) ord)"
    using assms(2) sort_chain_known [of ord "Sorters d"] sort_chain_known [of "default_order (Sorters d)" "Sorters d"]
      default_order_known [of _ "Sorters d"]
    by (simp add: Sorters_Sort_def ordering_def)
  then have "run_query p d (f, ord, limit) = map_option Inr (cut_result (FacetsOf d) limit found)"
    using assms(1) Dataset_Transform_compiled [of "Accessors d" f p ord limit]
    by (simp add: run_query_def answerable_def m_def [symmetric] valid sel found_def)
  also have "\<dots> = Some (Inr \<lparr>Total = int (length found), Records = take n found, FacetList = FacetsOf d found (min n (length found))\<rparr>)"
    using assms(3) by (auto simp: cut_result_def n_def Let_def min_def nat_le_iff)
  finally show ?thesis using strict_weak.in_order_sort [OF assms(4)] by (simp add: found_def)
qed

text \<open>
  C5. A query that can be compiled - fields and texts compared with their own kind, and no AND or OR below another
  operator - gives the records its filter means to keep, stably sorted by the fields of its ORDER BY (or the
  default ones), cut to the limit (20 by default), with their number before the cut. A text alone is searched
  for in all text fields.
\<close>

theorem query_correct:
  assumes "answerable (Accessors d) f" and "\<forall>ob \<in> set ord. ob_Ident ob \<in> fst ` set (Sorters d)" and "0 \<le> limit"
    and "strict_weak (ordering (Sorters d) ord)"
  defines "found \<equiv> sort_by (ordering (Sorters d) ord) (nths (Source d) {i. keeps (Accessors d) f i})"
    and "n \<equiv> if limit = 0 then 20 else nat limit"
  shows "run_query p d (f, ord, limit) =
    Some (Inr \<lparr>Total = int (length found), Records = take n found, FacetList = FacetsOf d found (min n (length found))\<rparr>) \<and>
    in_order (ordering (Sorters d) ord) found"
  unfolding found_def n_def by (rule query_found [OF assms(1-4)])

definition sample_dataset :: "(string \<times> string) dataset" where
  "sample_dataset =
     (let rows = [(''abc'', ''de''), (''xyz'', ''at''), (''aaa'', ''nl'')]
      in \<lparr>Source = rows,
          Accessors = [(''Name'', StringGetter ''Name'' (\<lambda>i. fst (rows ! i))), (''Country'', StringGetter ''Country'' (\<lambda>i. snd (rows ! i)))],
          Sorters = [(''Name'', \<lparr>Asc = (\<lambda>a b. fst a < fst b), Desc = (\<lambda>a b. fst a > fst b), AscDefault = True, DescDefault = False\<rparr>)],
          FacetsOf = (\<lambda>_ _. [])\<rparr>)"

theorem query_correct_witness:
  "run_query (\<lambda>_. []) sample_dataset (Contains (Ident ''Name'') (Ident ''A''), [], 1) =
     Some (Inr \<lparr>Total = 2, Records = [(''aaa'', ''nl'')], FacetList = []\<rparr>)"
proof -
  have "answerable (Accessors sample_dataset) (Contains (Ident ''Name'') (Ident ''A''))"
    by (simp add: answerable_def getters_def sample_dataset_def Let_def)
  moreover have "strict_weak (ordering (Sorters sample_dataset) [])"
    unfolding ordering_def by (rule strict_weak_chain) (auto simp: sample_dataset_def Let_def default_order_def Comparator_def strict_weak_key)
  ultimately have q: "run_query (\<lambda>_. []) sample_dataset (Contains (Ident ''Name'') (Ident ''A''), [], 1) =
      (let found = sort_by (ordering (Sorters sample_dataset) []) (nths (Source sample_dataset)
             {i. keeps (Accessors sample_dataset) (Contains (Ident ''Name'') (Ident ''A'')) i})
       in Some (Inr \<lparr>Total = int (length found), Records = take 1 found, FacetList = FacetsOf sample_dataset found (min 1 (length found))\<rparr>))"
    using query_correct [of sample_dataset "Contains (Ident ''Name'') (Ident ''A'')" "[]" 1 "\<lambda>_. []"] by (simp add: Let_def)
  have "map (keeps (Accessors sample_dataset) (Contains (Ident ''Name'') (Ident ''A''))) [0, 1, 2] = [True, False, True]"
    by code_simp
  then have "nths (Source sample_dataset) {i. keeps (Accessors sample_dataset) (Contains (Ident ''Name'') (Ident ''A'')) i} =
      [(''abc'', ''de''), (''aaa'', ''nl'')]"
    by (simp add: sample_dataset_def Let_def nths_Cons numeral_2_eq_2)
  moreover have "sort_by (ordering (Sorters sample_dataset) []) [(''abc'', ''de''), (''aaa'', ''nl'')] =
      [(''aaa'', ''nl''), (''abc'', ''de'')]"
    by code_simp
  ultimately have e: "sort_by (ordering (Sorters sample_dataset) [])
      (nths (Source sample_dataset) {i. keeps (Accessors sample_dataset) (Contains (Ident ''Name'') (Ident ''A'')) i}) =
      [(''aaa'', ''nl''), (''abc'', ''de'')]"
    by simp
  have "FacetsOf sample_dataset = (\<lambda>_ _. [])" by (simp add: sample_dataset_def Let_def)
  with q show ?thesis unfolding e by simp
qed

text \<open>
  A filter with an operator that is not well typed, or has an AND or OR below another operator (so \<open>a AND b AND c\<close>),
  is refused with an error before any record is looked at; nothing panics.
\<close>

theorem query_rejects:
  assumes "getters (Accessors d)" and "is_source f" and "junction f \<or> (\<exists>l r. f \<in> {Not l, Equals l r, Contains l r, LessThan l r, GreaterThan l r})"
    and "\<not> (flat f \<and> truth (Accessors d) 0 f \<noteq> None)"
  shows "\<exists>e. run_query p d (f, ord, limit) = Some (Inl e) \<and> e \<in> set (invalids (opt p (Accessors d) f))"
proof -
  have "lone_text (Accessors d) f = None" "boolish (opt p (Accessors d) f)"
    using assms(3) by (cases f; auto simp: typed_def invalidExpr_def)+
  moreover have "invalids (opt p (Accessors d) f) \<noteq> []"
    using opt_valid [OF assms(1,2), of p 0] assms(4) calculation(2) by blast
  ultimately show ?thesis
    using IsFailure_invalids [of "Query (opt p (Accessors d) f) ord limit"] opt_whole [OF assms(1,2), of p]
    by (auto simp: run_query_def Dataset_Transform_compiled [OF assms(1,2)] compiled_def split: list.splits)
qed

theorem query_rejects_witness:
  "\<exists>e. run_query (\<lambda>_. []) sample_dataset
     (And (Equals (Ident ''Name'') (Str ''abc'')) (And (Equals (Ident ''Country'') (Str ''de'')) (Contains (Ident ''Name'') (Str ''b''))), [], 0) =
     Some (Inl e)"
proof -
  have "getters (Accessors sample_dataset)" by (simp add: getters_def sample_dataset_def Let_def)
  from query_rejects [OF this, of "And (Equals (Ident ''Name'') (Str ''abc''))
      (And (Equals (Ident ''Country'') (Str ''de'')) (Contains (Ident ''Name'') (Str ''b'')))" "\<lambda>_. []" "[]" 0]
  show ?thesis by auto
qed

text \<open>What a filter evaluates to when the compiler found no fault: a filter of another type is an error on every record.\<close>

definition boolean_filter :: "accessors \<Rightarrow> node \<Rightarrow> bool" where
  "boolean_filter acc f \<longleftrightarrow> lone_text acc f \<noteq> None \<or> truth acc 0 f \<noteq> None \<or> (\<exists>d. f = Dur d)"

lemma unboolish_Filter:
  assumes "getters acc" and "is_source f" and "lone_text acc f = None" and "\<not> boolish (opt p acc f)"
  shows "Filter i (Query (opt p acc f) ord limit) = Some (if boolean_filter acc f then Inr (keeps acc f i) else Inl ''unknown return'')"
proof (cases f)
  case (Ident x)
  with assms(3) obtain v where v: "map_of acc x = Some v" by (auto split: if_splits)
  show ?thesis
    by (rule getters_lookup [OF assms(1) v]) (use assms(4) in \<open>simp_all add: Ident v Filter_def boolean_filter_def keeps_def\<close>)
qed (use assms(2-4) in \<open>auto simp: typed_def invalidExpr_def Filter_def boolean_filter_def keeps_def\<close>)

text \<open>
  C17. The compiler is a type checker: a filter of the parser that it accepts never panics when it is evaluated, whatever the record, and
  gives the boolean that the filter means, or the same error on every record when its type is not boolean (a lone number). The
  dataset has two text fields or more, or the filter is not a lone text.
\<close>

theorem accepted_filters_run:
  assumes "getters acc" and "is_source f" and "lone_text acc f = None \<or> 2 \<le> length (text_fields acc)"
    and "Dataset_Transform p acc (Query f ord limit) = Some m" and "IsFailure m = Some None"
  shows "Filter i m = Some (if boolean_filter acc f then Inr (keeps acc f i) else Inl ''unknown return'')"
proof (cases "lone_text acc f = None \<and> \<not> boolish (opt p acc f)")
  case True
  then show ?thesis using assms(4) unboolish_Filter [OF assms(1,2)]
    by (auto simp: Dataset_Transform_compiled [OF assms(1,2)] compiled_def)
next
  case False
  have m: "m = compiled p acc f ord limit" using assms(4) by (simp add: Dataset_Transform_compiled [OF assms(1,2)])
  have "answerable acc f"
  proof (cases "lone_text acc f")
    case None
    with assms(5) m opt_whole [OF assms(1,2), of p] have "invalids (opt p acc f) = []"
      by (simp add: compiled_def IsFailure_invalids split: list.splits)
    with False None opt_valid [OF assms(1,2), of p 0] assms(1,2) show ?thesis by (simp add: answerable_def)
  qed (use assms(1-3) in \<open>simp add: answerable_def\<close>)
  moreover from this have "boolean_filter acc f" by (auto simp: answerable_def boolean_filter_def split: if_splits)
  ultimately show ?thesis using yields_Filter compiled_yields m by simp
qed

theorem accepted_filters_run_witness:
  "Filter 1 (compiled (\<lambda>_. []) (Accessors sample_dataset) (Not (Contains (Ident ''Name'') (Str ''y''))) [] 0) = Some (Inr False) \<and>
   Filter 1 (compiled (\<lambda>_. []) (Accessors sample_dataset) (Number (Fin 1)) [] 0) = Some (Inl ''unknown return'')"
proof -
  let ?acc = "Accessors sample_dataset" and ?f = "Not (Contains (Ident ''Name'') (Str ''y''))"
  have g: "getters ?acc" by (simp add: getters_def sample_dataset_def Let_def)
  have v: "IsFailure (compiled (\<lambda>_. []) ?acc ?f [] 0) = Some None" "IsFailure (compiled (\<lambda>_. []) ?acc (Number (Fin 1)) [] 0) = Some None"
    by (simp_all add: compiled_def sample_dataset_def Let_def IsFailure_invalids)
  have "str_contains (to_lower ''xyz'') (to_lower ''y'')" by code_simp
  then have t: "boolean_filter ?acc ?f" "\<not> keeps ?acc ?f 1" "\<not> boolean_filter ?acc (Number (Fin 1))"
    by (simp_all add: boolean_filter_def keeps_def sample_dataset_def Let_def string_contains_def)
  show ?thesis
    using accepted_filters_run [OF g _ _ Dataset_Transform_compiled [OF g] v(1), of 1]
      accepted_filters_run [OF g _ _ Dataset_Transform_compiled [OF g] v(2), of 1] t
    by simp
qed


section \<open>Facets\<close>

text \<open>On how many of the first \<open>len\<close> records the field has the value.\<close>

definition occurrences :: "(nat \<Rightarrow> string) \<Rightarrow> nat \<Rightarrow> string \<Rightarrow> int" where
  "occurrences g len v = int (length (filter (\<lambda>i. g i = v) [0..<len]))"

lemma tally_lookup:
  "map_of (tally x ys) v = (if v = x then Some (case map_of ys x of None \<Rightarrow> 1 | Some k \<Rightarrow> k + 1) else map_of ys v)"
  by (induction ys) auto

lemma tally_keys: "fst ` set (tally x ys) = insert x (fst ` set ys)"
proof (induction ys)
  case (Cons kv ys)
  obtain k c where "kv = (k, c)" by (cases kv)
  with Cons show ?case by auto
qed simp

lemma tally_distinct: "distinct (map fst ys) \<Longrightarrow> distinct (map fst (tally x ys))"
proof (induction ys)
  case (Cons kv ys)
  obtain k c where kv: "kv = (k, c)" by (cases kv)
  from Cons tally_keys [of x ys] show ?case by (auto simp: kv)
qed simp

lemma string_summary_Suc: "string_summary s (Suc len) = tally (sf_Getter s len) (string_summary s len)"
  by (simp add: string_summary_def)

lemma string_summary_spec:
  "distinct (map fst (string_summary s len)) \<and>
   map_of (string_summary s len) v =
     (if occurrences (sf_Getter s) len v = 0 then None else Some (occurrences (sf_Getter s) len v))"
proof (induction len arbitrary: v)
  case 0
  then show ?case by (simp add: string_summary_def occurrences_def)
next
  case (Suc len)
  have "occurrences (sf_Getter s) (Suc len) v = occurrences (sf_Getter s) len v + (if v = sf_Getter s len then 1 else 0)"
    by (auto simp: occurrences_def)
  moreover have "0 \<le> occurrences (sf_Getter s) len v" by (simp add: occurrences_def)
  ultimately show ?case using Suc tally_distinct by (auto simp: string_summary_Suc tally_lookup)
qed

lemma string_summary_set:
  "set (string_summary s len) = {(v, occurrences (sf_Getter s) len v) | v. occurrences (sf_Getter s) len v \<noteq> 0}"
proof -
  have "(v, k) \<in> set (string_summary s len) \<longleftrightarrow> map_of (string_summary s len) v = Some k" for v k
    using string_summary_spec [of s len v] map_of_eq_Some_iff [of "string_summary s len" v k] by blast
  then show ?thesis using string_summary_spec by (auto split: if_splits)
qed

lemma strict_weak_card: "strict_weak card_less"
proof -
  have "strict_weak (\<lambda>a b :: card. c_Value a > c_Value b \<or> (\<not> c_Value b > c_Value a \<and> c_Name a > c_Name b))"
    by (intro strict_weak_then strict_weak_key_desc)
  moreover have "(\<lambda>a b :: card. c_Value a > c_Value b \<or> (\<not> c_Value b > c_Value a \<and> c_Name a > c_Name b)) = card_less"
    by (auto simp: fun_eq_iff card_less_def)
  ultimately show ?thesis by (simp only:)
qed

definition frequent :: "string_facet \<Rightarrow> nat \<Rightarrow> string set" where
  "frequent s len = {v. 2 \<le> occurrences (sf_Getter s) len v}"

lemma frequent_cards:
  "set (map (card_of s) (filter (\<lambda>(name, cnt). \<not> cnt < 2) (string_summary s len))) =
     (\<lambda>v. card_of s (v, occurrences (sf_Getter s) len v)) ` frequent s len"
  by (auto simp: string_summary_set frequent_def)

lemma frequent_number: "length (filter (\<lambda>(name, cnt). \<not> cnt < 2) (string_summary s len)) = card (frequent s len)"
proof -
  let ?l = "filter (\<lambda>(name, cnt). \<not> cnt < 2) (string_summary s len)"
  have "distinct (map fst ?l)"
    using string_summary_spec [of s len] distinct_map_filter by blast
  then have "length ?l = card (fst ` set ?l)" by (metis distinct_card length_map set_map)
  also have "fst ` set ?l = frequent s len" by (force simp: string_summary_set frequent_def)
  finally show ?thesis .
qed

text \<open>
  A facet of a text field has a card for each value that at least two of the records share, with the number of
  those records; when there are more than \<open>n\<close> it has the \<open>n\<close> with the highest counts. The counts go down, and
  equal counts are in descending order of the names.
\<close>

theorem facet_top:
  fixes s len n
  defines "shown \<equiv> f_Top (StringFacet_Facet s (string_summary s len) n)"
    and "card_for \<equiv> \<lambda>v. card_of s (v, occurrences (sf_Getter s) len v)"
  shows "length shown = min n (card (frequent s len)) \<and> in_order card_less shown \<and> set shown \<subseteq> card_for ` frequent s len \<and>
    (\<forall>v. v \<in> frequent s len \<and> card_for v \<notin> set shown \<longrightarrow> length shown = n \<and> (\<forall>c \<in> set shown. \<not> card_less (card_for v) c))"
proof -
  define cards where "cards = sort_by card_less (map (card_of s) (filter (\<lambda>(name, cnt). \<not> cnt < 2) (string_summary s len)))"
  have shown: "shown = take n cards" by (simp add: shown_def StringFacet_Facet_def cards_def Let_def take_all_iff min_def)
  have len: "length cards = card (frequent s len)" by (simp add: cards_def frequent_number)
  have elems: "set cards = card_for ` frequent s len" by (simp add: cards_def card_for_def frequent_cards del: set_map)
  have sorted: "in_order card_less cards" unfolding cards_def by (rule strict_weak.in_order_sort [OF strict_weak_card])
  then have "in_order card_less (take n cards @ drop n cards)" by simp
  then have parts: "in_order card_less (take n cards)" "\<And>a b. a \<in> set (take n cards) \<Longrightarrow> b \<in> set (drop n cards) \<Longrightarrow> \<not> card_less b a"
    unfolding in_order_def sorted_wrt_append by blast+
  have "length shown = n \<and> (\<forall>c \<in> set shown. \<not> card_less (card_for v) c)"
    if "v \<in> frequent s len" "card_for v \<notin> set shown" for v
  proof -
    have "card_for v \<in> set (take n cards @ drop n cards)" using elems that(1) by simp
    then have d: "card_for v \<in> set (drop n cards)" using that(2) by (simp add: shown del: append_take_drop_id)
    then have "n \<le> length cards" by (cases "n \<le> length cards") auto
    with d parts(2) show ?thesis by (auto simp: shown)
  qed
  moreover have "set shown \<subseteq> card_for ` frequent s len" using set_take_subset [of n cards] by (simp add: shown elems)
  moreover have "length shown = min n (card (frequent s len))" "in_order card_less shown"
    using parts(1) len by (simp_all add: shown min.commute)
  ultimately show ?thesis by blast
qed

theorem facet_top_witness:
  "length (f_Top (StringFacet_Facet \<lparr>sf_Getter = (\<lambda>i. if i < 3 then ''b'' else ''a''), sf_Field = ''F'', sf_Name = ''N'', sf_Contains = False\<rparr>
     (string_summary \<lparr>sf_Getter = (\<lambda>i. if i < 3 then ''b'' else ''a''), sf_Field = ''F'', sf_Name = ''N'', sf_Contains = False\<rparr> 5) 1)) = 1"
proof -
  let ?s = "\<lparr>sf_Getter = (\<lambda>i::nat. if i < 3 then ''b'' else ''a''), sf_Field = ''F'', sf_Name = ''N'', sf_Contains = False\<rparr>"
  have "''b'' \<in> frequent ?s 5" by (simp add: frequent_def occurrences_def upt_rec)
  moreover have "finite (frequent ?s 5)"
  proof (rule finite_subset)
    show "frequent ?s 5 \<subseteq> fst ` set (string_summary ?s 5)" by (force simp: frequent_def string_summary_set)
  qed simp
  ultimately have "1 \<le> card (frequent ?s 5)" by (metis card_0_eq empty_iff less_one not_le)
  then show ?thesis using facet_top [of ?s 5 1] by simp
qed

end
