(* ===== verification/Columns.thy ===== *)
theory Columns
  imports Queries
begin

text \<open>
  The datasets of the dashboards are generated code of one shape: an accessor, an ascending and a descending comparison
  for each field. A column is the key of a record for such a field, and a dataset is its columns, the fields
  sorted by default, and its facets.
\<close>

datatype 'r key = TextKey "'r \<Rightarrow> string" | NumberKey "'r \<Rightarrow> int" | BoolKey "'r \<Rightarrow> bool"

type_synonym 'r columns = "(string \<times> 'r key) list"

text \<open>A number is converted to a 64 bit float for the filters, but compared as the integer it is.\<close>

definition accessor_of :: "'r list \<Rightarrow> string \<times> 'r key \<Rightarrow> string \<times> node" where
  "accessor_of rows = (\<lambda>(name, k).
     (name, case k of
        TextKey f \<Rightarrow> StringGetter name (\<lambda>i. f (rows ! i))
      | NumberKey f \<Rightarrow> NumberGetter name (\<lambda>i. flt_of_int binary64 (f (rows ! i)))
      | BoolKey f \<Rightarrow> BooleanGetter name (\<lambda>i. f (rows ! i))))"

text \<open>The generator writes the comparison of booleans with == and !=.\<close>

fun asc_of :: "'r key \<Rightarrow> 'r \<Rightarrow> 'r \<Rightarrow> bool" where
  "asc_of (TextKey f) l r = (f l < f r)"
| "asc_of (NumberKey f) l r = (f l < f r)"
| "asc_of (BoolKey f) l r = (f l = f r)"

fun desc_of :: "'r key \<Rightarrow> 'r \<Rightarrow> 'r \<Rightarrow> bool" where
  "desc_of (TextKey f) l r = (f l > f r)"
| "desc_of (NumberKey f) l r = (f l > f r)"
| "desc_of (BoolKey f) l r = (f l \<noteq> f r)"

definition sorter_of :: "string list \<Rightarrow> string list \<Rightarrow> string \<times> 'r key \<Rightarrow> string \<times> 'r sorter" where
  "sorter_of ascs descs = (\<lambda>(name, k).
     (name, \<lparr>Asc = asc_of k, Desc = desc_of k, AscDefault = name \<in> set ascs, DescDefault = name \<in> set descs\<rparr>))"

definition text_facet :: "'r list \<Rightarrow> ('r \<Rightarrow> string) \<Rightarrow> bool \<Rightarrow> string \<Rightarrow> string \<Rightarrow> retriever" where
  "text_facet rows f contains field name =
     StringRetriever \<lparr>sf_Getter = (\<lambda>i. f (rows ! i)), sf_Field = field, sf_Name = name, sf_Contains = contains\<rparr>"

datatype scale = Plain | DurationScale | SizeScale | TimeAgoScale

definition range_facet :: "'r list \<Rightarrow> ('r \<Rightarrow> int) \<Rightarrow> scale \<Rightarrow> string \<Rightarrow> string \<Rightarrow> retriever" where
  "range_facet rows f s field name =
     RangesRetriever \<lparr>nr_Getter = (\<lambda>i. flt_of_int binary64 (f (rows ! i))), nr_Field = field, nr_Name = name,
       nr_Duration = (s = DurationScale), nr_Size = (s = SizeScale), nr_TimeAgo = (s = TimeAgoScale)\<rparr>"

definition dataset_of :: "'r columns \<Rightarrow> 'r columns \<Rightarrow> string list \<Rightarrow> string list \<Rightarrow> ('r list \<Rightarrow> retriever list)
    \<Rightarrow> (duration \<Rightarrow> string) \<Rightarrow> time \<Rightarrow> 'r list \<Rightarrow> 'r dataset" where
  "dataset_of cols sortable ascs descs facets dur now rows =
     \<lparr>Source = rows, Accessors = map (accessor_of rows) cols, Sorters = map (sorter_of ascs descs) sortable,
      FacetsOf = (\<lambda>filtered topN. Facets dur now (facets filtered) (length filtered) topN)\<rparr>"

section \<open>What every dataset of columns has\<close>

lemma getters_columns: "getters (map (accessor_of rows) cols)"
  by (auto simp: getters_def accessor_of_def split: key.splits)

fun is_bool :: "'r key \<Rightarrow> bool" where
  "is_bool (BoolKey f) = True"
| "is_bool k = False"

lemma strict_weak_column:
  assumes "\<not> is_bool k"
  shows "strict_weak (asc_of k)" "strict_weak (desc_of k)"
proof -
  have texts: "asc_of (TextKey f) = (\<lambda>l r. f l < f r)" "desc_of (TextKey f) = (\<lambda>l r. f l > f r)" for f :: "'a \<Rightarrow> string"
    by (simp_all add: fun_eq_iff)
  have numbers: "asc_of (NumberKey f) = (\<lambda>l r. f l < f r)" "desc_of (NumberKey f) = (\<lambda>l r. f l > f r)" for f :: "'a \<Rightarrow> int"
    by (simp_all add: fun_eq_iff)
  show "strict_weak (asc_of k)"
  proof (cases k)
    case (TextKey f)
    show ?thesis unfolding TextKey texts by (rule strict_weak_key)
  next
    case (NumberKey f)
    show ?thesis unfolding NumberKey numbers by (rule strict_weak_key)
  qed (use assms in simp)
  show "strict_weak (desc_of k)"
  proof (cases k)
    case (TextKey f)
    show ?thesis unfolding TextKey texts by (rule strict_weak_key_desc)
  next
    case (NumberKey f)
    show ?thesis unfolding NumberKey numbers by (rule strict_weak_key_desc)
  qed (use assms in simp)
qed

text \<open>Sorting by fields that are not boolean is sorting by a strict weak order.\<close>

lemma strict_weak_columns:
  assumes "\<forall>ob \<in> set ord. \<exists>k. map_of cols (ob_Ident ob) = Some k \<and> \<not> is_bool k"
    and "\<forall>(name, k) \<in> set cols. name \<in> set ascs \<or> name \<in> set descs \<longrightarrow> \<not> is_bool k" and "distinct (map fst cols)"
  shows "strict_weak (ordering (map (sorter_of ascs descs) cols) ord)"
proof -
  have lookup: "map_of (map (sorter_of ascs descs) cols) name = map_option (\<lambda>k. snd (sorter_of ascs descs (name, k))) (map_of cols name)" for name
    by (induction cols) (auto simp: sorter_of_def)
  have good: "strict_weak (Comparator (the (map_of (map (sorter_of ascs descs) cols) (ob_Ident ob))) ob)"
    if "map_of cols (ob_Ident ob) = Some k" "\<not> is_bool k" for ob k
    using that strict_weak_column [of k] unfolding lookup by (simp add: sorter_of_def Comparator_def)
  have "\<exists>k. map_of cols (ob_Ident ob) = Some k \<and> \<not> is_bool k"
    if "ob \<in> set (default_order (map (sorter_of ascs descs) cols))" for ob
  proof -
    from that obtain name k where "(name, k) \<in> set cols" "ob_Ident ob = name" "name \<in> set ascs \<or> name \<in> set descs"
      by (auto simp: default_order_def sorter_of_def)
    then show ?thesis using assms(2,3) by (auto simp: map_of_eq_Some_iff)
  qed
  then have "\<exists>k. map_of cols (ob_Ident ob) = Some k \<and> \<not> is_bool k"
    if "ob \<in> set (if ord = [] then default_order (map (sorter_of ascs descs) cols) else ord)" for ob
    using that assms(1) by (auto split: if_splits)
  note known = this
  show ?thesis unfolding ordering_def
  proof (rule strict_weak_chain)
    fix c assume "c \<in> set (map (\<lambda>ob. Comparator (the (map_of (map (sorter_of ascs descs) cols) (ob_Ident ob))) ob)
      (if ord = [] then default_order (map (sorter_of ascs descs) cols) else ord))"
    then obtain ob where "ob \<in> set (if ord = [] then default_order (map (sorter_of ascs descs) cols) else ord)"
      "c = Comparator (the (map_of (map (sorter_of ascs descs) cols) (ob_Ident ob))) ob"
      unfolding set_map image_iff by blast
    with known good show "strict_weak c" by blast
  qed
qed

text \<open>Sorting by a boolean field is not: every record would come before itself.\<close>

lemma not_strict_weak_bool: "\<not> strict_weak (asc_of (BoolKey f))"
  using strict_weak.irrefl by fastforce

end
