(* ===== verification/Dashboards.thy ===== *)
theory Dashboards
  imports Columns Pool Probe
begin

text \<open>
  The pages of the dashboard that list the pool (\<open>Pool.HttpGet\<close> and \<open>pool/apientry_dataset.go\<close>), the blacklist and the
  proxies that wait for a re-verification (\<open>probe/blacklist.go\<close>, \<open>probe/reverify.go\<close> and their generated datasets). The parser
  of queries, the printing of numbers and durations and the clock are arguments.
\<close>

type_synonym parser = "string \<Rightarrow> (string + node \<times> orderBy list \<times> int) option"

section \<open>The pool\<close>

record api_entry =
  a_Proxy :: proxy
  a_FirstSeen :: int
  a_LastSeen :: int
  a_ReanimateAfter :: time
  a_Ok :: bool
  a_Speed :: duration
  a_Timeouts :: int
  a_Offered :: int
  a_Reanimated :: int
  a_Succeed :: int
  a_HourOffered :: "int list"
  a_HourSucceed :: "int list"
  a_Country :: string
  a_Provider :: string
  a_ASN :: "16 word"

definition api_columns :: "api_entry columns" where
  "api_columns =
     [(''Proxy'', TextKey (\<lambda>r. String (a_Proxy r))),
      (''FirstSeen'', NumberKey a_FirstSeen),
      (''LastSeen'', NumberKey a_LastSeen),
      (''ReanimateAfter'', NumberKey (\<lambda>r. unix (a_ReanimateAfter r))),
      (''Ok'', BoolKey a_Ok),
      (''Speed'', NumberKey a_Speed),
      (''Timeouts'', NumberKey a_Timeouts),
      (''Offered'', NumberKey a_Offered),
      (''Reanimated'', NumberKey a_Reanimated),
      (''Succeed'', NumberKey a_Succeed),
      (''Country'', TextKey a_Country),
      (''Provider'', TextKey a_Provider),
      (''ASN'', NumberKey (\<lambda>r. uint (a_ASN r)))]"

definition getProxyProtocol :: "api_entry \<Rightarrow> string" where
  "getProxyProtocol r = Scheme (a_Proxy r)"

definition api_facets :: "api_entry list \<Rightarrow> retriever list" where
  "api_facets rows =
     [text_facet rows getProxyProtocol True ''Proxy'' ''Protocol'',
      text_facet rows a_Country False ''Country'' ''Country'',
      range_facet rows a_FirstSeen TimeAgoScale ''FirstSeen'' ''First seen'',
      range_facet rows a_LastSeen TimeAgoScale ''LastSeen'' ''Last seen'',
      range_facet rows a_Speed DurationScale ''Speed'' ''Speed'',
      range_facet rows a_Succeed Plain ''Succeed'' ''Succeed'',
      range_facet rows a_Offered Plain ''Offered'' ''Offered'']"

definition ApiEntryDataset :: "(duration \<Rightarrow> string) \<Rightarrow> time \<Rightarrow> api_entry list \<Rightarrow> api_entry dataset" where
  "ApiEntryDataset dur now rows = dataset_of api_columns api_columns [] [''LastSeen''] api_facets dur now rows"

definition api_row :: "(proxy \<Rightarrow> info) \<Rightarrow> entry \<Rightarrow> api_entry" where
  "api_row lookup v =
     (let info = lookup (e_proxy v)
      in \<lparr>a_Proxy = e_proxy v, a_FirstSeen = FirstSeen v, a_LastSeen = LastSeen v,
          a_ReanimateAfter = ReanimateAfter v, a_Ok = e_ok v, a_Speed = Speed v,
          a_Timeouts = Sum (TimeoutShort v), a_Offered = RequestsShort v, a_Reanimated = Reanimated v,
          a_Succeed = Sum (SuccessShort v), a_HourOffered = HourOffered v, a_HourSucceed = HourSucceed v,
          a_Country = Country info, a_Provider = Provider info, a_ASN = ASN info\<rparr>)"

definition default_filter :: string where
  "default_filter = ''Ok ORDER BY LastSeen DESC''"

definition pool_HttpGet :: "parser \<Rightarrow> (gofloat \<Rightarrow> string) \<Rightarrow> (duration \<Rightarrow> string) \<Rightarrow> (proxy \<Rightarrow> info) \<Rightarrow> entry_sorting \<Rightarrow> time
    \<Rightarrow> nat list \<Rightarrow> string \<Rightarrow> shard list \<Rightarrow> (string + api_entry query_result) option" where
  "pool_HttpGet parse float dur lookup srt now order flt ss =
     (let flt = (if flt = [] then default_filter else flt)
      in Dataset_Query parse float (ApiEntryDataset dur now (map (api_row lookup) (snapshot srt now order ss))) flt)"

section \<open>The blacklist\<close>

definition blacklisted_columns :: "blacklisted columns" where
  "blacklisted_columns =
     [(''Proxy'', TextKey (\<lambda>r. String (b_Proxy r))),
      (''Country'', TextKey b_Country),
      (''Provider'', TextKey b_Provider),
      (''ASN'', NumberKey (\<lambda>r. uint (b_ASN r))),
      (''Failure'', TextKey b_Failure)]"

definition blacklisted_facets :: "blacklisted list \<Rightarrow> retriever list" where
  "blacklisted_facets rows =
     [text_facet rows b_Country False ''Country'' ''Country'',
      text_facet rows b_Provider False ''Provider'' ''Provider'',
      text_facet rows getFailureFacet True ''Failure'' ''Failure'']"

definition blacklistedDataset :: "(duration \<Rightarrow> string) \<Rightarrow> time \<Rightarrow> blacklisted list \<Rightarrow> blacklisted dataset" where
  "blacklistedDataset dur now rows =
     dataset_of blacklisted_columns blacklisted_columns [] [] blacklisted_facets dur now rows"

definition blacklist_HttpGet :: "parser \<Rightarrow> (gofloat \<Rightarrow> string) \<Rightarrow> (duration \<Rightarrow> string) \<Rightarrow> time \<Rightarrow> (int \<Rightarrow> string) \<Rightarrow> databases option
    \<Rightarrow> (proxy \<Rightarrow> int list) \<Rightarrow> proxy list \<Rightarrow> string \<Rightarrow> internal \<Rightarrow> (string + blacklisted query_result) option" where
  "blacklist_HttpGet parse float dur now name dbs sids order flt i =
     (case blacklist_snapshot name dbs sids order i of
        None \<Rightarrow> None
      | Some rows \<Rightarrow>
          if rows = [] then Some (Inl ''blacklist is empty'')
          else Dataset_Query parse float (blacklistedDataset dur now rows) flt)"

section \<open>The proxies that wait\<close>

definition inReverify_columns :: "inReverify columns" where
  "inReverify_columns =
     [(''Proxy'', TextKey (\<lambda>r. String (r_Proxy r))),
      (''Attempt'', NumberKey r_Attempt),
      (''After'', NumberKey (\<lambda>r. unix (r_After r))),
      (''Country'', TextKey r_Country),
      (''Provider'', TextKey r_Provider),
      (''ASN'', NumberKey (\<lambda>r. uint (r_ASN r))),
      (''Failure'', TextKey r_Failure)]"

definition inReverify_facets :: "inReverify list \<Rightarrow> retriever list" where
  "inReverify_facets rows =
     [text_facet rows r_Country False ''Country'' ''Country'',
      text_facet rows r_Provider False ''Provider'' ''Provider'',
      text_facet rows r_Failure False ''Failure'' ''Failure'']"

definition inReverifyDataset :: "(duration \<Rightarrow> string) \<Rightarrow> time \<Rightarrow> inReverify list \<Rightarrow> inReverify dataset" where
  "inReverifyDataset dur now rows =
     dataset_of inReverify_columns inReverify_columns [''Attempt''] [] inReverify_facets dur now rows"

definition reverify_HttpGet :: "parser \<Rightarrow> (gofloat \<Rightarrow> string) \<Rightarrow> (duration \<Rightarrow> string) \<Rightarrow> time \<Rightarrow> (int \<Rightarrow> string) \<Rightarrow> databases option
    \<Rightarrow> (proxy \<Rightarrow> int list) \<Rightarrow> proxy list \<Rightarrow> string \<Rightarrow> internal \<Rightarrow> (string + inReverify query_result) option" where
  "reverify_HttpGet parse float dur now name dbs sids order flt i =
     (let rows = reverify_snapshot name dbs sids order i
      in if rows = [] then Some (Inl ''reverify is empty'')
         else Dataset_Query parse float (inReverifyDataset dur now rows) flt)"

end
