(* ===== verification/Lexer.thy ===== *)
theory Lexer
  imports Eval
begin

text \<open>
  The lexer of queries (\<open>ql/internal/lexer.go\<close>) over the library's \<open>text/scanner\<close>, for ASCII input: \<open>Scan\<close> with the
  default mode (identifiers, numbers, strings, character and raw string literals; comments are
  skipped) and the program's identifiers of letters only. The scanner's own complaints are only printed.
\<close>

section \<open>Characters\<close>

definition code :: "char \<Rightarrow> int" where "code c = of_char c"

definition is_letter :: "char \<Rightarrow> bool" where
  "is_letter c \<longleftrightarrow> (let n = code c in (97 \<le> n \<and> n \<le> 122) \<or> (65 \<le> n \<and> n \<le> 90))"

definition is_decimal :: "char \<Rightarrow> bool" where
  "is_decimal c \<longleftrightarrow> 48 \<le> code c \<and> code c \<le> 57"

definition is_octal :: "char \<Rightarrow> bool" where
  "is_octal c \<longleftrightarrow> 48 \<le> code c \<and> code c \<le> 55"

definition is_hex :: "char \<Rightarrow> bool" where
  "is_hex c \<longleftrightarrow> is_decimal c \<or> (97 \<le> code c \<and> code c \<le> 102) \<or> (65 \<le> code c \<and> code c \<le> 70)"

definition is_space :: "char \<Rightarrow> bool" where
  "is_space c \<longleftrightarrow> code c \<in> {9, 10, 13, 32}"

section \<open>The scanner\<close>

text \<open>The tokens of the scanner that are not characters.\<close>

definition sc_EOF :: int where "sc_EOF = -1"
definition sc_Ident :: int where "sc_Ident = -2"
definition sc_Int :: int where "sc_Int = -3"
definition sc_Float :: int where "sc_Float = -4"
definition sc_Char :: int where "sc_Char = -5"
definition sc_String :: int where "sc_String = -6"
definition sc_RawString :: int where "sc_RawString = -7"

text \<open>How many characters an escape has after its backslash; an invalid one has none.\<close>

definition escape_length :: "char \<Rightarrow> string \<Rightarrow> nat" where
  "escape_length q cs =
     (case cs of
        [] \<Rightarrow> 0
      | d # ds \<Rightarrow>
          if d \<in> set ''abfnrtv'' \<or> code d = 92 \<or> d = q then 1
          else if is_octal d then length (takeWhile is_octal (take 3 cs))
          else if d = CHR ''x'' then 1 + length (takeWhile is_hex (take 2 ds))
          else if d = CHR ''u'' then 1 + length (takeWhile is_hex (take 4 ds))
          else if d = CHR ''U'' then 1 + length (takeWhile is_hex (take 8 ds))
          else 0)"

text \<open>The length of a literal after its opening quote, its end included: the quote, a newline, or the end of the text.\<close>

function literal_length :: "char \<Rightarrow> string \<Rightarrow> nat" where
  "literal_length q [] = 0"
| "literal_length q (c # cs) =
     (if c = q \<or> code c = 10 then 1
      else if code c = 92 then (let n = escape_length q cs in 1 + n + literal_length q (drop n cs))
      else 1 + literal_length q cs)"
  by pat_completeness auto
termination by (relation "measure (\<lambda>(q, cs). length cs)") auto

definition raw_length :: "string \<Rightarrow> nat" where
  "raw_length cs = (let n = length (takeWhile (\<lambda>c. code c \<noteq> 96) cs) in if n < length cs then n + 1 else n)"

text \<open>The digits of a number, with the underscores among them.\<close>

definition digits :: "(char \<Rightarrow> bool) \<Rightarrow> string \<Rightarrow> string \<times> string" where
  "digits p cs = (takeWhile (\<lambda>c. p c \<or> c = CHR ''_'') cs, dropWhile (\<lambda>c. p c \<or> c = CHR ''_'') cs)"

definition scan_exponent :: "int \<times> string \<times> string \<Rightarrow> int \<times> string \<times> string" where
  "scan_exponent = (\<lambda>(tok, txt, cs).
     case cs of
       [] \<Rightarrow> (tok, txt, cs)
     | e # es \<Rightarrow>
         if e \<in> set ''eEpP''
         then (let (sign, ds) = (case es of [] \<Rightarrow> ([], []) | s # ss \<Rightarrow> if s = CHR ''+'' \<or> s = CHR ''-'' then ([s], ss) else ([], es));
                   (xs, rest) = digits is_decimal ds
               in (sc_Float, txt @ [e] @ sign @ xs, rest))
         else (tok, txt, cs))"

text \<open>A number from its first digit on, or, with the flag, from what follows its leading point.\<close>

definition scan_fraction :: "(char \<Rightarrow> bool) \<Rightarrow> string \<Rightarrow> string \<Rightarrow> int \<times> string \<times> string" where
  "scan_fraction p txt cs = (let (xs, rest) = digits p cs in (sc_Float, txt @ xs, rest))"

definition scan_number :: "string \<Rightarrow> int \<times> string \<times> string" where
  "scan_number cs =
     (let (pre, p, cs) =
            (case cs of
               z # x # xs \<Rightarrow>
                 if z = CHR ''0'' \<and> x \<in> set ''xX'' then ([z, x], is_hex, xs)
                 else if z = CHR ''0'' \<and> x \<in> set ''oObB'' then ([z, x], is_decimal, xs)
                 else ([], is_decimal, cs)
             | _ \<Rightarrow> ([], is_decimal, cs));
          (ds, rest) = digits p cs; txt = pre @ ds
      in scan_exponent
           (case rest of
              [] \<Rightarrow> (sc_Int, txt, rest)
            | d # rest' \<Rightarrow> if d = CHR ''.'' then scan_fraction p (txt @ [d]) rest' else (sc_Int, txt, rest)))"

text \<open>What is left after a general comment, from behind its opening.\<close>

fun skip_comment :: "string \<Rightarrow> string" where
  "skip_comment [] = []"
| "skip_comment [c] = []"
| "skip_comment (c # d # cs) = (if c = CHR ''*'' \<and> d = CHR ''/'' then cs else skip_comment (d # cs))"

lemma length_skip_comment: "length (skip_comment cs) \<le> length cs"
  by (induction cs rule: skip_comment.induct) auto

text \<open>The next token: its kind or character, its text, and what follows it.\<close>

function Scan :: "string \<Rightarrow> int \<times> string \<times> string" where
  "Scan cs =
     (case cs of
        [] \<Rightarrow> (sc_EOF, [], [])
      | c # rest \<Rightarrow>
          if is_space c then Scan rest
          else if is_letter c then (sc_Ident, takeWhile is_letter cs, dropWhile is_letter cs)
          else if is_decimal c then scan_number cs
          else if c = CHR 0x22 then (let n = literal_length c rest in (sc_String, c # take n rest, drop n rest))
          else if c = CHR 0x27 then (let n = literal_length c rest in (sc_Char, c # take n rest, drop n rest))
          else if c = CHR 0x60 then (let n = raw_length rest in (sc_RawString, c # take n rest, drop n rest))
          else (case rest of
                  [] \<Rightarrow> (code c, [c], rest)
                | d # ds \<Rightarrow>
                    if c = CHR ''.'' \<and> is_decimal d then scan_exponent (scan_fraction is_decimal [c] rest)
                    else if c = CHR ''/'' \<and> d = CHR ''/'' then Scan (dropWhile (\<lambda>x. code x \<noteq> 10) ds)
                    else if c = CHR ''/'' \<and> d = CHR ''*'' then Scan (skip_comment ds)
                    else (code c, [c], rest)))"
  by pat_completeness auto
termination
  by (relation "measure length") (auto simp: length_dropWhile_le le_less_trans less_Suc_eq_le le_SucI length_skip_comment)

declare Scan.simps [simp del]

section \<open>The lexer\<close>

definition NUMBER :: int where "NUMBER = 57346"
definition IDENT :: int where "IDENT = 57347"
definition STRING :: int where "STRING = 57348"
definition NOT :: int where "NOT = 57349"
definition AND :: int where "AND = 57350"
definition OR :: int where "OR = 57351"
definition EQ :: int where "EQ = 57352"
definition NEQ :: int where "NEQ = 57353"
definition ORDER :: int where "ORDER = 57354"
definition BY :: int where "BY = 57355"
definition LIMIT :: int where "LIMIT = 57356"
definition DUR :: int where "DUR = 57357"
definition ASC :: int where "ASC = 57358"
definition DESC :: int where "DESC = 57359"

record lexer =
  unread :: string
  prevTok :: int
  err :: "string option"
  Offset :: nat

text \<open>The token of an identifier, and the unit that a duration's letter stands for.\<close>

definition ident :: "int \<Rightarrow> string \<Rightarrow> int \<times> duration option" where
  "ident prev lit =
     (if lit = ''NOT'' then (NOT, None)
      else if lit = ''AND'' then (AND, None)
      else if lit = ''ORDER'' then (ORDER, None)
      else if lit = ''BY'' then (BY, None)
      else if lit = ''OR'' then (OR, None)
      else if lit = ''ASC'' then (ASC, None)
      else if lit = ''DESC'' then (DESC, None)
      else if lit = ''LIMIT'' then (LIMIT, None)
      else if lit = ''w'' \<and> prev = NUMBER then (DUR, Some (7 * 24 * hour))
      else if lit = ''d'' \<and> prev = NUMBER then (DUR, Some (24 * hour))
      else if lit = ''h'' \<and> prev = NUMBER then (DUR, Some hour)
      else if lit = ''m'' \<and> prev = NUMBER then (DUR, Some minute)
      else if lit = ''s'' \<and> prev = NUMBER then (DUR, Some second)
      else (IDENT, None))"

text \<open>The token, its text, its unit, and what is left to read.\<close>

definition Match :: "int \<Rightarrow> int \<times> string \<times> string \<Rightarrow> int \<times> string \<times> duration option \<times> string" where
  "Match prev = (\<lambda>(tok, lit, rest).
     if tok = sc_Int \<or> tok = sc_Float then (NUMBER, lit, None, rest)
     else if tok = sc_String then (STRING, lit, None, rest)
     else if tok = sc_Ident then (case ident prev lit of (t, d) \<Rightarrow> (t, lit, d, rest))
     else if tok = 60 \<and> rest \<noteq> [] \<and> hd rest = CHR ''>'' then (NEQ, ''<>'', None, tl rest)
     else if tok = 33 \<and> rest \<noteq> [] \<and> hd rest = CHR ''='' then (NEQ, ''!='', None, tl rest)
     else if lit = ''!'' then (NOT, lit, None, rest)
     else if lit = '':'' \<or> lit = ''='' then (EQ, lit, None, rest)
     else (tok, lit, None, rest))"

definition Lex :: "string \<Rightarrow> lexer \<Rightarrow> lexer \<times> int \<times> string \<times> duration option" where
  "Lex query l =
     (case Scan (unread l) of (token, txt, rest) \<Rightarrow>
        (case Match (prevTok l) (token, txt, rest) of (tok, lit, dur, rest') \<Rightarrow>
           (l\<lparr>unread := rest', prevTok := tok, Offset := length query - length rest - length txt\<rparr>, tok, lit, dur)))"

end
