(* ===== verification/Strconv.thy ===== *)
theory Strconv
  imports Lexer
begin

text \<open>
  The conversions of literals that the parser of queries takes from the standard library: \<open>strconv.ParseFloat\<close> and
  \<open>strconv.ParseInt\<close> for the texts a scanner can give (no sign in front), of which the program ignores the errors, and
  \<open>strings.Trim\<close>.
\<close>

definition hex_digit :: "char \<Rightarrow> int" where
  "hex_digit c = (let n = code c in if n \<le> 57 then n - 48 else if n \<le> 70 then n - 55 else n - 87)"

text \<open>Underscores stand between digits, or between the prefix of a base and a digit.\<close>

fun separated :: "bool \<Rightarrow> char \<Rightarrow> string \<Rightarrow> bool" where
  "separated hex i [] = (i \<noteq> CHR ''_'')"
| "separated hex i (c # cs) =
     (if is_decimal c \<or> (hex \<and> is_hex c) then separated hex (CHR ''0'') cs
      else if c = CHR ''_'' then (if i \<noteq> CHR ''0'' then False else separated hex c cs)
      else if i = CHR ''_'' then False
      else separated hex (CHR ''!'') cs)"

definition underscoreOK :: "string \<Rightarrow> bool" where
  "underscoreOK s =
     (case s of
        z # x # xs \<Rightarrow>
          if z = CHR ''0'' \<and> x \<in> set ''bBoOxX'' then separated (x \<in> set ''xX'') (CHR ''0'') xs else separated False (CHR ''^'') s
      | _ \<Rightarrow> separated False (CHR ''^'') s)"

text \<open>The mantissa's digits before and after its point, and the rest.\<close>

definition mantissa :: "(char \<Rightarrow> bool) \<Rightarrow> string \<Rightarrow> string \<times> string \<times> string" where
  "mantissa p s =
     (let (a, rest) = digits p s
      in case rest of
           [] \<Rightarrow> (a, [], [])
         | c # cs \<Rightarrow> if c = CHR ''.'' then (case digits p cs of (b, rest) \<Rightarrow> (a, b, rest)) else (a, [], rest))"

definition plain :: "string \<Rightarrow> string" where
  "plain s = filter (\<lambda>c. c \<noteq> CHR ''_'') s"

definition number_in :: "int \<Rightarrow> string \<Rightarrow> int" where
  "number_in base s = foldl (\<lambda>n c. n * base + hex_digit c) 0 s"

text \<open>The exponent: \<open>None\<close> for a syntax error. It stops growing at ten thousand.\<close>

definition exponent :: "char \<Rightarrow> string \<Rightarrow> int option" where
  "exponent e s =
     (case s of
        [] \<Rightarrow> Some 0
      | c # cs \<Rightarrow>
          if code c \<noteq> code e \<and> code c + 32 \<noteq> code e then None
          else (let (neg, ds) = (case cs of [] \<Rightarrow> (False, []) | d # ds \<Rightarrow> if d = CHR ''+'' then (False, ds) else if d = CHR ''-'' then (True, ds) else (False, cs));
                    (xs, rest) = digits is_decimal ds;
                    v = foldl (\<lambda>n c. if n < 10000 then n * 10 + hex_digit c else n) 0 (plain xs)
                in if ds = [] \<or> \<not> is_decimal (hd ds) \<or> rest \<noteq> [] then None else Some (if neg then - v else v)))"

definition power_of :: "rat \<Rightarrow> int \<Rightarrow> rat" where
  "power_of b n = (if 0 \<le> n then b ^ nat n else 1 / b ^ nat (- n))"

definition ParseFloat :: "string \<Rightarrow> gofloat" where
  "ParseFloat s =
     (let hex = (case s of z # x # _ # _ \<Rightarrow> z = CHR ''0'' \<and> x \<in> set ''xX'' | _ \<Rightarrow> False);
          (a, b, rest) = mantissa (if hex then is_hex else is_decimal) (if hex then drop 2 s else s);
          ds = plain (a @ b); base = (if hex then 16 else 10)
      in if ds = [] \<or> (hex \<and> rest = []) \<or> (CHR ''_'' \<in> set s \<and> \<not> underscoreOK s) then Fin 0
         else (case exponent (if hex then CHR ''p'' else CHR ''e'') rest of
                 None \<Rightarrow> Fin 0
               | Some e \<Rightarrow>
                   round_flt binary64 (of_int (number_in base ds) / of_int (base ^ length (plain b)) * power_of (if hex then 2 else 10) e)))"

text \<open>\<open>ParseInt(s, 10, 32)\<close>: the greatest 32 bit integer when the number is greater.\<close>

definition ParseInt32 :: "string \<Rightarrow> int" where
  "ParseInt32 s = (if s = [] \<or> \<not> (\<forall>c \<in> set s. is_decimal c) then 0 else min (2 ^ 31 - 1) (number_in 10 s))"

definition is_quote :: "char \<Rightarrow> bool" where
  "is_quote c \<longleftrightarrow> code c \<in> {0x22, 0x27, 0x60}"

definition trim_quotes :: "string \<Rightarrow> string" where
  "trim_quotes s = rev (dropWhile is_quote (rev (dropWhile is_quote s)))"

end
