(* ===== verification/Parser.thy ===== *)
theory Parser
  imports Strconv "HOL-Library.Monad_Syntax"
begin

text \<open>
  The parser of queries (\<open>ql/internal/parser.go\<close>, written by goyacc, and \<open>api.go\<close>): the tables of the automaton, its machine
  with the error recovery and the stack that starts in the parser and moves out of it when it grows, the
  actions of the grammar, and \<open>Parse\<close>. An index that is out of range is \<open>None\<close>.
\<close>

section \<open>The tables\<close>

definition yyExca :: "int list" where
  "yyExca =
     [-1, 1, 1, -1, -2, 0]"

definition yyAct :: "int list" where
  "yyAct =
     [33, 12, 13, 14, 15, 35, 12, 13, 14, 15, 16, 9, 10, 11, 19, 30, 9, 10, 11, 12, 21, 14, 15, 34,
      14, 15, 37, 38, 29, 9, 10, 11, 9, 10, 11, 2, 39, 14, 15, 17, 18, 31, 20, 36, 32, 22, 23, 24,
      25, 26, 27, 28, 4, 5, 6, 7, 3, 8, 1]"

definition yyPact :: "int list" where
  "yyPact =
     [48, -1000, -3, 48, 48, -2, -1000, -1000, 5, 48, 48, 48, 48, 48, 48, 48, 14, 13, -8, -1000,
      -1000, 36, 26, 26, 26, 13, 10, -1000, -1000, 17, -1000, -1000, -17, -1000, 9, 17, -1000, -1000,
      -1000, -1000]"

definition yyPgo :: "int list" where
  "yyPgo =
     [0, 58, 35, 57, 44, 0, 43, 42]"

definition yyR1 :: "int list" where
  "yyR1 =
     [0, 1, 7, 7, 3, 3, 4, 4, 5, 6, 6, 6, 2, 2, 2, 2, 2, 2, 2, 2, 2, 2, 2, 2, 2]"

definition yyR2 :: "int list" where
  "yyR2 =
     [0, 3, 0, 2, 0, 3, 1, 3, 2, 0, 1, 1, 2, 3, 3, 3, 3, 3, 3, 3, 3, 2, 1, 1, 1]"

definition yyChk :: "int list" where
  "yyChk =
     [-1000, -1, -2, 8, 4, 5, 6, 7, -3, 19, 20, 21, 9, 10, 11, 12, 13, -2, -2, 16, -7, 15, -2, -2,
      -2, -2, -2, -2, -2, 14, 23, 5, -4, -5, 6, 22, -6, 17, 18, -5]"

definition yyDef :: "int list" where
  "yyDef =
     [0, -2, 4, 0, 0, 22, 23, 24, 2, 0, 0, 0, 0, 0, 0, 0, 0, 12, 0, 21, 1, 0, 13, 14, 15, 16, 17, 18,
      19, 0, 20, 3, 5, 6, 9, 0, 8, 10, 11, 7]"

definition yyTok1 :: "int list" where
  "yyTok1 =
     [1, 3, 3, 3, 3, 3, 3, 3, 3, 3, 3, 3, 3, 3, 3, 3, 3, 3, 3, 3, 3, 3, 3, 3, 3, 3, 3, 3, 3, 3, 3, 3,
      3, 3, 3, 3, 3, 3, 3, 3, 4, 23, 3, 3, 22, 3, 3, 3, 3, 3, 3, 3, 3, 3, 3, 3, 3, 3, 3, 3, 19, 3,
      20, 3, 3, 3, 3, 3, 3, 3, 3, 3, 3, 3, 3, 3, 3, 3, 3, 3, 3, 3, 3, 3, 3, 3, 3, 3, 3, 3, 3, 3, 3,
      3, 3, 3, 3, 3, 3, 3, 3, 3, 3, 3, 3, 3, 3, 3, 3, 3, 3, 3, 3, 3, 3, 3, 3, 3, 3, 3, 3, 3, 3, 3, 3,
      3, 21]"

definition yyTok2 :: "int list" where
  "yyTok2 =
     [2, 3, 5, 6, 7, 8, 9, 10, 11, 12, 13, 14, 15, 16, 17, 18]"

definition yyToknames :: "string list" where
  "yyToknames =
     [''$end'', ''error'', ''$unk'', [CHR 0x27, CHR ''('', CHR 0x27], ''NUMBER'', ''IDENT'', ''STRING'', ''NOT'', ''AND'', ''OR'', ''EQ'', ''NEQ'', ''ORDER'', ''BY'', ''LIMIT'', ''DUR'', ''ASC'', ''DESC'', [CHR 0x27, CHR ''<'', CHR 0x27], [CHR 0x27, CHR ''>'', CHR 0x27], [CHR 0x27, CHR ''~'', CHR 0x27], [CHR 0x27, CHR '','', CHR 0x27], [CHR 0x27, CHR '')'', CHR 0x27]]"

definition yyLast :: int where "yyLast = 59"
definition yyPrivate :: int where "yyPrivate = 57344"
definition yyFlag :: int where "yyFlag = -1000"
definition yyErrCode :: int where "yyErrCode = 2"
definition yyEofCode :: int where "yyEofCode = 1"
definition yyInitialStackSize :: nat where "yyInitialStackSize = 16"

definition tab :: "'a list \<Rightarrow> int \<Rightarrow> 'a option" where
  "tab xs i = (if 0 \<le> i \<and> i < int (length xs) then Some (xs ! nat i) else None)"

section \<open>The machine\<close>

text \<open>A query as the parser makes it: filter, order and limit; the zero one has a nil filter.\<close>

type_synonym plan = "node \<times> orderBy list \<times> int"

record yySymType =
  yys :: int
  s_query :: plan
  s_literal :: string
  s_expr :: node
  s_dur :: duration
  s_sort :: "orderBy list"
  s_orderBy :: orderBy
  s_dir :: bool
  s_num :: int

definition zero_sym :: yySymType where
  "zero_sym = \<lparr>yys = 0, s_query = (Nil, [], 0), s_literal = [], s_expr = Nil, s_dur = 0, s_sort = [],
     s_orderBy = \<lparr>ob_Ident = [], ob_Asc = False\<rparr>, s_dir = False, s_num = 0\<rparr>"

text \<open>
  \<open>moved\<close> is the stack inside the parser from the moment that \<open>yyS\<close> was first copied to a longer one; until then \<open>yyS\<close> is
  that stack itself.
\<close>

record yyParser =
  lex :: lexer
  lval :: yySymType
  char' :: int
  yytoken :: int
  yystate :: int
  yyVAL :: yySymType
  yyS :: "yySymType list"
  yyp :: int
  Errflag :: int
  moved :: "yySymType list option"

definition token_of :: "int \<Rightarrow> int" where
  "token_of c =
     (let token = (if c \<le> 0 then yyTok1 ! 0
                   else if c < int (length yyTok1) then yyTok1 ! nat c
                   else if c \<ge> yyPrivate \<and> c < yyPrivate + int (length yyTok2) then yyTok2 ! nat (c - yyPrivate)
                   else 0)
      in if token = 0 then yyTok2 ! 1 else token)"

definition yylex1 :: "string \<Rightarrow> lexer \<Rightarrow> yySymType \<Rightarrow> lexer \<times> yySymType \<times> int \<times> int" where
  "yylex1 query l lv =
     (case Lex query l of (l, c, lit, dur) \<Rightarrow>
        (l, lv\<lparr>s_literal := lit, s_dur := (case dur of None \<Rightarrow> s_dur lv | Some d \<Rightarrow> d)\<rparr>, c, token_of c))"

definition fetch :: "string \<Rightarrow> yyParser \<Rightarrow> yyParser" where
  "fetch query m =
     (if char' m < 0
      then (case yylex1 query (lex m) (lval m) of (l, lv, c, t) \<Rightarrow> m\<lparr>lex := l, lval := lv, char' := c, yytoken := t\<rparr>)
      else m)"

definition grow :: "yyParser \<Rightarrow> yyParser" where
  "grow m = m\<lparr>yyS := yyS m @ replicate (length (yyS m)) zero_sym,
     moved := (case moved m of None \<Rightarrow> Some (yyS m) | Some old \<Rightarrow> Some old)\<rparr>"

text \<open>\<open>yystack\<close>: the state and the value go on the stack.\<close>

definition push :: "yyParser \<Rightarrow> yyParser" where
  "push m =
     (let p = yyp m + 1; m = m\<lparr>yyp := p\<rparr>; m = (if p \<ge> int (length (yyS m)) then grow m else m)
      in m\<lparr>yyS := (yyS m)[nat p := (yyVAL m)\<lparr>yys := yystate m\<rparr>]\<rparr>)"

section \<open>Errors\<close>

definition yyTokname :: "int \<Rightarrow> string" where
  "yyTokname c =
     (if c \<ge> 1 \<and> c - 1 < int (length yyToknames) \<and> yyToknames ! nat (c - 1) \<noteq> [] then yyToknames ! nat (c - 1)
      else ''tok-'' @ show_int c)"

text \<open>The tokens, from 4 on, that can be shifted.\<close>

definition shiftable :: "int \<Rightarrow> int list" where
  "shiftable base =
     filter (\<lambda>tok. let n = base + tok in n \<ge> 0 \<and> n < yyLast \<and> yyChk ! nat (yyAct ! nat n) = tok)
       (map int [4..<length yyToknames + 1])"

text \<open>The pairs of the exception table that belong to a state.\<close>

fun exca_of :: "int \<Rightarrow> int list \<Rightarrow> int list option" where
  "exca_of state (a # b # rest) = (if a = -1 \<and> b = state then Some rest else exca_of state rest)"
| "exca_of state _ = None"

text \<open>The tokens among them, and whether the default of the state is to accept or reduce.\<close>

fun excepted :: "int list \<Rightarrow> int list \<times> bool" where
  "excepted (a # b # rest) =
     (if a \<ge> 0 then (case excepted rest of (ts, d) \<Rightarrow> (if a < 4 \<or> b = 0 then ts else a # ts, d))
      else ([], b \<noteq> 0))"
| "excepted _ = ([], False)"

text \<open>A fifth token, or a default that accepts or reduces, gives up the list of what was expected.\<close>

definition yyErrorMessage :: "int \<Rightarrow> int \<Rightarrow> string" where
  "yyErrorMessage state lookAhead =
     (let res = ''syntax error: unexpected '' @ yyTokname lookAhead;
          (exceptions, default) = (if yyDef ! nat state = -2 then excepted (the (exca_of state yyExca)) else ([], False));
          expected = shiftable (yyPact ! nat state) @ exceptions
      in if length expected > 4 \<or> default then res
         else case expected of
           [] \<Rightarrow> res
         | t # ts \<Rightarrow> res @ '', expecting '' @ yyTokname t @ concat (map (\<lambda>t. '' or '' @ yyTokname t) ts))"

text \<open>The search for a state of the stack, from its top down, that can shift the error token.\<close>

fun error_shift :: "yySymType list \<Rightarrow> nat \<Rightarrow> (int \<times> int) option" where
  "error_shift stack 0 = None"
| "error_shift stack (Suc p) =
     (let n = yyPact ! nat (yys (stack ! p)) + yyErrCode
      in if n \<ge> 0 \<and> n < yyLast \<and> yyChk ! nat (yyAct ! nat n) = yyErrCode then Some (int p, yyAct ! nat n)
         else error_shift stack p)"

datatype yy_result = Accepted yyParser | Aborted yyParser

definition yyError :: "yyParser \<Rightarrow> yyParser + yy_result" where
  "yyError m =
     (if Errflag m = 3
      then if yytoken m = yyEofCode then Inr (Aborted m) else Inl (m\<lparr>char' := -1, yytoken := -1\<rparr>)
      else (let m = (if Errflag m = 0
                     then m\<lparr>lex := (lex m)\<lparr>err := Some (yyErrorMessage (yystate m) (yytoken m))\<rparr>\<rparr> else m)
            in case error_shift (yyS m) (nat (yyp m + 1)) of
                 Some (p, state) \<Rightarrow> Inl (push (m\<lparr>Errflag := 3, yyp := p, yystate := state\<rparr>))
               | None \<Rightarrow> Inr (Aborted (m\<lparr>Errflag := 3, yyp := -1\<rparr>))))"

section \<open>Reductions\<close>

text \<open>The value of a production, from the values of its right-hand side and what stood in the slot of the first one.\<close>

definition action :: "int \<Rightarrow> (nat \<Rightarrow> yySymType) \<Rightarrow> yySymType \<Rightarrow> yySymType" where
  "action n d v =
     (if n = 1 then v\<lparr>s_query := (s_expr (d 1), s_sort (d 2), s_num (d 3))\<rparr>
      else if n = 3 then v\<lparr>s_num := ParseInt32 (s_literal (d 2))\<rparr>
      else if n = 5 then v\<lparr>s_sort := s_sort (d 3)\<rparr>
      else if n = 6 then v\<lparr>s_sort := s_sort v @ [s_orderBy (d 1)]\<rparr>
      else if n = 7 then v\<lparr>s_sort := s_sort (d 1) @ [s_orderBy (d 3)]\<rparr>
      else if n = 8 then v\<lparr>s_orderBy := \<lparr>ob_Ident = s_literal (d 1), ob_Asc = s_dir (d 2)\<rparr>\<rparr>
      else if n = 9 \<or> n = 10 then v\<lparr>s_dir := True\<rparr>
      else if n = 11 then v\<lparr>s_dir := False\<rparr>
      else if n = 12 then v\<lparr>s_expr := Not (s_expr (d 2))\<rparr>
      else if n = 13 then v\<lparr>s_expr := LessThan (s_expr (d 1)) (s_expr (d 3))\<rparr>
      else if n = 14 then v\<lparr>s_expr := GreaterThan (s_expr (d 1)) (s_expr (d 3))\<rparr>
      else if n = 15 then v\<lparr>s_expr := Contains (s_expr (d 1)) (s_expr (d 3))\<rparr>
      else if n = 16 then v\<lparr>s_expr := And (s_expr (d 1)) (s_expr (d 3))\<rparr>
      else if n = 17 then v\<lparr>s_expr := Or (s_expr (d 1)) (s_expr (d 3))\<rparr>
      else if n = 18 then v\<lparr>s_expr := Equals (s_expr (d 1)) (s_expr (d 3))\<rparr>
      else if n = 19 then v\<lparr>s_expr := Not (Equals (s_expr (d 1)) (s_expr (d 3)))\<rparr>
      else if n = 20 then v\<lparr>s_expr := s_expr (d 2)\<rparr>
      else if n = 21 then v\<lparr>s_expr := Dur (wrap64 (to_int (ParseFloat (s_literal (d 1))) * s_dur (d 2)))\<rparr>
      else if n = 22 then v\<lparr>s_expr := Number (ParseFloat (s_literal (d 1)))\<rparr>
      else if n = 23 then v\<lparr>s_expr := Ident (s_literal (d 1))\<rparr>
      else if n = 24 then v\<lparr>s_expr := Str (trim_quotes (s_literal (d 1)))\<rparr>
      else v)"

definition goto_state :: "int \<Rightarrow> int \<Rightarrow> int option" where
  "goto_state nt state =
     do { g \<leftarrow> tab yyPgo nt;
          let j = g + state + 1;
          if j \<ge> yyLast then tab yyAct g
          else do { s \<leftarrow> tab yyAct j; c \<leftarrow> tab yyChk s; if c \<noteq> - nt then tab yyAct g else Some s } }"

definition reduce :: "int \<Rightarrow> yyParser \<Rightarrow> yyParser option" where
  "reduce n m =
     do { r \<leftarrow> tab yyR2 n;
          let p = yyp m - r;
          let m' = (if p + 1 \<ge> int (length (yyS m)) then grow m else m);
          v \<leftarrow> tab (yyS m') (p + 1);
          bottom \<leftarrow> tab (yyS m') p;
          nt \<leftarrow> tab yyR1 n;
          state \<leftarrow> goto_state nt (yys bottom);
          Some (push (m'\<lparr>yyp := p, yystate := state, yyVAL := action n (\<lambda>i. yyS m' ! nat (p + int i)) v\<rparr>)) }"

section \<open>Steps\<close>

text \<open>The action among the exceptions of a state.\<close>

fun exca_action :: "int \<Rightarrow> int list \<Rightarrow> int option" where
  "exca_action token (a # b # rest) = (if a < 0 \<or> a = token then Some b else exca_action token rest)"
| "exca_action token _ = None"

definition act :: "int \<Rightarrow> yyParser \<Rightarrow> (yyParser + yy_result) option" where
  "act n m = (if n = 0 then Some (yyError m) else map_option Inl (reduce n m))"

definition default :: "string \<Rightarrow> yyParser \<Rightarrow> (yyParser + yy_result) option" where
  "default query m =
     do { n \<leftarrow> tab yyDef (yystate m);
          if n = -2
          then do { let m = fetch query m;
                    rest \<leftarrow> exca_of (yystate m) yyExca;
                    n \<leftarrow> exca_action (yytoken m) rest;
                    if n < 0 then Some (Inr (Accepted m)) else act n m }
          else act n m }"

text \<open>From \<open>yynewstate\<close> back to it.\<close>

definition yystep :: "string \<Rightarrow> yyParser \<Rightarrow> (yyParser + yy_result) option" where
  "yystep query m =
     do { n \<leftarrow> tab yyPact (yystate m);
          if n \<le> yyFlag then default query m
          else do { let m = fetch query m;
                    let n = n + yytoken m;
                    if n < 0 \<or> n \<ge> yyLast then default query m
                    else do { s \<leftarrow> tab yyAct n;
                              c \<leftarrow> tab yyChk s;
                              if c = yytoken m
                              then Some (Inl (push (m\<lparr>char' := -1, yytoken := -1, yyVAL := lval m, yystate := s,
                                     Errflag := (if Errflag m > 0 then Errflag m - 1 else Errflag m)\<rparr>)))
                              else default query m } } }"

text \<open>The machine runs until it accepts or gives up; \<open>None\<close> also when it would never.\<close>

partial_function (option) yyParse :: "string \<Rightarrow> yyParser \<Rightarrow> yy_result option" where
  "yyParse query m =
     (case yystep query m of
        None \<Rightarrow> None
      | Some (Inl m') \<Rightarrow> yyParse query m'
      | Some (Inr r) \<Rightarrow> Some r)"

declare yyParse.simps [code]

section \<open>Parse\<close>

definition parseError :: "string \<Rightarrow> lexer \<Rightarrow> string \<Rightarrow> string" where
  "parseError query l literal =
     (let off = Offset l; expStart = off - 5; lft = take (off - expStart) (drop expStart query);
          litEnd = off + length literal; expEnd = litEnd + min 5 (length query - litEnd);
          rgt = take (expEnd - litEnd) (drop litEnd query);
          expl = (if expStart > 0 then ''..'' else []) @ lft @ ''<<<'' @ literal @ ''>>>'' @ rgt @
            (if expEnd < length query then ''..'' else []);
          trimmed = rev (dropWhile (\<lambda>c. c = CHR '' '') (rev (dropWhile (\<lambda>c. c = CHR '' '') expl)))
      in the (err l) @ '': '' @ trimmed)"

definition start_parser :: "string \<Rightarrow> yyParser" where
  "start_parser query =
     push \<lparr>lex = \<lparr>unread = query, prevTok = 0, err = None, Offset = 0\<rparr>, lval = zero_sym, char' = -1, yytoken = -1,
       yystate = 0, yyVAL = zero_sym, yyS = replicate yyInitialStackSize zero_sym, yyp = -1, Errflag = 0, moved = None\<rparr>"

definition own_stack :: "yyParser \<Rightarrow> yySymType list" where
  "own_stack m = (case moved m of None \<Rightarrow> yyS m | Some old \<Rightarrow> old)"

definition result_of :: "yy_result \<Rightarrow> yyParser" where
  "result_of r = (case r of Accepted m \<Rightarrow> m | Aborted m \<Rightarrow> m)"

definition Parse :: "string \<Rightarrow> (string + plan) option" where
  "Parse query =
     (if query = [] then Some (Inr (BoolNode True, [], 20))
      else map_option
        (\<lambda>r. let m = result_of r
             in if err (lex m) \<noteq> None then Inl (parseError query (lex m) (s_literal (lval m)))
                else Inr (s_query (own_stack m ! 1)))
        (yyParse query (start_parser query)))"

end
