(* ===== verification/QueryText.thy ===== *)
theory QueryText
  imports Parser
begin

text \<open>
  A filter written out with every operator in parentheses is read back by the lexer and the parser of queries as it was, as
  long as the parser's stack of sixteen slots is deep enough for it.
\<close>

section \<open>Filters as texts\<close>

definition quoted :: "string \<Rightarrow> string" where
  "quoted x = CHR 0x22 # x @ [CHR 0x22]"

fun print :: "node \<Rightarrow> string" where
  "print (Ident x) = x @ '' ''"
| "print (Str x) = quoted x @ '' ''"
| "print (Not l) = ''( NOT '' @ print l @ '') ''"
| "print (And l r) = ''( '' @ print l @ ''AND '' @ print r @ '') ''"
| "print (Or l r) = ''( '' @ print l @ ''OR '' @ print r @ '') ''"
| "print (Equals l r) = ''( '' @ print l @ ''= '' @ print r @ '') ''"
| "print (Contains l r) = ''( '' @ print l @ ''~ '' @ print r @ '') ''"
| "print (LessThan l r) = ''( '' @ print l @ ''< '' @ print r @ '') ''"
| "print (GreaterThan l r) = ''( '' @ print l @ ''> '' @ print r @ '') ''"
| "print n = []"

definition reserved :: "string list" where
  "reserved = [''NOT'', ''AND'', ''ORDER'', ''BY'', ''OR'', ''ASC'', ''DESC'', ''LIMIT'', ''w'', ''d'', ''h'', ''m'', ''s'']"

text \<open>
  The words with a meaning of their own: keywords, and the units of a duration. Names are of letters, texts of ASCII characters without quotes, backslashes and newlines.
\<close>

fun printable :: "node \<Rightarrow> bool" where
  "printable (Ident x) = (x \<noteq> [] \<and> (\<forall>c \<in> set x. is_letter c) \<and> x \<notin> set reserved)"
| "printable (Str x) = (\<forall>c \<in> set x. code c < 128 \<and> code c \<notin> {10, 34, 39, 92, 96})"
| "printable (Not l) = printable l"
| "printable (And l r) = (printable l \<and> printable r)"
| "printable (Or l r) = (printable l \<and> printable r)"
| "printable (Equals l r) = (printable l \<and> printable r)"
| "printable (Contains l r) = (printable l \<and> printable r)"
| "printable (LessThan l r) = (printable l \<and> printable r)"
| "printable (GreaterThan l r) = (printable l \<and> printable r)"
| "printable n = False"

text \<open>The slots of the parser's stack that a filter takes.\<close>

fun slots :: "node \<Rightarrow> nat" where
  "slots (Not l) = 2 + slots l"
| "slots (And l r) = max (1 + slots l) (3 + slots r)"
| "slots (Or l r) = max (1 + slots l) (3 + slots r)"
| "slots (Equals l r) = max (1 + slots l) (3 + slots r)"
| "slots (Contains l r) = max (1 + slots l) (3 + slots r)"
| "slots (LessThan l r) = max (1 + slots l) (3 + slots r)"
| "slots (GreaterThan l r) = max (1 + slots l) (3 + slots r)"
| "slots n = 1"

lemma slots_pos: "1 \<le> slots n"
  by (cases n) auto

section \<open>Lexing\<close>

lemma Scan_space: "Scan (CHR '' '' # cs) = Scan cs"
  by (simp add: Scan.simps [of "CHR '' '' # cs"] is_space_def code_def)

definition lone_char :: "char \<Rightarrow> bool" where
  "lone_char c \<longleftrightarrow> \<not> is_space c \<and> \<not> is_letter c \<and> \<not> is_decimal c \<and> c \<notin> {CHR 0x22, CHR 0x27, CHR 0x60}"

lemma Scan_char: "lone_char c \<Longrightarrow> Scan (c # CHR '' '' # cs) = (code c, [c], CHR '' '' # cs)"
proof -
  have "\<not> is_decimal (CHR '' '')" by (simp add: is_decimal_def code_def)
  then show "lone_char c \<Longrightarrow> Scan (c # CHR '' '' # cs) = (code c, [c], CHR '' '' # cs)"
    by (simp add: Scan.simps [of "c # CHR '' '' # cs"] lone_char_def)
qed

lemma not_letter_space: "\<not> is_letter (CHR '' '')"
  by (simp add: is_letter_def code_def)

lemma letter_not_space: "is_letter c \<Longrightarrow> \<not> is_space c"
  by (auto simp: is_letter_def is_space_def Let_def)

lemma Scan_word:
  assumes "x \<noteq> []" and "\<forall>c \<in> set x. is_letter c"
  shows "Scan (x @ CHR '' '' # cs) = (sc_Ident, x, CHR '' '' # cs)"
proof -
  obtain c y where x: "x = c # y" using assms(1) by (cases x) auto
  have "takeWhile is_letter (x @ CHR '' '' # cs) = x" "dropWhile is_letter (x @ CHR '' '' # cs) = CHR '' '' # cs"
    using assms(2) not_letter_space by (simp_all add: takeWhile_tail dropWhile_append3)
  then show ?thesis
    using assms(2) letter_not_space by (simp add: x Scan.simps [of "c # y @ CHR '' '' # cs"])
qed

lemma literal_length_plain:
  "\<forall>c \<in> set x. code c \<notin> {10, 34, 92} \<Longrightarrow> literal_length (CHR 0x22) (x @ CHR 0x22 # cs) = length x + 1"
  by (induction x) (auto simp: code_def)

lemma Scan_text:
  assumes "\<forall>c \<in> set x. code c \<notin> {10, 34, 92}"
  shows "Scan (quoted x @ CHR '' '' # cs) = (sc_String, quoted x, CHR '' '' # cs)"
proof -
  have "\<not> is_space (CHR 0x22)" "\<not> is_letter (CHR 0x22)" "\<not> is_decimal (CHR 0x22)"
    by (simp_all add: is_space_def is_letter_def is_decimal_def code_def)
  then show ?thesis
    using literal_length_plain [OF assms, of "CHR '' '' # cs"]
    by (simp add: quoted_def Scan.simps [of "CHR 0x22 # x @ CHR 0x22 # CHR '' '' # cs"])
qed

lemma dropWhile_none: "\<forall>c \<in> set x. \<not> P c \<Longrightarrow> dropWhile P x = x"
  by (cases x) auto

lemma trim_quoted:
  assumes "\<forall>c \<in> set x. code c \<notin> {34, 39, 96}"
  shows "trim_quotes (quoted x) = x"
proof -
  have q: "is_quote (CHR 0x22)" by (simp add: is_quote_def code_def)
  have n: "\<forall>c \<in> set x. \<not> is_quote c" using assms by (auto simp: is_quote_def)
  show ?thesis
  proof (cases "x = []")
    case True
    then show ?thesis by (simp add: trim_quotes_def quoted_def q)
  next
    case False
    have "dropWhile is_quote (quoted x) = x @ [CHR 0x22]"
      using n False q by (cases x) (simp_all add: quoted_def)
    moreover have "dropWhile is_quote (rev x) = rev x" using n by (intro dropWhile_none) simp
    ultimately show ?thesis by (simp add: trim_quotes_def q)
  qed
qed


section \<open>The machine on a written filter\<close>

type_synonym slot = "int \<times> node \<times> string"

definition core :: "yySymType \<Rightarrow> slot" where
  "core s = (yys s, s_expr s, s_literal s)"

definition blank :: "yySymType \<Rightarrow> bool" where
  "blank s \<longleftrightarrow> s_num s = 0 \<and> s_sort s = []"

definition settled :: "slot list \<Rightarrow> yyParser \<Rightarrow> bool" where
  "settled stk m \<longleftrightarrow> moved m = None \<and> length (yyS m) = 16 \<and> yyp m = int (length stk) - 1 \<and> length stk \<le> 16 \<and> stk \<noteq> [] \<and>
     map core (take (length stk) (yyS m)) = stk \<and> fst (last stk) = yystate m \<and> (\<forall>s \<in> set (yyS m). blank s) \<and>
     blank (lval m) \<and> s_expr (lval m) = Nil \<and> err (lex m) = None \<and> Errflag m = 0"

text \<open>Without a token read ahead, and with one.\<close>

definition ready :: "string \<Rightarrow> slot list \<Rightarrow> yyParser \<Rightarrow> bool" where
  "ready txt stk m \<longleftrightarrow> settled stk m \<and> char' m < 0 \<and> Scan (unread (lex m)) = Scan txt"

definition looking :: "int \<Rightarrow> string \<Rightarrow> slot list \<Rightarrow> yyParser \<Rightarrow> bool" where
  "looking t txt stk m \<longleftrightarrow> settled stk m \<and> 0 \<le> char' m \<and> yytoken m = t \<and> Scan (unread (lex m)) = Scan txt"

text \<open>The text starts with a token of the parser, which is not the end.\<close>

definition reads :: "string \<Rightarrow> int \<Rightarrow> string \<Rightarrow> string \<Rightarrow> bool" where
  "reads txt t lit rest \<longleftrightarrow>
     (\<exists>c. Scan txt = (c, lit, CHR '' '' # rest) \<and>
       (\<forall>prev. \<exists>tok. Match prev (c, lit, CHR '' '' # rest) = (tok, lit, None, CHR '' '' # rest) \<and> 0 < tok \<and> token_of tok = t))"

lemma settled_lex: "settled stk m \<Longrightarrow> err L = None \<Longrightarrow> blank lv \<Longrightarrow> s_expr lv = Nil \<Longrightarrow>
    settled stk (m\<lparr>lex := L, lval := lv, char' := c, yytoken := t\<rparr>)"
  by (simp add: settled_def)

lemma fetch_ready:
  assumes "ready txt stk m" and "reads txt t lit rest"
  shows "looking t rest stk (fetch query m) \<and> s_literal (lval (fetch query m)) = lit"
proof -
  obtain c where c: "Scan txt = (c, lit, CHR '' '' # rest)"
    and match: "\<And>prev. \<exists>tok. Match prev (c, lit, CHR '' '' # rest) = (tok, lit, None, CHR '' '' # rest) \<and> 0 < tok \<and> token_of tok = t"
    using assms(2) by (auto simp: reads_def)
  obtain tok where tok: "Match (prevTok (lex m)) (c, lit, CHR '' '' # rest) = (tok, lit, None, CHR '' '' # rest)"
    "0 < tok" "token_of tok = t"
    using match by blast
  have m: "settled stk m" "char' m < 0" "Scan (unread (lex m)) = (c, lit, CHR '' '' # rest)"
    using assms(1) c by (simp_all add: ready_def)
  then have "blank (lval m)" "s_expr (lval m) = Nil" "err (lex m) = None" by (simp_all add: settled_def)
  with m tok show ?thesis
    by (simp add: fetch_def yylex1_def Lex_def looking_def settled_lex Scan_space blank_def)
qed

text \<open>What a state does with a token: shift to a state, or reduce a rule.\<close>

definition shift_to :: "int \<Rightarrow> int \<Rightarrow> int option" where
  "shift_to q t =
     do { n \<leftarrow> tab yyPact q;
          if n \<le> yyFlag \<or> n + t < 0 \<or> n + t \<ge> yyLast then None
          else do { s \<leftarrow> tab yyAct (n + t); c \<leftarrow> tab yyChk s; if c = t then Some s else None } }"

definition reduce_on :: "int \<Rightarrow> int \<Rightarrow> int option" where
  "reduce_on q t =
     do { n \<leftarrow> tab yyPact q;
          if n \<le> yyFlag then None
          else if n + t < 0 \<or> n + t \<ge> yyLast then tab yyDef q
          else do { s \<leftarrow> tab yyAct (n + t); c \<leftarrow> tab yyChk s; if c = t then None else tab yyDef q } }"

definition reduce_now :: "int \<Rightarrow> int option" where
  "reduce_now q = do { n \<leftarrow> tab yyPact q; if n \<le> yyFlag then tab yyDef q else None }"

lemma fetch_fetch: "0 \<le> char' m \<Longrightarrow> fetch query m = m"
  by (simp add: fetch_def)

lemma yystep_shift:
  assumes "shift_to (yystate m) (yytoken (fetch query m)) = Some s"
  shows "yystep query m = Some (Inl (push ((fetch query m)\<lparr>char' := -1, yytoken := -1, yyVAL := lval (fetch query m), yystate := s,
    Errflag := (if Errflag (fetch query m) > 0 then Errflag (fetch query m) - 1 else Errflag (fetch query m))\<rparr>)))"
proof -
  obtain n c where "tab yyPact (yystate m) = Some n" "\<not> n \<le> yyFlag" "\<not> (n + yytoken (fetch query m) < 0 \<or> n + yytoken (fetch query m) \<ge> yyLast)"
    "tab yyAct (n + yytoken (fetch query m)) = Some s" "tab yyChk s = Some c" "c = yytoken (fetch query m)"
    using assms by (auto simp: shift_to_def bind_eq_Some_conv split: if_splits)
  then show ?thesis by (simp add: yystep_def Let_def)
qed

lemma default_plain: "tab yyDef (yystate m) = Some n \<Longrightarrow> n > 0 \<Longrightarrow> default query m = map_option Inl (reduce n m)"
  by (simp add: default_def act_def)

lemma fetch_state: "yystate (fetch query m) = yystate m"
  by (simp add: fetch_def split: prod.splits)

lemma yystep_reduce:
  assumes "reduce_on (yystate m) (yytoken (fetch query m)) = Some n" and "n > 0"
  shows "yystep query m = map_option Inl (reduce n (fetch query m))"
proof -
  obtain p where p: "tab yyPact (yystate m) = Some p" "\<not> p \<le> yyFlag"
    using assms(1) by (auto simp: reduce_on_def bind_eq_Some_conv split: if_splits)
  have *: "tab yyDef (yystate (fetch query m)) = Some n \<Longrightarrow> default query (fetch query m) = map_option Inl (reduce n (fetch query m))"
    using default_plain assms(2) by blast
  show ?thesis
  proof (cases "p + yytoken (fetch query m) < 0 \<or> p + yytoken (fetch query m) \<ge> yyLast")
    case True
    with p assms(1) have "tab yyDef (yystate m) = Some n" by (simp add: reduce_on_def)
    with p True * show ?thesis by (simp add: yystep_def Let_def fetch_state)
  next
    case False
    with p assms(1) obtain s c where "tab yyAct (p + yytoken (fetch query m)) = Some s" "tab yyChk s = Some c"
      "c \<noteq> yytoken (fetch query m)" "tab yyDef (yystate m) = Some n"
      by (auto simp: reduce_on_def bind_eq_Some_conv split: if_splits)
    with p False * show ?thesis by (simp add: yystep_def Let_def fetch_state)
  qed
qed

lemma yystep_reduce_now:
  assumes "reduce_now (yystate m) = Some n" and "n > 0"
  shows "yystep query m = map_option Inl (reduce n m)"
proof -
  obtain p where "tab yyPact (yystate m) = Some p" "p \<le> yyFlag" "tab yyDef (yystate m) = Some n"
    using assms(1) by (auto simp: reduce_now_def bind_eq_Some_conv split: if_splits)
  then show ?thesis using default_plain assms(2) by (simp add: yystep_def)
qed

lemma yyParse_step: "yystep query m = Some (Inl m') \<Longrightarrow> yyParse query m = yyParse query m'"
  by (subst yyParse.simps) simp

lemma looking_state: "looking t txt stk m \<Longrightarrow> yystate m = fst (last stk)"
  and ready_state: "ready txt stk m \<Longrightarrow> yystate m = fst (last stk)"
  by (auto simp: looking_def ready_def settled_def)

lemma push_settled:
  assumes "settled stk m" and "length stk < 16" and "blank (yyVAL m)"
  shows "settled (stk @ [(s, s_expr (yyVAL m), s_literal (yyVAL m))]) (push (m\<lparr>yystate := s\<rparr>))"
proof -
  have st: "length (yyS m) = 16" "yyp m = int (length stk) - 1" "map core (take (length stk) (yyS m)) = stk" "stk \<noteq> []"
    "\<forall>x \<in> set (yyS m). blank x"
    using assms(1) by (simp_all add: settled_def)
  define v where "v = (yyVAL m)\<lparr>yys := s\<rparr>"
  have "take (length stk + 1) ((yyS m)[length stk := v]) = take (length stk) (yyS m) @ [v]"
    using st(1) assms(2) by (simp add: take_Suc_conv_app_nth list_update_append)
  moreover have "nat (int (length stk) - 1 + 1) = length stk" by simp
  moreover have "\<forall>x \<in> set ((yyS m)[length stk := v]). blank x"
    using st(5) assms(3) set_update_subset_insert [of "yyS m" "length stk" v] by (auto simp: v_def blank_def)
  ultimately show ?thesis
    using assms st by (simp add: settled_def push_def Let_def v_def [symmetric]) (simp add: core_def v_def)
qed


text \<open>A shift, of the next token or of the one read ahead.\<close>

lemma shift_any:
  assumes "settled stk (fetch query m)" and "Scan (unread (lex (fetch query m))) = Scan rest"
    and "shift_to (fst (last stk)) (yytoken (fetch query m)) = Some s" and "length stk < 16"
  shows "\<exists>m'. yyParse query m = yyParse query m' \<and> ready rest (stk @ [(s, Nil, s_literal (lval (fetch query m)))]) m'"
proof -
  let ?f = "fetch query m"
  define m1 where "m1 = ?f\<lparr>char' := -1, yytoken := -1, yyVAL := lval ?f, Errflag := 0\<rparr>"
  have f: "Errflag ?f = 0" "blank (lval ?f)" "s_expr (lval ?f) = Nil" "fst (last stk) = yystate m"
    using assms(1) by (simp_all add: settled_def fetch_state)
  have "settled stk m1" using assms(1) by (simp add: settled_def m1_def)
  from push_settled [OF this assms(4), of s] f
  have "settled (stk @ [(s, Nil, s_literal (lval ?f))]) (push (m1\<lparr>yystate := s\<rparr>))" by (simp add: m1_def)
  moreover have "?f\<lparr>char' := -1, yytoken := -1, yyVAL := lval ?f, yystate := s, Errflag := 0\<rparr> = m1\<lparr>yystate := s\<rparr>"
    by (simp add: m1_def yyParser.equality)
  then have "yystep query m = Some (Inl (push (m1\<lparr>yystate := s\<rparr>)))"
    using yystep_shift [of m query s] assms(3) f by simp
  moreover have "char' (push (m1\<lparr>yystate := s\<rparr>)) < 0" "lex (push (m1\<lparr>yystate := s\<rparr>)) = lex ?f"
    by (simp_all add: push_def grow_def m1_def Let_def)
  ultimately show ?thesis using assms(2) yyParse_step by (auto simp: ready_def)
qed

lemma shift_next:
  assumes "ready txt stk m" and "reads txt t lit rest" and "shift_to (fst (last stk)) t = Some s" and "length stk < 16"
  shows "\<exists>m'. yyParse query m = yyParse query m' \<and> ready rest (stk @ [(s, Nil, lit)]) m'"
proof -
  have "looking t rest stk (fetch query m)" "s_literal (lval (fetch query m)) = lit"
    using fetch_ready [OF assms(1,2)] by auto
  then show ?thesis using shift_any [of stk query m rest s] assms(3,4) by (simp add: looking_def)
qed

lemma shift_looking:
  assumes "looking t rest stk m" and "shift_to (fst (last stk)) t = Some s" and "length stk < 16"
  shows "\<exists>m' lit. yyParse query m = yyParse query m' \<and> ready rest (stk @ [(s, Nil, lit)]) m'"
proof -
  have "fetch query m = m" using assms(1) by (simp add: looking_def fetch_fetch)
  with assms have "settled stk (fetch query m)" "Scan (unread (lex (fetch query m))) = Scan rest"
    "shift_to (fst (last stk)) (yytoken (fetch query m)) = Some s"
    by (simp_all add: looking_def)
  from shift_any [OF this assms(3)] show ?thesis by blast
qed

text \<open>The expression that a rule makes of the slots of its right-hand side.\<close>

definition sym_of :: "slot \<Rightarrow> yySymType" where
  "sym_of = (\<lambda>(s, e, lit). zero_sym\<lparr>yys := s, s_expr := e, s_literal := lit\<rparr>)"

definition sem :: "int \<Rightarrow> slot list \<Rightarrow> node" where
  "sem n xs = s_expr (action n (\<lambda>i. sym_of (xs ! (i - 1))) zero_sym)"

definition expr_rules :: "int list" where
  "expr_rules = [12, 13, 14, 15, 16, 17, 18, 20, 23, 24]"

lemma action_sem:
  assumes "n \<in> set expr_rules" and "tab yyR2 n = Some (int (length xs))" and "\<And>i. 1 \<le> i \<Longrightarrow> i \<le> length xs \<Longrightarrow> core (d i) = xs ! (i - 1)"
  shows "s_expr (action n d v) = sem n xs" and "blank v \<Longrightarrow> blank (action n d v)"
proof -
  have len: "length xs = (if n \<in> {23, 24} then 1 else if n = 12 then 2 else 3)"
    using assms(1,2) by (auto simp: expr_rules_def tab_def yyR2_def)
  have "s_expr (d i) = s_expr (sym_of (xs ! (i - 1)))" "s_literal (d i) = s_literal (sym_of (xs ! (i - 1)))"
    if "1 \<le> i" "i \<le> length xs" for i
    using assms(3) [OF that, symmetric] by (simp_all add: core_def sym_of_def)
  from this [of 1] this [of 2] this [of 3] len assms(1) show "s_expr (action n d v) = sem n xs"
    by (auto simp: sem_def expr_rules_def action_def)
  show "blank v \<Longrightarrow> blank (action n d v)"
    using assms(1) by (auto simp: expr_rules_def action_def blank_def)
qed

lemma settled_slot: "settled stk m \<Longrightarrow> i < length stk \<Longrightarrow> core (yyS m ! i) = stk ! i"
  unfolding settled_def by (metis length_map nth_map nth_take length_take)

lemma settled_prefix:
  assumes "settled (stk @ xs) m" and "stk \<noteq> []" and "yystate m' = fst (last stk)"
    and "m' = m\<lparr>yyp := int (length stk) - 1, yystate := fst (last stk), yyVAL := v\<rparr>"
  shows "settled stk m'"
proof -
  have "map core (take (length (stk @ xs)) (yyS m)) = stk @ xs" "length (stk @ xs) \<le> 16" "length (yyS m) = 16"
    using assms(1) by (simp_all add: settled_def)
  then have "map core (take (length stk) (take (length (stk @ xs)) (yyS m))) = stk"
    by (metis append_eq_conv_conj take_map)
  then have "map core (take (length stk) (yyS m)) = stk" by (simp add: min_def)
  with assms show ?thesis by (simp add: settled_def)
qed

lemma reduce_settled:
  assumes "settled (stk @ xs) m" and "stk \<noteq> []" and "xs \<noteq> []" and "n \<in> set expr_rules"
    and "tab yyR2 n = Some (int (length xs))" and "goto_state 2 (fst (last stk)) = Some g"
  shows "\<exists>m' lit. reduce n m = Some m' \<and> settled (stk @ [(g, sem n xs, lit)]) m' \<and>
    char' m' = char' m \<and> yytoken m' = yytoken m \<and> lex m' = lex m"
proof -
  have st: "length (yyS m) = 16" "yyp m = int (length stk + length xs) - 1" "length stk + length xs \<le> 16"
    "\<forall>s \<in> set (yyS m). blank s"
    using assms(1) by (simp_all add: settled_def)
  let ?p = "int (length stk) - 1"
  have r1: "tab yyR1 n = Some 2" using assms(4) by (auto simp: expr_rules_def tab_def yyR1_def)
  have x: "0 < length xs" using assms(3) by simp
  have p: "yyp m - int (length xs) = ?p" using st(2) by simp
  have slot: "core (yyS m ! (length stk + j)) = xs ! j" if "j < length xs" for j
    using settled_slot [OF assms(1), of "length stk + j"] that by simp
  have bottom: "yys (yyS m ! (length stk - 1)) = fst (last stk)"
  proof -
    have "length stk - 1 < length stk" using assms(2) by simp
    then have "core (yyS m ! (length stk - 1)) = stk ! (length stk - 1)"
      using settled_slot [OF assms(1), of "length stk - 1"] by (simp add: nth_append)
    then show ?thesis using assms(2) by (simp add: core_def last_conv_nth) (metis fst_conv)
  qed
  define v where "v = action n (\<lambda>i. yyS m ! nat (?p + int i)) (yyS m ! length stk)"
  have d: "core (yyS m ! nat (?p + int i)) = xs ! (i - 1)" if "1 \<le> i" "i \<le> length xs" for i
  proof -
    have "nat (?p + int i) = length stk + (i - 1)" using that by (simp add: of_nat_diff nat_eq_iff)
    then show ?thesis using slot [of "i - 1"] that by simp
  qed
  have "yyS m ! length stk \<in> set (yyS m)" using st(1,3) x by (intro nth_mem) linarith
  then have v: "s_expr v = sem n xs" "blank v"
    using action_sem [OF assms(4,5) d] st(4) unfolding v_def by blast+
  have small: "length stk < 16" using st(3) assms(3) by (cases xs) simp_all
  have low: "nat ?p = length stk - 1" using assms(2) by (cases stk) simp_all
  have eq: "reduce n m = Some (push (m\<lparr>yyp := ?p, yystate := g, yyVAL := v\<rparr>))"
    using assms(2,5,6) st(1) bottom r1 small low by (simp add: reduce_def Let_def p tab_def [of "yyS m"] v_def)
  define m1 where "m1 = m\<lparr>yyp := ?p, yystate := fst (last stk), yyVAL := v\<rparr>"
  have "settled stk m1" using settled_prefix [OF assms(1,2)] by (simp add: m1_def)
  from push_settled [OF this small, of g] v(2)
  have "settled (stk @ [(g, s_expr (yyVAL m1), s_literal (yyVAL m1))]) (push (m1\<lparr>yystate := g\<rparr>))"
    by (simp add: m1_def)
  moreover have "m1\<lparr>yystate := g\<rparr> = m\<lparr>yyp := ?p, yystate := g, yyVAL := v\<rparr>" "yyVAL m1 = v"
    by (simp_all add: m1_def yyParser.equality)
  ultimately have "settled (stk @ [(g, sem n xs, s_literal v)]) (push (m\<lparr>yyp := ?p, yystate := g, yyVAL := v\<rparr>))"
    using v(1) by simp
  moreover have "char' (push w) = char' w" "yytoken (push w) = yytoken w" "lex (push w) = lex w" for w
    by (simp_all add: push_def grow_def Let_def)
  ultimately show ?thesis using eq by auto
qed


lemma reduce_read:
  assumes "ready txt (stk @ xs) m" and "reads txt t lit rest" and "reduce_on (fst (last xs)) t = Some n" and "stk \<noteq> []" and "xs \<noteq> []"
    and "n \<in> set expr_rules" and "tab yyR2 n = Some (int (length xs))" and "goto_state 2 (fst (last stk)) = Some g"
  shows "\<exists>m' lit. yyParse query m = yyParse query m' \<and> looking t rest (stk @ [(g, sem n xs, lit)]) m'"
proof -
  let ?f = "fetch query m"
  have f: "looking t rest (stk @ xs) ?f" using fetch_ready [OF assms(1,2)] by simp
  then have "settled (stk @ xs) ?f" "yytoken ?f = t" by (simp_all add: looking_def)
  from reduce_settled [OF this(1) assms(4-8)] obtain m' lit' where m': "reduce n ?f = Some m'"
    "settled (stk @ [(g, sem n xs, lit')]) m'" "char' m' = char' ?f" "yytoken m' = yytoken ?f" "lex m' = lex ?f"
    by blast
  have "n > 0" using assms(6) by (auto simp: expr_rules_def)
  moreover have "yystate m = fst (last xs)" using ready_state [OF assms(1)] assms(5) by simp
  ultimately have "yystep query m = Some (Inl m')"
    using yystep_reduce [of m query n] assms(3) \<open>yytoken ?f = t\<close> m'(1) by simp
  with m' f show ?thesis using yyParse_step by (auto simp: looking_def)
qed

lemma reduce_here:
  assumes "ready txt (stk @ xs) m" and "reduce_now (fst (last xs)) = Some n" and "stk \<noteq> []" and "xs \<noteq> []"
    and "n \<in> set expr_rules" and "tab yyR2 n = Some (int (length xs))" and "goto_state 2 (fst (last stk)) = Some g"
  shows "\<exists>m' lit. yyParse query m = yyParse query m' \<and> ready txt (stk @ [(g, sem n xs, lit)]) m'"
proof -
  have "settled (stk @ xs) m" using assms(1) by (simp add: ready_def)
  from reduce_settled [OF this assms(3-7)] obtain m' lit' where m': "reduce n m = Some m'"
    "settled (stk @ [(g, sem n xs, lit')]) m'" "char' m' = char' m" "lex m' = lex m"
    by blast
  have "n > 0" using assms(5) by (auto simp: expr_rules_def)
  moreover have "yystate m = fst (last xs)" using ready_state [OF assms(1)] assms(4) by simp
  ultimately have "yystep query m = Some (Inl m')"
    using yystep_reduce_now [of m n query] assms(2) m'(1) by simp
  with m' assms(1) show ?thesis using yyParse_step by (auto simp: ready_def)
qed

section \<open>Reading the words\<close>

lemma reads_I:
  assumes "Scan txt = (c, lit, CHR '' '' # rest)" and "\<And>prev. Match prev (c, lit, CHR '' '' # rest) = (tok, lit, None, CHR '' '' # rest)"
    and "0 < tok" and "token_of tok = t"
  shows "reads txt t lit rest"
  using assms by (auto simp: reads_def)

lemma reads_char:
  assumes "lone_char c" and "code c \<notin> {33, 58, 61}" and "0 < code c"
  shows "reads (c # CHR '' '' # rest) (token_of (code c)) [c] rest"
proof (rule reads_I [OF Scan_char [OF assms(1)]])
  show "Match prev (code c, [c], CHR '' '' # rest) = (code c, [c], None, CHR '' '' # rest)" for prev
    using assms(2,3) by (auto simp: Match_def sc_Int_def sc_Float_def sc_String_def sc_Ident_def code_def)
qed (use assms(3) in simp_all)

lemmas lone_simps = lone_char_def is_space_def is_letter_def is_decimal_def code_def Let_def

lemma reads_signs:
  "reads (''('' @ '' '' @ rest) 4 ''('' rest" "reads ('')'' @ '' '' @ rest) 23 '')'' rest"
  "reads (''~'' @ '' '' @ rest) 21 ''~'' rest" "reads (''<'' @ '' '' @ rest) 19 ''<'' rest"
  "reads (''>'' @ '' '' @ rest) 20 ''>'' rest"
  using reads_char [of "CHR ''(''" rest] reads_char [of "CHR '')''" rest] reads_char [of "CHR ''~''" rest]
    reads_char [of "CHR ''<''" rest] reads_char [of "CHR ''>''" rest]
  by (simp_all add: lone_simps token_of_def yyTok1_def)

lemma reads_equals: "reads (''='' @ '' '' @ rest) 11 ''='' rest"
proof -
  have s: "Scan (CHR ''='' # CHR '' '' # rest) = (61, [CHR ''=''], CHR '' '' # rest)"
    using Scan_char [of "CHR ''=''" rest] by (simp add: lone_simps)
  show ?thesis
    by (simp, rule reads_I [OF s, where tok = EQ])
      (simp_all add: Match_def sc_Int_def sc_Float_def sc_String_def sc_Ident_def EQ_def token_of_def yyTok1_def yyTok2_def yyPrivate_def)
qed

lemma Match_word: "Match prev (sc_Ident, x, rest) = (case ident prev x of (t, d) \<Rightarrow> (t, x, d, rest))"
  by (simp add: Match_def sc_Ident_def sc_Int_def sc_Float_def sc_String_def)

lemma reads_keywords:
  "reads (''NOT'' @ '' '' @ rest) 8 ''NOT'' rest" "reads (''AND'' @ '' '' @ rest) 9 ''AND'' rest"
  "reads (''OR'' @ '' '' @ rest) 10 ''OR'' rest"
proof -
  have s: "Scan (x @ '' '' @ rest) = (sc_Ident, x, CHR '' '' # rest)" if "x \<in> {''NOT'', ''AND'', ''OR''}" for x
    using Scan_word [of x rest] that by (auto simp: is_letter_def code_def)
  note simps = Match_word ident_def NOT_def AND_def OR_def token_of_def yyTok1_def yyTok2_def yyPrivate_def
  show "reads (''NOT'' @ '' '' @ rest) 8 ''NOT'' rest" by (rule reads_I [OF s, where tok = NOT]) (simp_all add: simps)
  show "reads (''AND'' @ '' '' @ rest) 9 ''AND'' rest" by (rule reads_I [OF s, where tok = AND]) (simp_all add: simps)
  show "reads (''OR'' @ '' '' @ rest) 10 ''OR'' rest" by (rule reads_I [OF s, where tok = OR]) (simp_all add: simps)
qed

lemma reads_word:
  assumes "printable (Ident x)"
  shows "reads (x @ '' '' @ rest) 6 x rest"
proof -
  have "Scan (x @ '' '' @ rest) = (sc_Ident, x, CHR '' '' # rest)"
    using Scan_word [of x rest] assms by simp
  then show ?thesis
    by (rule reads_I [where tok = IDENT])
      (use assms in \<open>auto simp: Match_word ident_def reserved_def IDENT_def token_of_def yyTok1_def yyTok2_def yyPrivate_def\<close>)
qed

lemma reads_text:
  assumes "printable (Str x)"
  shows "reads (quoted x @ '' '' @ rest) 7 (quoted x) rest"
proof -
  have "Scan (quoted x @ '' '' @ rest) = (sc_String, quoted x, CHR '' '' # rest)"
    using Scan_text [of x rest] assms by auto
  then show ?thesis
    by (rule reads_I [where tok = STRING])
      (simp_all add: Match_def sc_Int_def sc_Float_def sc_String_def STRING_def token_of_def yyTok1_def yyTok2_def yyPrivate_def)
qed

section \<open>Reading a filter\<close>

text \<open>The states in which an expression can start.\<close>

definition starts :: "int set" where
  "starts = {0, 3, 4, 9, 10, 11, 12, 13, 14}"

definition after :: "int \<Rightarrow> int" where
  "after q = the (goto_state 2 q)"

lemma starts_cases: "q \<in> starts \<Longrightarrow> P 0 \<Longrightarrow> P 3 \<Longrightarrow> P 4 \<Longrightarrow> P 9 \<Longrightarrow> P 10 \<Longrightarrow> P 11 \<Longrightarrow> P 12 \<Longrightarrow> P 13 \<Longrightarrow> P 14 \<Longrightarrow> P q"
  by (auto simp: starts_def)

lemma start_tables:
  assumes "q \<in> starts"
  shows "goto_state 2 q = Some (after q)" "shift_to q 4 = Some 4" "shift_to q 6 = Some 6" "shift_to q 7 = Some 7"
  by (rule starts_cases [OF assms]; code_simp)+

text \<open>
  An operator: its text, its token, its state, the state after its right operand, and its rule. The equality binds so tight that its
  rule needs no token ahead.
\<close>

definition operators :: "(string \<times> int \<times> int \<times> int \<times> int) set" where
  "operators = {(''<'', 19, 9, 22, 13), (''>'', 20, 10, 23, 14), (''~'', 21, 11, 24, 15), (''AND'', 9, 12, 25, 16),
     (''OR'', 10, 13, 26, 17)}"

lemma operator_tables:
  assumes "(op, t, s, g, n) \<in> operators"
  shows "reads (op @ '' '' @ rest) t op rest" "shift_to 18 t = Some s" "s \<in> starts" "after s = g" "reduce_on g 23 = Some n"
    "n \<in> set expr_rules" "tab yyR2 n = Some 3"
proof -
  show "reads (op @ '' '' @ rest) t op rest"
    using assms reads_signs reads_keywords by (auto simp: operators_def)
  have "\<forall>(op, t, s, g, n) \<in> operators. shift_to 18 t = Some s \<and> s \<in> starts \<and> after s = g \<and> reduce_on g 23 = Some n \<and>
      n \<in> set expr_rules \<and> tab yyR2 n = Some 3"
    by code_simp
  with assms show "shift_to 18 t = Some s" "s \<in> starts" "after s = g" "reduce_on g 23 = Some n" "n \<in> set expr_rules" "tab yyR2 n = Some 3"
    by auto
qed

definition reads_back :: "node \<Rightarrow> bool" where
  "reads_back e \<longleftrightarrow> (\<forall>query m stk rest. ready (print e @ rest) stk m \<and> fst (last stk) \<in> starts \<and> length stk + slots e \<le> 16 \<longrightarrow>
     (\<exists>m' lit. yyParse query m = yyParse query m' \<and> ready rest (stk @ [(after (fst (last stk)), e, lit)]) m'))"

text \<open>The closing parenthesis after an expression, from the state 18.\<close>

lemma closed:
  assumes "ready rest (stk @ [(4, a, b), (18, e, lit), (30, Nil, lit')]) m" and "stk \<noteq> []" and "fst (last stk) \<in> starts"
  shows "\<exists>m' lit. yyParse query m = yyParse query m' \<and> ready rest (stk @ [(after (fst (last stk)), e, lit)]) m'"
proof -
  have "reduce_now 30 = Some 20" "20 \<in> set expr_rules" "tab yyR2 20 = Some 3" by code_simp+
  with reduce_here [OF assms(1) _ assms(2) _ this(2), of "after (fst (last stk))" query] start_tables(1) [OF assms(3)]
  obtain m2 lit2 where "yyParse query m = yyParse query m2"
    "ready rest (stk @ [(after (fst (last stk)), sem 20 [(4, a, b), (18, e, lit), (30, Nil, lit')], lit2)]) m2"
    by auto
  moreover have "sem 20 [(4, a, b), (18, e, lit), (30, Nil, lit')] = e" by (simp add: sem_def action_def sym_of_def)
  ultimately show ?thesis by auto
qed

lemma shift_close: "shift_to 18 23 = Some 30"
  by code_simp

lemma closes:
  assumes "looking 23 rest (stk @ [(4, a, b), (18, e, lit)]) m" and "stk \<noteq> []" and "fst (last stk) \<in> starts" and "length stk + 3 \<le> 16"
  shows "\<exists>m' lit. yyParse query m = yyParse query m' \<and> ready rest (stk @ [(after (fst (last stk)), e, lit)]) m'"
proof -
  obtain m1 lit1 where "yyParse query m = yyParse query m1"
    "ready rest (stk @ [(4, a, b), (18, e, lit), (30, Nil, lit1)]) m1"
    using shift_looking [OF assms(1), of 30 query] shift_close assms(4) by auto
  then show ?thesis using closed [OF _ assms(2,3)] by metis
qed

text \<open>The atoms: one shift and one reduction.\<close>

lemma reads_back_atom:
  assumes "\<And>rest. reads (word @ '' '' @ rest) t lit rest" and "print e = word @ '' ''" and "slots e = 1"
    and "\<And>q. q \<in> starts \<Longrightarrow> shift_to q t = Some s" and "reduce_now s = Some n" and "n \<in> set expr_rules"
    and "tab yyR2 n = Some 1" and "sem n [(s, Nil, lit)] = e"
  shows "reads_back e"
  unfolding reads_back_def
proof (intro allI impI, elim conjE)
  fix query m stk rest
  assume r: "ready (print e @ rest) stk m" and q: "fst (last stk) \<in> starts" and len: "length stk + slots e \<le> 16"
  have ne: "stk \<noteq> []" using r by (simp add: ready_def settled_def)
  obtain m1 where m1: "yyParse query m = yyParse query m1" "ready rest (stk @ [(s, Nil, lit)]) m1"
    using shift_next [of _ stk m t lit rest s query] r assms(1) [of rest] assms(2,3,4) q len by auto
  from reduce_here [OF m1(2) _ ne _ assms(6), of "after (fst (last stk))" query] assms(5,7,8) start_tables(1) [OF q]
  show "\<exists>m' lit. yyParse query m = yyParse query m' \<and> ready rest (stk @ [(after (fst (last stk)), e, lit)]) m'"
    using m1(1) by auto
qed

lemma reads_back_Ident: "printable (Ident x) \<Longrightarrow> reads_back (Ident x)"
  by (rule reads_back_atom [where t = 6 and s = 6 and n = 23 and word = x, OF reads_word])
    (simp_all add: start_tables(3) reduce_now_def tab_def yyPact_def yyDef_def yyFlag_def expr_rules_def yyR2_def sem_def action_def sym_of_def)

lemma reads_back_Str: "printable (Str x) \<Longrightarrow> reads_back (Str x)"
  by (rule reads_back_atom [where t = 7 and s = 7 and n = 24 and word = "quoted x", OF reads_text])
    (auto simp: start_tables(4) reduce_now_def tab_def yyPact_def yyDef_def yyFlag_def expr_rules_def yyR2_def sem_def action_def sym_of_def
      trim_quoted)


text \<open>An opening parenthesis and the expression after it, which ends in the state 18.\<close>

lemma reads_open:
  assumes "reads_back l" and "ready (''( '' @ print l @ rest) stk m" and "fst (last stk) \<in> starts" and "length stk + (1 + slots l) \<le> 16"
  shows "\<exists>m' a b lit. yyParse query m = yyParse query m' \<and> ready rest (stk @ [(4, a, b), (18, l, lit)]) m'"
proof -
  have "length stk < 16" using assms(4) slots_pos [of l] by linarith
  then obtain m1 where m1: "yyParse query m = yyParse query m1" "ready (print l @ rest) (stk @ [(4, Nil, ''('')]) m1"
    using shift_next [OF assms(2), of 4 "''(''" "print l @ rest" 4 query] reads_signs(1) [of "print l @ rest"] start_tables(2) [OF assms(3)]
    by auto
  moreover have "4 \<in> starts" "after 4 = 18" by code_simp+
  ultimately obtain m2 lit where "yyParse query m1 = yyParse query m2" "ready rest (stk @ [(4, Nil, ''('')] @ [(18, l, lit)]) m2"
    using assms(1,4) by (fastforce simp: reads_back_def)
  then show ?thesis using m1(1) by auto
qed

lemma reads_back_binary:
  assumes "(op, t, s, g, n) \<in> operators" and "reads_back l" and "reads_back r"
    and "print e = ''( '' @ print l @ op @ '' '' @ print r @ '') ''" and "slots e = max (1 + slots l) (3 + slots r)"
    and "\<And>a b x y z. sem n [(18, l, x), (s, a, y), (g, r, z)] = e"
  shows "reads_back e"
  unfolding reads_back_def
proof (intro allI impI, elim conjE)
  fix query m stk rest
  assume rdy: "ready (print e @ rest) stk m" and q: "fst (last stk) \<in> starts" and len: "length stk + slots e \<le> 16"
  note tables = operator_tables [OF assms(1)]
  have ne: "stk \<noteq> []" using rdy by (simp add: ready_def settled_def)
  have len': "length stk + (1 + slots l) \<le> 16" "length stk + 3 + slots r \<le> 16" using len assms(5) by auto
  let ?rest = "op @ '' '' @ print r @ '') '' @ rest"
  have "ready (''( '' @ print l @ ?rest) stk m" using rdy assms(4) by simp
  from reads_open [OF assms(2) this q len'(1), of query] obtain m1 a b lit where
    m1: "yyParse query m = yyParse query m1" "ready ?rest (stk @ [(4, a, b), (18, l, lit)]) m1"
    by blast
  obtain m2 where m2: "yyParse query m1 = yyParse query m2"
    "ready (print r @ '') '' @ rest) (stk @ [(4, a, b), (18, l, lit), (s, Nil, op)]) m2"
    using shift_next [OF m1(2) tables(1), of s query] tables(2) len'(2) slots_pos [of r] by auto
  have "fst (last (stk @ [(4, a, b), (18, l, lit), (s, Nil, op)])) \<in> starts"
    "length (stk @ [(4, a, b), (18, l, lit), (s, Nil, op)]) + slots r \<le> 16"
    using tables(3) len'(2) by simp_all
  then obtain m3 lit3 where m3: "yyParse query m2 = yyParse query m3"
    "ready ('') '' @ rest) ((stk @ [(4, a, b)]) @ [(18, l, lit), (s, Nil, op), (g, r, lit3)]) m3"
    using assms(3) m2(2) tables(4) unfolding reads_back_def by fastforce
  have "reads ('') '' @ rest) 23 '')'' rest" using reads_signs(2) [of rest] by simp
  note closing = reduce_read [OF m3(2) this, of n 18 query]
  have "goto_state 2 4 = Some 18" by code_simp
  with closing tables(5-7) obtain m4 lit4 where
    m4: "yyParse query m3 = yyParse query m4"
      "looking 23 rest ((stk @ [(4, a, b)]) @ [(18, sem n [(18, l, lit), (s, Nil, op), (g, r, lit3)], lit4)]) m4"
    by auto
  have "\<exists>m' lit. yyParse query m4 = yyParse query m' \<and> ready rest (stk @ [(after (fst (last stk)), e, lit)]) m'"
    using closes [of rest stk a b e lit4 m4 query] m4(2) assms(6) ne q len'(2) slots_pos [of r] by simp
  then show "\<exists>m' lit. yyParse query m = yyParse query m' \<and> ready rest (stk @ [(after (fst (last stk)), e, lit)]) m'"
    using m1(1) m2(1) m3(1) m4(1) by simp
qed

lemma reads_back_Equals:
  assumes "reads_back l" and "reads_back r"
  shows "reads_back (Equals l r)"
  unfolding reads_back_def
proof (intro allI impI, elim conjE)
  fix query m stk rest
  assume rdy: "ready (print (Equals l r) @ rest) stk m" and q: "fst (last stk) \<in> starts" and len: "length stk + slots (Equals l r) \<le> 16"
  have ne: "stk \<noteq> []" using rdy by (simp add: ready_def settled_def)
  have len': "length stk + (1 + slots l) \<le> 16" "length stk + 3 + slots r \<le> 16" using len by auto
  let ?rest = "''='' @ '' '' @ print r @ '') '' @ rest"
  have "ready (''( '' @ print l @ ?rest) stk m" using rdy by simp
  from reads_open [OF assms(1) this q len'(1), of query] obtain m1 a b lit where
    m1: "yyParse query m = yyParse query m1" "ready ?rest (stk @ [(4, a, b), (18, l, lit)]) m1"
    by blast
  have tables: "shift_to 18 11 = Some 14" "14 \<in> starts" "after 14 = 27" "reduce_now 27 = Some 18" "18 \<in> set expr_rules"
    "tab yyR2 18 = Some 3" "goto_state 2 4 = Some 18" "shift_to 18 23 = Some 30"
    by code_simp+
  obtain m2 where m2: "yyParse query m1 = yyParse query m2"
    "ready (print r @ '') '' @ rest) (stk @ [(4, a, b), (18, l, lit), (14, Nil, ''='')]) m2"
    using shift_next [OF m1(2) reads_equals, of 14 query] tables(1) len'(2) slots_pos [of r] by auto
  have "fst (last (stk @ [(4, a, b), (18, l, lit), (14, Nil, ''='')])) \<in> starts"
    "length (stk @ [(4, a, b), (18, l, lit), (14, Nil, ''='')]) + slots r \<le> 16"
    using tables(2) len'(2) by simp_all
  then obtain m3 lit3 where m3: "yyParse query m2 = yyParse query m3"
    "ready ('') '' @ rest) ((stk @ [(4, a, b)]) @ [(18, l, lit), (14, Nil, ''=''), (27, r, lit3)]) m3"
    using assms(2) m2(2) tables(3) unfolding reads_back_def by fastforce
  from reduce_here [OF m3(2), of 18 18 query] tables obtain m4 lit4 where m4: "yyParse query m3 = yyParse query m4"
    "ready ('') '' @ rest) (stk @ [(4, a, b), (18, sem 18 [(18, l, lit), (14, Nil, ''=''), (27, r, lit3)], lit4)]) m4"
    by auto
  moreover have "sem 18 [(18, l, lit), (14, Nil, ''=''), (27, r, lit3)] = Equals l r" by (simp add: sem_def action_def sym_of_def)
  ultimately have "ready ('')'' @ '' '' @ rest) (stk @ [(4, a, b), (18, Equals l r, lit4)]) m4" by simp
  from shift_next [OF this reads_signs(2), of 30 query] tables(8) len'(2) slots_pos [of r] obtain m5 where
    m5: "yyParse query m4 = yyParse query m5" "ready rest (stk @ [(4, a, b), (18, Equals l r, lit4), (30, Nil, '')'')]) m5"
    by auto
  from closed [OF m5(2) ne q, of query]
  show "\<exists>m' lit. yyParse query m = yyParse query m' \<and> ready rest (stk @ [(after (fst (last stk)), Equals l r, lit)]) m'"
    using m1(1) m2(1) m3(1) m4(1) m5(1) by simp
qed

lemma reads_back_Not:
  assumes "reads_back l"
  shows "reads_back (Not l)"
  unfolding reads_back_def
proof (intro allI impI, elim conjE)
  fix query m stk rest
  assume rdy: "ready (print (Not l) @ rest) stk m" and q: "fst (last stk) \<in> starts" and len: "length stk + slots (Not l) \<le> 16"
  have ne: "stk \<noteq> []" using rdy by (simp add: ready_def settled_def)
  have len': "length stk + 2 + slots l \<le> 16" "length stk + 3 \<le> 16" using len slots_pos [of l] by auto
  have "ready (''('' @ '' '' @ ''NOT'' @ '' '' @ print l @ '') '' @ rest) stk m" using rdy by simp
  from shift_next [OF this reads_signs(1) start_tables(2) [OF q], of query] len' obtain m1 where
    m1: "yyParse query m = yyParse query m1" "ready (''NOT'' @ '' '' @ print l @ '') '' @ rest) (stk @ [(4, Nil, ''('')]) m1"
    by auto
  have tables: "shift_to 4 8 = Some 3" "3 \<in> starts" "after 3 = 17" "reduce_on 17 23 = Some 12" "12 \<in> set expr_rules"
    "tab yyR2 12 = Some 2" "goto_state 2 4 = Some 18"
    by code_simp+
  from shift_next [OF m1(2) reads_keywords(1), of 3 query] tables(1) len' obtain m2 where
    m2: "yyParse query m1 = yyParse query m2" "ready (print l @ '') '' @ rest) (stk @ [(4, Nil, ''(''), (3, Nil, ''NOT'')]) m2"
    by auto
  have "fst (last (stk @ [(4, Nil, ''(''), (3, Nil, ''NOT'')])) \<in> starts"
    "length (stk @ [(4, Nil, ''(''), (3, Nil, ''NOT'')]) + slots l \<le> 16"
    using tables(2) len' by simp_all
  then obtain m3 lit3 where m3: "yyParse query m2 = yyParse query m3"
    "ready ('') '' @ rest) ((stk @ [(4, Nil, ''('')]) @ [(3, Nil, ''NOT''), (17, l, lit3)]) m3"
    using assms m2(2) tables(3) unfolding reads_back_def by fastforce
  have "reads ('') '' @ rest) 23 '')'' rest" using reads_signs(2) [of rest] by simp
  from reduce_read [OF m3(2) this, of 12 18 query] tables obtain m4 lit4 where m4: "yyParse query m3 = yyParse query m4"
    "looking 23 rest (stk @ [(4, Nil, ''(''), (18, sem 12 [(3, Nil, ''NOT''), (17, l, lit3)], lit4)]) m4"
    by auto
  moreover have "sem 12 [(3, Nil, ''NOT''), (17, l, lit3)] = Not l" by (simp add: sem_def action_def sym_of_def)
  ultimately have "\<exists>m' lit. yyParse query m4 = yyParse query m' \<and> ready rest (stk @ [(after (fst (last stk)), Not l, lit)]) m'"
    using closes [of rest stk "Nil" "''(''" "Not l" lit4 m4 query] ne q len'(2) by simp
  then show "\<exists>m' lit. yyParse query m = yyParse query m' \<and> ready rest (stk @ [(after (fst (last stk)), Not l, lit)]) m'"
    using m1(1) m2(1) m3(1) m4(1) by simp
qed

lemma printable_reads_back: "printable e \<Longrightarrow> reads_back e"
proof (induction e)
  case (Ident x) then show ?case by (rule reads_back_Ident)
next
  case (Str x) then show ?case by (rule reads_back_Str)
next
  case (Not l) then show ?case using reads_back_Not by simp
next
  case (Equals l r) then show ?case using reads_back_Equals by simp
next
  case (LessThan l r)
  show ?case by (rule reads_back_binary [where op = "''<''" and t = 19 and s = 9 and g = 22 and n = 13 and l = l and r = r]) (use LessThan in \<open>simp_all add: operators_def sem_def action_def sym_of_def\<close>)
next
  case (GreaterThan l r)
  show ?case by (rule reads_back_binary [where op = "''>''" and t = 20 and s = 10 and g = 23 and n = 14 and l = l and r = r]) (use GreaterThan in \<open>simp_all add: operators_def sem_def action_def sym_of_def\<close>)
next
  case (Contains l r)
  show ?case by (rule reads_back_binary [where op = "''~''" and t = 21 and s = 11 and g = 24 and n = 15 and l = l and r = r]) (use Contains in \<open>simp_all add: operators_def sem_def action_def sym_of_def\<close>)
next
  case (And l r)
  show ?case by (rule reads_back_binary [where op = "''AND''" and t = 9 and s = 12 and g = 25 and n = 16 and l = l and r = r]) (use And in \<open>simp_all add: operators_def sem_def action_def sym_of_def\<close>)
next
  case (Or l r)
  show ?case by (rule reads_back_binary [where op = "''OR''" and t = 10 and s = 13 and g = 26 and n = 17 and l = l and r = r]) (use Or in \<open>simp_all add: operators_def sem_def action_def sym_of_def\<close>)
qed simp_all


section \<open>The end of the text\<close>

lemma Scan_Nil: "Scan [] = (sc_EOF, [], [])"
  by (simp add: Scan.simps [of "[]"])

lemma fetch_end:
  assumes "ready [] stk m"
  shows "ready [] stk (fetch query m) \<and> yytoken (fetch query m) = 1"
proof -
  have m: "settled stk m" "char' m < 0" "Scan (unread (lex m)) = (sc_EOF, [], [])"
    using assms by (simp_all add: ready_def Scan_Nil)
  have "Match prev (sc_EOF, [], []) = (-1, [], None, [])" for prev
    by (simp add: Match_def sc_EOF_def sc_Int_def sc_Float_def sc_String_def sc_Ident_def)
  moreover have "token_of (-1) = 1" by (simp add: token_of_def yyTok1_def)
  moreover have "blank (lval m)" "s_expr (lval m) = Nil" "err (lex m) = None" using m(1) by (simp_all add: settled_def)
  ultimately show ?thesis
    using m by (simp add: fetch_def yylex1_def Lex_def ready_def settled_lex Scan_Nil blank_def)
qed

text \<open>The empty order and the empty limit: what they find in the free slot of the stack is blank.\<close>

lemma reduce_empty:
  assumes "ready [] stk m" and "length stk < 16" and "reduce_on (fst (last stk)) 1 = Some n" and "n \<in> {2, 4}"
    and "tab yyR1 n = Some nt" and "goto_state nt (fst (last stk)) = Some g"
  shows "\<exists>m' a b. yyParse query m = yyParse query m' \<and> ready [] (stk @ [(g, a, b)]) m'"
proof -
  define f where "f = fetch query m"
  have f: "ready [] stk f" "yytoken f = 1" using fetch_end [OF assms(1), of query] by (simp_all add: f_def)
  then have st: "settled stk f" "length (yyS f) = 16" "yyp f = int (length stk) - 1" "\<forall>s \<in> set (yyS f). blank s" "stk \<noteq> []"
    by (simp_all add: ready_def settled_def)
  define v where "v = yyS f ! length stk"
  have v: "blank v" using st(2,4) assms(2) by (simp add: v_def)
  have low: "nat (int (length stk) - 1) = length stk - 1" using st(5) by (cases stk) simp_all
  have "core (yyS f ! (length stk - 1)) = stk ! (length stk - 1)"
    using settled_slot [OF st(1), of "length stk - 1"] st(5) by simp
  then have bottom: "yys (yyS f ! (length stk - 1)) = fst (last stk)"
    using st(5) by (simp add: core_def last_conv_nth) (metis fst_conv)
  from assms(4) have "n = 2 \<or> n = 4" by simp
  then have r: "tab yyR2 n = Some 0" "\<And>d. action n d v = v"
    by (elim disjE; simp add: tab_def yyR2_def action_def)+
  have eq: "reduce n f = Some (push (f\<lparr>yyp := int (length stk) - 1, yystate := g, yyVAL := v\<rparr>))"
    using assms(2,5,6) st(2,3,5) bottom low r by (simp add: reduce_def Let_def tab_def [of "yyS f"] v_def)
  define m1 where "m1 = f\<lparr>yyp := int (length stk) - 1, yyVAL := v\<rparr>"
  have "settled stk m1" using st(1) by (simp add: settled_def m1_def)
  from push_settled [OF this assms(2), of g] v
  have "settled (stk @ [(g, s_expr v, s_literal v)]) (push (m1\<lparr>yystate := g\<rparr>))" by (simp add: m1_def)
  moreover have "m1\<lparr>yystate := g\<rparr> = f\<lparr>yyp := int (length stk) - 1, yystate := g, yyVAL := v\<rparr>"
    by (simp add: m1_def yyParser.equality)
  moreover have "char' (push w) = char' w" "lex (push w) = lex w" for w
    by (simp_all add: push_def grow_def Let_def)
  ultimately have "ready [] (stk @ [(g, s_expr v, s_literal v)]) (push (f\<lparr>yyp := int (length stk) - 1, yystate := g, yyVAL := v\<rparr>))"
    using f(1) by (simp add: ready_def)
  moreover have "yystep query m = Some (Inl (push (f\<lparr>yyp := int (length stk) - 1, yystate := g, yyVAL := v\<rparr>)))"
    using yystep_reduce [of m query n] assms(3,4) f(2) eq ready_state [OF assms(1)] by (auto simp: f_def)
  ultimately show ?thesis using yyParse_step by blast
qed

text \<open>The query itself, and the end.\<close>

lemma accepts:
  assumes "ready [] [(0, a0, b0), (2, e, lit), (8, a1, b1), (20, a2, b2)] m"
  shows "\<exists>m'. yyParse query m = Some (Accepted m') \<and> err (lex m') = None \<and> s_query (own_stack m' ! 1) = (e, [], 0)"
proof -
  let ?stk = "[(0, a0, b0), (2, e, lit), (8, a1, b1), (20, a2, b2)]"
  have st: "settled ?stk m" "length (yyS m) = 16" "yyp m = 3" "\<forall>s \<in> set (yyS m). blank s" "moved m = None"
    "blank (lval m)" "s_expr (lval m) = Nil" "err (lex m) = None" "Errflag m = 0" "yystate m = 20"
    using assms by (simp_all add: ready_def settled_def)
  have slots: "core (yyS m ! 0) = (0, a0, b0)" "core (yyS m ! 1) = (2, e, lit)"
    using settled_slot [OF st(1), of 0] settled_slot [OF st(1), of 1] by simp_all
  have "blank (yyS m ! 2)" "blank (yyS m ! 3)" using st(2,4) by simp_all
  define q where "q = (yyS m ! 1)\<lparr>s_query := (e, [], 0)\<rparr>"
  have tables: "reduce_now 20 = Some 1" "tab yyR2 1 = Some 3" "tab yyR1 1 = Some 1" "goto_state 1 0 = Some 1" by code_simp+
  have "reduce 1 m = Some (push (m\<lparr>yyp := 0, yystate := 1, yyVAL := q\<rparr>))"
    using tables st(2,3) slots \<open>blank (yyS m ! 2)\<close> \<open>blank (yyS m ! 3)\<close>
    by (simp add: reduce_def Let_def tab_def [of "yyS m"] core_def action_def blank_def q_def)
  then have step: "yystep query m = Some (Inl (push (m\<lparr>yyp := 0, yystate := 1, yyVAL := q\<rparr>)))"
    using yystep_reduce_now [of m 1 query] tables(1) st(10) by simp
  define m1 where "m1 = push (m\<lparr>yyp := 0, yystate := 1, yyVAL := q\<rparr>)"
  have m1: "yystate m1 = 1" "char' m1 < 0" "Scan (unread (lex m1)) = Scan []" "err (lex m1) = None" "moved m1 = None"
    "yyS m1 ! 1 = q\<lparr>yys := 1\<rparr>"
    using assms st by (simp_all add: m1_def push_def Let_def ready_def)
  have "Match prev (sc_EOF, [], []) = (-1, [], None, [])" for prev
    by (simp add: Match_def sc_EOF_def sc_Int_def sc_Float_def sc_String_def sc_Ident_def)
  moreover have "token_of (-1) = 1" by (simp add: token_of_def yyTok1_def)
  ultimately have f: "yytoken (fetch query m1) = 1" "err (lex (fetch query m1)) = None" "own_stack (fetch query m1) = yyS m1"
    "yystate (fetch query m1) = 1"
    using m1 by (simp_all add: fetch_def yylex1_def Lex_def Scan_Nil own_stack_def)
  have "tab yyPact 1 = Some (-1000)" "tab yyDef 1 = Some (-2)" "exca_of 1 yyExca = Some [1, -1, -2, 0]" "exca_action 1 [1, -1, -2, 0] = Some (-1)"
    by code_simp+
  then have "yystep query m1 = Some (Inr (Accepted (fetch query m1)))"
    using m1(1) f(1,4) by (simp add: yystep_def default_def yyFlag_def Let_def)
  then have "yyParse query m1 = Some (Accepted (fetch query m1))" by (subst yyParse.simps) simp
  moreover have "yyParse query m = yyParse query m1" using yyParse_step step by (simp add: m1_def)
  ultimately show ?thesis using f m1(6) by (simp add: q_def)
qed

lemma Parse_printed:
  assumes "printable e" and "slots e \<le> 15"
  shows "Parse (print e) = Some (Inr (e, [], 0))"
proof -
  let ?m = "start_parser (print e)"
  have "(replicate 16 zero_sym)[0 := zero_sym] = replicate 16 zero_sym" by (metis list_update_id nth_replicate zero_less_numeral)
  moreover have "zero_sym\<lparr>yys := 0\<rparr> = zero_sym" "core zero_sym = (0, Nil, [])" "blank zero_sym"
    by (simp_all add: zero_sym_def core_def blank_def)
  ultimately have "ready (print e @ []) [(0, Nil, [])] ?m"
    by (simp add: ready_def settled_def start_parser_def push_def Let_def yyInitialStackSize_def zero_sym_def)
  moreover have "0 \<in> starts" "after 0 = 2" by code_simp+
  ultimately obtain m1 lit where m1: "yyParse (print e) ?m = yyParse (print e) m1" "ready [] [(0, Nil, []), (2, e, lit)] m1"
    using printable_reads_back [OF assms(1)] assms(2) unfolding reads_back_def by fastforce
  have tables: "reduce_on 2 1 = Some 4" "tab yyR1 4 = Some 3" "goto_state 3 2 = Some 8"
    "reduce_on 8 1 = Some 2" "tab yyR1 2 = Some 7" "goto_state 7 8 = Some 20"
    by code_simp+
  obtain m2 a1 b1 where m2: "yyParse (print e) m1 = yyParse (print e) m2" "ready [] [(0, Nil, []), (2, e, lit), (8, a1, b1)] m2"
    using reduce_empty [OF m1(2), of 4 3 8 "print e"] tables by auto
  obtain m3 a2 b2 where m3: "yyParse (print e) m2 = yyParse (print e) m3"
    "ready [] [(0, Nil, []), (2, e, lit), (8, a1, b1), (20, a2, b2)] m3"
    using reduce_empty [OF m2(2), of 2 7 20 "print e"] tables by auto
  obtain m4 where "yyParse (print e) m3 = Some (Accepted m4)" "err (lex m4) = None" "s_query (own_stack m4 ! 1) = (e, [], 0)"
    using accepts [OF m3(2)] by blast
  moreover have "print e \<noteq> []" using assms(1) by (cases e) auto
  ultimately show ?thesis using m1(1) m2(1) m3(1) by (simp add: Parse_def result_of_def)
qed

text \<open>
  C8. A filter of names, texts and operators, written with each operator in parentheses, is parsed back to itself, with
  no order and no limit, as long as it takes no more than fifteen slots of the parser's stack.
\<close>

theorem parse_print:
  assumes "printable e" and "slots e \<le> 15"
  shows "Parse (print e) = Some (Inr (e, [], 0))"
  by (rule Parse_printed [OF assms])

theorem parse_print_witness:
  "Parse ''( ( Name = \"a b\" ) AND ( Country ~ at ) ) '' =
     Some (Inr (And (Equals (Ident ''Name'') (Str ''a b'')) (Contains (Ident ''Country'') (Ident ''at'')), [], 0))"
  using parse_print [of "And (Equals (Ident ''Name'') (Str ''a b'')) (Contains (Ident ''Country'') (Ident ''at''))"]
  by (simp add: quoted_def is_letter_def code_def reserved_def)


section \<open>Deeper filters\<close>

text \<open>Tests of a result, for the evaluation of concrete queries: nodes hold functions, so equality of nodes does not evaluate.\<close>

fun plan_is :: "(node \<Rightarrow> bool) \<Rightarrow> orderBy list \<Rightarrow> (string + plan) option \<Rightarrow> bool" where
  "plan_is P ord (Some (Inr (f, ord', l))) = (P f \<and> ord' = ord \<and> l = 0)"
| "plan_is P ord _ = False"

fun is_nil :: "node \<Rightarrow> bool" where
  "is_nil Nil = True"
| "is_nil _ = False"

fun is_ident :: "string \<Rightarrow> node \<Rightarrow> bool" where
  "is_ident x (Ident y) = (x = y)"
| "is_ident x _ = False"

fun failed :: "(string + plan) option \<Rightarrow> string option" where
  "failed (Some (Inl e)) = Some e"
| "failed _ = None"

lemma plan_is_iff: "plan_is P ord r \<longleftrightarrow> (\<exists>f. r = Some (Inr (f, ord, 0)) \<and> P f)"
  by (cases "(P, ord, r)" rule: plan_is.cases) auto

lemma is_nil_iff: "is_nil n \<longleftrightarrow> n = Nil"
  by (cases n) auto

lemma is_ident_iff: "is_ident x n \<longleftrightarrow> n = Ident x"
  by (cases n) auto

lemma failed_iff: "failed r = Some e \<longleftrightarrow> r = Some (Inl e)"
  by (cases r rule: failed.cases) auto

text \<open>
  The stack of the parser is an array inside it, and the result is read from that array. A filter that needs more than its sixteen
  slots, such as a name in fourteen parentheses, moves the parsing to a copy: the result is the empty query, whose filter
  is nil, and the query panics, on any dataset.
\<close>

theorem deep_query_panics:
  "Parse ''((((((((((((((Ok))))))))))))))'' = Some (Inr (Nil, [], 0)) \<and>
   Dataset_Query Parse p d ''((((((((((((((Ok))))))))))))))'' = None"
proof -
  have "plan_is is_nil [] (Parse ''((((((((((((((Ok))))))))))))))'')" by code_simp
  then have "Parse ''((((((((((((((Ok))))))))))))))'' = Some (Inr (Nil, [], 0))"
    by (auto simp: plan_is_iff is_nil_iff)
  then show ?thesis by (simp add: Dataset_Query_def run_query_def Dataset_Transform_def)
qed

text \<open>
  Character and raw string literals, which the scanner knows but the parser does not, read as the end of the text: what follows
  one is lost without an error, or the error names an end where there is none.
\<close>

theorem quotes_end_query:
  "Parse (''Ok '' @ [CHR 0x27] @ ''x'' @ [CHR 0x27]) = Some (Inr (Ident ''Ok'', [], 0)) \<and>
   Parse (''Ok '' @ [CHR 0x60] @ '' AND Speed > 7 '' @ [CHR 0x60]) = Some (Inr (Ident ''Ok'', [], 0)) \<and>
   (\<exists>e. Parse (''Name = '' @ [CHR 0x27] @ ''x'' @ [CHR 0x27]) = Some (Inl e) \<and> take 29 e = ''syntax error: unexpected $end'')"
proof -
  have "plan_is (is_ident ''Ok'') [] (Parse (''Ok '' @ [CHR 0x27] @ ''x'' @ [CHR 0x27]))"
    "plan_is (is_ident ''Ok'') [] (Parse (''Ok '' @ [CHR 0x60] @ '' AND Speed > 7 '' @ [CHR 0x60]))"
    "failed (Parse (''Name = '' @ [CHR 0x27] @ ''x'' @ [CHR 0x27])) =
       Some (''syntax error: unexpected $end: ..me = <<<'' @ [CHR 0x27] @ ''x'' @ [CHR 0x27] @ ''>>>'')"
    by code_simp+
  then show ?thesis by (auto simp: plan_is_iff is_ident_iff failed_iff)
qed

end
