(* ===== verification/Pages.thy ===== *)
theory Pages
  imports Dashboards QueryText
begin

text \<open>
  The pages end to end: the text of the query goes through the scanner and the parser, the filter is compiled against the
  columns of the page, and the rows come back selected, sorted and cut.
\<close>

lemma nths_filter: "(\<And>i. i < length xs \<Longrightarrow> (i \<in> I) = P (xs ! i)) \<Longrightarrow> nths xs I = filter P xs"
proof (induction xs arbitrary: I)
  case (Cons x xs)
  have "nths xs {j. Suc j \<in> I} = filter P xs" using Cons.prems by (intro Cons.IH) force
  then show ?case using Cons.prems [of 0] by (simp add: nths_Cons)
qed simp

lemma chain_by_single: "chain_by [c] = c"
  by (simp add: fun_eq_iff)

lemma dataset_of_fields [simp]:
  "Source (dataset_of cols srt a d fs dur now rows) = rows"
  "Accessors (dataset_of cols srt a d fs dur now rows) = map (accessor_of rows) cols"
  "Sorters (dataset_of cols srt a d fs dur now rows) = map (sorter_of a d) srt"
  "FacetsOf (dataset_of cols srt a d fs dur now rows) = (\<lambda>filtered topN. Facets dur now (fs filtered) (length filtered) topN)"
  by (simp_all add: dataset_of_def)

text \<open>The pool is sorted by the last time a proxy was seen, the latest first, unless the query says otherwise.\<close>

definition latest :: "api_entry \<Rightarrow> api_entry \<Rightarrow> bool" where
  "latest l r = (a_LastSeen l > a_LastSeen r)"

lemma strict_weak_latest: "strict_weak latest"
  unfolding latest_def [abs_def] by (rule strict_weak_key_desc)

lemma ordering_latest:
  "ordering (map (sorter_of [] [''LastSeen'']) api_columns) [\<lparr>ob_Ident = ''LastSeen'', ob_Asc = False\<rparr>] = latest"
  "ordering (map (sorter_of [] [''LastSeen'']) api_columns) [] = latest"
  by (simp_all add: ordering_def default_order_def api_columns_def sorter_of_def Comparator_def latest_def [abs_def] fun_eq_iff)

lemma sorters_api: "fst ` set (map (sorter_of a d) api_columns) = fst ` set api_columns"
  by (auto simp: sorter_of_def image_image split_beta)

text \<open>The answer of the pool page for the rows found: the first twenty, with the facets of all of them.\<close>

definition first_page :: "(duration \<Rightarrow> string) \<Rightarrow> time \<Rightarrow> api_entry list \<Rightarrow> api_entry query_result" where
  "first_page dur now found =
     \<lparr>Total = int (length found), Records = take 20 found,
      FacetList = Facets dur now (api_facets found) (length found) (min 20 (length found))\<rparr>"

lemma api_query:
  assumes "answerable (map (accessor_of rows) api_columns) f" and "ord \<in> {[], [\<lparr>ob_Ident = ''LastSeen'', ob_Asc = False\<rparr>]}"
  shows "run_query p (ApiEntryDataset dur now rows) (f, ord, 0) =
    Some (Inr (first_page dur now (sort_by latest (nths rows {i. keeps (map (accessor_of rows) api_columns) f i}))))"
proof -
  have "\<forall>ob \<in> set ord. ob_Ident ob \<in> fst ` set (map (sorter_of [] [''LastSeen'']) api_columns)"
    using assms(2) unfolding sorters_api by (auto simp: api_columns_def)
  moreover have o: "ordering (map (sorter_of [] [''LastSeen'']) api_columns) ord = latest" using assms(2) ordering_latest by auto
  ultimately show ?thesis
    using query_found [of "ApiEntryDataset dur now rows" f ord 0 p] assms(1) strict_weak_latest
    by (simp add: ApiEntryDataset_def first_page_def o)
qed

section \<open>The pool page\<close>

lemma default_filter_parsed: "Parse default_filter = Some (Inr (Ident ''Ok'', [\<lparr>ob_Ident = ''LastSeen'', ob_Asc = False\<rparr>], 0))"
proof -
  have "plan_is (is_ident ''Ok'') [\<lparr>ob_Ident = ''LastSeen'', ob_Asc = False\<rparr>] (Parse default_filter)"
    by code_simp
  then show ?thesis by (auto simp: plan_is_iff is_ident_iff)
qed

text \<open>
  Without a filter the pool page answers, whatever the pool holds: it counts the proxies that work, and shows the twenty seen last,
  the latest first, without losing or doubling one.
\<close>

theorem pool_page_default:
  defines "ok \<equiv> \<lambda>lookup srt now order ss. filter a_Ok (map (api_row lookup) (snapshot srt now order ss))"
  shows "\<exists>found. pool_HttpGet Parse p dur lookup srt now order [] ss =
      Some (Inr \<lparr>Total = int (length found), Records = take 20 found,
        FacetList = Facets dur now (api_facets found) (length found) (min 20 (length found))\<rparr>) \<and>
    mset found = mset (ok lookup srt now order ss) \<and> sorted_wrt (\<lambda>l r. a_LastSeen l \<ge> a_LastSeen r) found"
proof -
  define rows where "rows = map (api_row lookup) (snapshot srt now order ss)"
  have "map_of (map (accessor_of rows) api_columns) ''Ok'' = Some (BooleanGetter ''Ok'' (\<lambda>i. a_Ok (rows ! i)))"
    by (simp add: api_columns_def accessor_of_def)
  then have acc: "answerable (map (accessor_of rows) api_columns) (Ident ''Ok'')"
    "keeps (map (accessor_of rows) api_columns) (Ident ''Ok'') i = a_Ok (rows ! i)" for i
    by (simp_all add: answerable_def keeps_def getters_columns)
  have n: "nths rows {i. keeps (map (accessor_of rows) api_columns) (Ident ''Ok'') i} = filter a_Ok rows"
    by (rule nths_filter) (simp add: acc(2))
  define found where "found = sort_by latest (filter a_Ok rows)"
  have "pool_HttpGet Parse p dur lookup srt now order [] ss = Some (Inr (first_page dur now found))"
    using api_query [OF acc(1), of "[\<lparr>ob_Ident = ''LastSeen'', ob_Asc = False\<rparr>]" p dur now]
    by (simp add: pool_HttpGet_def Dataset_Query_def default_filter_parsed rows_def [symmetric] n found_def)
  moreover have "in_order latest found" using strict_weak.in_order_sort [OF strict_weak_latest] by (simp add: found_def)
  ultimately show ?thesis
    by (intro exI [of _ found]) (simp add: first_page_def found_def ok_def rows_def in_order_def latest_def not_less)
qed

text \<open>
  C40. A filter typed into the pool page, with each operator in parentheses and compilable against the fields of the page, gives the
  twenty proxies seen last among those that satisfy it, with the number of all of them: what is written is what is searched.
\<close>

theorem pool_page_search:
  assumes "printable f" and "slots f \<le> 15" and "answerable (map (accessor_of rows) api_columns) f"
    and "rows = map (api_row lookup) (snapshot srt now order ss)"
  shows "pool_HttpGet Parse p dur lookup srt now order (print f) ss =
    Some (Inr (first_page dur now (sort_by latest (nths rows {i. keeps (map (accessor_of rows) api_columns) f i}))))"
  using api_query [OF assms(3), of "[]" p dur now] Parse_printed [OF assms(1,2)] assms(1)
  by (cases f) (simp_all add: pool_HttpGet_def Dataset_Query_def assms(4))

text \<open>Two proxies, one of them in Germany.\<close>

definition listed :: shard where
  "listed = new_shard\<lparr>Entries := [0, 1], heap := (\<lambda>l. the (newEntry (int l * hour) (of_nat l) second 60))\<rparr>"

definition located :: "proxy \<Rightarrow> info" where
  "located p = no_info\<lparr>Country := (if p = 0 then ''NL'' else ''DE'')\<rparr>"

theorem pool_page_search_witness:
  "pool_HttpGet Parse (\<lambda>_. []) (\<lambda>_. []) located (\<lambda>_ xs. xs) 0 [0] (''( Country = '' @ [CHR 0x22] @ ''DE'' @ [CHR 0x22] @ '' ) '') [listed] =
     Some (Inr (first_page (\<lambda>_. []) 0 [api_row located (heap listed 1)]))"
proof -
  define rows where "rows = map (api_row located) (snapshot (\<lambda>_ xs. xs) 0 [0] [listed])"
  define f where "f = Equals (Ident ''Country'') (Str ''DE'')"
  have e: "e_proxy (the (newEntry (int l * hour) (of_nat l) second 60)) = of_nat l" for l
    using newEntry_ok [of 60 "int l * hour" "of_nat l" second] by auto
  have rows: "rows = [api_row located (heap listed 0), api_row located (heap listed 1)]"
    by (simp add: rows_def snapshot_def Slice_def entries_def listed_def)
  have country: "a_Country (api_row located (heap listed 0)) = ''NL''" "a_Country (api_row located (heap listed 1)) = ''DE''"
    by (simp_all add: listed_def api_row_def located_def Let_def no_info_def e [of 0, simplified] e [of 1, simplified])
  have acc: "map_of (map (accessor_of rows) api_columns) ''Country'' = Some (StringGetter ''Country'' (\<lambda>i. a_Country (rows ! i)))"
    by (simp add: api_columns_def accessor_of_def)
  have answers: "answerable (map (accessor_of rows) api_columns) f"
    by (simp add: answerable_def getters_columns f_def acc compare_with_def)
  have keeps: "keeps (map (accessor_of rows) api_columns) f i = (a_Country (rows ! i) = ''DE'')" for i
    by (simp add: keeps_def f_def acc compare_with_def)
  have "nths rows {i. keeps (map (accessor_of rows) api_columns) f i} = filter (\<lambda>r. a_Country r = ''DE'') rows"
    by (rule nths_filter) (simp add: keeps)
  also have "\<dots> = [api_row located (heap listed 1)]" unfolding rows using country by simp
  finally have "nths rows {i. keeps (map (accessor_of rows) api_columns) f i} = [api_row located (heap listed 1)]" .
  moreover have "printable f" "slots f \<le> 15" "print f = ''( Country = '' @ [CHR 0x22] @ ''DE'' @ [CHR 0x22] @ '' ) ''"
    by (simp_all add: f_def quoted_def is_letter_def code_def reserved_def)
  ultimately show ?thesis
    using pool_page_search [OF _ _ answers rows_def, of "\<lambda>_. []" "\<lambda>_. []"] by simp
qed

end
