(* ===== verification/RestApi.thy ===== *)
theory RestApi
  imports Http
begin

text \<open>
  The REST API (\<open>app/restapi.go\<close>): what a handler of a service can answer, how the answer becomes a response, and the
  routes of the services. The bodies written by \<open>encoding/json\<close> and \<open>fmt\<close> are arguments. A handler is what it
  answers to one request; what it changes belongs to its service.
\<close>

section \<open>Answers\<close>

datatype api_error = NotFound string | InternalError string | OtherError string

fun Error :: "api_error \<Rightarrow> string" where
  "Error (NotFound m) = m"
| "Error (InternalError m) = m"
| "Error (OtherError m) = m"

text \<open>
  \<open>Panics\<close> has the text of the error that the handler panicked with, if it was one. An answer of nothing is the nil interface.
\<close>

datatype 'r answer = Panics "string option" | Fails api_error | Answers "'r option"

text \<open>A handler that is a function to \<open>error + result\<close> with \<open>None\<close> for a run-time panic.\<close>

definition answer_of :: "(string \<Rightarrow> api_error) \<Rightarrow> (string + 'r) option \<Rightarrow> 'r answer" where
  "answer_of kind r =
     (case r of None \<Rightarrow> Panics (Some ''runtime error'') | Some (Inl e) \<Rightarrow> Fails (kind e) | Some (Inr x) \<Rightarrow> Answers (Some x))"

section \<open>Resources\<close>

record ('q, 'r) resource =
  service :: string
  get :: "('q \<Rightarrow> 'r answer) option"
  getByID :: "(string \<Rightarrow> 'q \<Rightarrow> 'r answer) option"
  post :: "('q \<Rightarrow> 'r answer) option"
  postByID :: "(string \<Rightarrow> 'q \<Rightarrow> 'r answer) option"
  deleteByID :: "(string \<Rightarrow> 'q \<Rightarrow> 'r answer) option"

definition no_handler :: "string \<Rightarrow> ('q, 'r) resource" where
  "no_handler s = \<lparr>service = s, get = None, getByID = None, post = None, postByID = None, deleteByID = None\<rparr>"

type_synonym response = "int \<times> string"

text \<open>\<open>err\<close>: the status of an error, with its message as the body.\<close>

definition write_err :: "(string \<Rightarrow> string) \<Rightarrow> api_error \<Rightarrow> response" where
  "write_err json_error e =
     ((case e of InternalError m \<Rightarrow> 500 | NotFound m \<Rightarrow> 404 | OtherError m \<Rightarrow> 400), json_error (Error e))"

text \<open>\<open>recover\<close>, for a panic with an error or with something else.\<close>

definition recover :: "(string \<Rightarrow> string) \<Rightarrow> string option \<Rightarrow> response" where
  "recover json_error p =
     (case p of
        Some m \<Rightarrow> write_err json_error (InternalError m)
      | None \<Rightarrow> write_err json_error (InternalError ''very wrong error''))"

text \<open>The first handler that the resource has.\<close>

definition handle :: "('q, 'r) resource \<Rightarrow> string \<Rightarrow> 'q \<Rightarrow> 'r answer" where
  "handle hr key r =
     (case get hr of Some h \<Rightarrow> h r
      | None \<Rightarrow> (case getByID hr of Some h \<Rightarrow> h key r
        | None \<Rightarrow> (case post hr of Some h \<Rightarrow> h r
          | None \<Rightarrow> (case postByID hr of Some h \<Rightarrow> h key r
            | None \<Rightarrow> (case deleteByID hr of Some h \<Rightarrow> h key r
              | None \<Rightarrow> Answers None)))))"

definition ServeHTTP :: "(string \<Rightarrow> string) \<Rightarrow> ('r \<Rightarrow> api_error + string) \<Rightarrow> ('r \<Rightarrow> string) \<Rightarrow> ('q, 'r) resource \<Rightarrow> string \<Rightarrow> string
    \<Rightarrow> 'q \<Rightarrow> response" where
  "ServeHTTP json_error json print hr format key r =
     (case handle hr key r of
        Panics p \<Rightarrow> recover json_error p
      | Fails e \<Rightarrow> write_err json_error e
      | Answers None \<Rightarrow> (200, [])
      | Answers (Some x) \<Rightarrow>
          if format = ''text'' then (200, print x)
          else case json x of Inl e \<Rightarrow> write_err json_error e | Inr body \<Rightarrow> (200, body))"

section \<open>Routes\<close>

datatype rest_method = GET | POST | DELETE

text \<open>What a service offers is what it implements; each interface becomes a route of its own.\<close>

definition routes_of :: "string \<times> ('q, 'r) resource \<Rightarrow> (string \<times> rest_method \<times> ('q, 'r) resource) list" where
  "routes_of = (\<lambda>(s, v).
     let here = ''/api/'' @ s; below = ''/api/'' @ s @ ''/{id}''
     in (if get v \<noteq> None then [(here, GET, (no_handler s)\<lparr>get := get v\<rparr>)] else []) @
        (if getByID v \<noteq> None then [(below, GET, (no_handler s)\<lparr>getByID := getByID v\<rparr>)] else []) @
        (if post v \<noteq> None then [(here, POST, (no_handler s)\<lparr>post := post v\<rparr>)] else []) @
        (if postByID v \<noteq> None then [(below, POST, (no_handler s)\<lparr>postByID := postByID v\<rparr>)] else []) @
        (if deleteByID v \<noteq> None then [(below, DELETE, (no_handler s)\<lparr>deleteByID := deleteByID v\<rparr>)] else []))"

definition initRestAPI :: "(string \<times> ('q, 'r) resource) list \<Rightarrow> (string \<times> rest_method \<times> ('q, 'r) resource) list" where
  "initRestAPI singletons = concat (map routes_of singletons)"

definition hasApi :: "(string \<times> ('q, 'r) resource) list \<Rightarrow> string \<Rightarrow> bool" where
  "hasApi singletons s = (\<exists>(k, v) \<in> set singletons. k = s \<and> routes_of (k, v) \<noteq> [])"

text \<open>The index of the API names the services that have one.\<close>

definition endpoints :: "string \<Rightarrow> (string \<times> ('q, 'r) resource) list \<Rightarrow> (string \<times> 't) list \<Rightarrow> (string \<times> string \<times> 't) list" where
  "endpoints host singletons snapshot =
     map (\<lambda>(k, v). (k, if hasApi singletons k then ''http://'' @ host @ ''/api/'' @ k else [], v)) snapshot"

section \<open>What the API promises\<close>

lemma status_of_errors:
  "fst (write_err j e) \<in> {400, 404, 500}" "fst (write_err j e) = 500 \<longleftrightarrow> (\<exists>m. e = InternalError m)"
  "fst (write_err j e) = 404 \<longleftrightarrow> (\<exists>m. e = NotFound m)" "fst (recover j p) = 500"
  by (cases e; simp add: write_err_def recover_def split: option.split)+

lemma handle_route:
  assumes "(path, m, hr) \<in> set (routes_of (s, v))"
  shows "handle hr key r = (case m of
      GET \<Rightarrow> (if path = ''/api/'' @ s then the (get v) r else the (getByID v) key r)
    | POST \<Rightarrow> (if path = ''/api/'' @ s then the (post v) r else the (postByID v) key r)
    | DELETE \<Rightarrow> the (deleteByID v) key r)"
  using assms by (auto simp: routes_of_def handle_def no_handler_def Let_def split: if_splits)

lemma routes_distinct: "distinct (map (\<lambda>(path, m, hr). (path, m)) (routes_of (s, v)))"
  by (auto simp: routes_of_def Let_def)

end
