(* ===== verification/Factories.thy ===== *)
theory Factories
  imports Prelude "HOL-Library.Monad_Syntax"
begin

text \<open>
  The wiring of the program (\<open>app/factories.go\<close>): factories are functions whose inputs are found among the outputs of the others.
  \<open>ordered\<close> sorts them for the start, \<open>resolve\<close> builds each with what it needs. The types of Go's \<open>reflect\<close> are an argument,
  with which of them are interfaces and what implements them; so are the orders of the iterations over maps: \<open>outer\<close> and
  \<open>initial\<close> for the loops over all factories, \<open>inner k i\<close> for the loop that looks for input \<open>i\<close> of the factory \<open>k\<close>.
\<close>

section \<open>Dependencies\<close>

record ('t, 'v) dependency =
  Out :: 't
  In :: "'t list"
  Call :: "'v list \<Rightarrow> 'v \<times> string option"

datatype ('t, 'v) factory = NoFunc | Func "'t list" "'t list" "'v list \<Rightarrow> 'v \<times> string option"

type_synonym ('t, 'v) dependencies = "string \<rightharpoonup> ('t, 'v) dependency"

text \<open>\<open>dependencies\<close>: a function without a result has no first output to read, which is a panic.\<close>

fun collect_dependencies :: "(string \<times> ('t, 'v) factory) list \<Rightarrow> ('t, 'v) dependencies \<Rightarrow> (string + ('t, 'v) dependencies) option" where
  "collect_dependencies [] deps = Some (Inr deps)"
| "collect_dependencies ((k, NoFunc) # fs) deps = Some (Inl (k @ '' is not a function''))"
| "collect_dependencies ((k, Func outs ins call) # fs) deps =
     (if length outs > 2 then Some (Inl (k @ '' is not a factory''))
      else case outs of
             [] \<Rightarrow> None
           | out # _ \<Rightarrow> collect_dependencies fs (deps(k \<mapsto> \<lparr>Out = out, In = ins, Call = call\<rparr>)))"

definition matches :: "('t \<Rightarrow> bool) \<Rightarrow> ('t \<Rightarrow> 't \<Rightarrow> bool) \<Rightarrow> ('t, 'v) dependency \<Rightarrow> 't \<Rightarrow> bool" where
  "matches interface implements d ty =
     (let isInIface = interface ty;
          inImplsType = (isInIface \<and> implements (Out d) ty);
          inEqualsType = (Out d = ty)
      in inImplsType \<or> inEqualsType)"

definition provides :: "('t \<Rightarrow> bool) \<Rightarrow> ('t \<Rightarrow> 't \<Rightarrow> bool) \<Rightarrow> ('t, 'v) dependencies \<Rightarrow> string \<Rightarrow> 't \<Rightarrow> bool" where
  "provides interface implements deps other ty =
     (case deps other of None \<Rightarrow> False | Some d \<Rightarrow> matches interface implements d ty)"

definition inputs :: "('t, 'v) dependencies \<Rightarrow> string \<Rightarrow> 't list" where
  "inputs deps k = (case deps k of None \<Rightarrow> [] | Some d \<Rightarrow> In d)"

section \<open>The order of the start\<close>

record graph =
  edges :: "string \<Rightarrow> string list"
  indegree :: "string \<Rightarrow> int"

definition add_edge :: "string \<times> string \<Rightarrow> graph \<Rightarrow> graph" where
  "add_edge = (\<lambda>(k, other) g.
     let e = (edges g)(k := edges g k @ [other]); e = e(other := e other @ [k])
     in \<lparr>edges = e, indegree = (indegree g)(k := indegree g k + 1)\<rparr>)"

text \<open>The pairs of a factory and one it needs, as the three loops find them.\<close>

definition pairs :: "(string \<Rightarrow> 't \<Rightarrow> bool) \<Rightarrow> (string \<Rightarrow> 't list) \<Rightarrow> string list \<Rightarrow> (string \<Rightarrow> nat \<Rightarrow> string list) \<Rightarrow> (string \<times> string) list" where
  "pairs prov ins outer inner =
     concat (map (\<lambda>k. concat (map (\<lambda>(i, ty). map (Pair k) (filter (\<lambda>other. prov other ty) (inner k i))) (enumerate 0 (ins k)))) outer)"

definition materialize :: "(string \<times> string) list \<Rightarrow> graph" where
  "materialize ps = fold add_edge ps \<lparr>edges = (\<lambda>_. []), indegree = (\<lambda>_. 0)\<rparr>"

definition relax :: "string \<Rightarrow> string list \<times> (string \<Rightarrow> int) \<Rightarrow> string list \<times> (string \<Rightarrow> int)" where
  "relax j = (\<lambda>(q, deg).
     let deg = deg(j := deg j - 1) in (if deg j = 0 then q @ [j] else q, deg))"

partial_function (option) kahn :: "(string \<Rightarrow> string list) \<Rightarrow> string list \<Rightarrow> string list \<Rightarrow> (string \<Rightarrow> int) \<Rightarrow> string list option" where
  "kahn es q order deg =
     (case q of
        [] \<Rightarrow> Some order
      | k # q \<Rightarrow> (case fold relax (es k) (q, deg) of (q, deg) \<Rightarrow> kahn es q (order @ [k]) deg))"

declare kahn.simps [code]

definition ordered :: "(string \<Rightarrow> 't \<Rightarrow> bool) \<Rightarrow> (string \<Rightarrow> 't list) \<Rightarrow> string list \<Rightarrow> (string \<Rightarrow> nat \<Rightarrow> string list) \<Rightarrow> string list
    \<Rightarrow> string list option" where
  "ordered prov ins outer inner initial =
     (let g = materialize (pairs prov ins outer inner)
      in kahn (edges g) (filter (\<lambda>k. indegree g k = 0) initial) [] (indegree g))"

section \<open>The construction\<close>

record 'v instances =
  inst :: "string \<rightharpoonup> 'v"
  calls :: "(string \<times> 'v list) list"

text \<open>The factories that match an input, each resolved.\<close>

fun resolve_all :: "(string \<Rightarrow> 's \<Rightarrow> ('s \<times> (string + 'v)) option) \<Rightarrow> string \<Rightarrow> string list \<Rightarrow> 's \<Rightarrow> ('s \<times> (string + 'v list)) option" where
  "resolve_all res k [] s = Some (s, Inr [])"
| "resolve_all res k (other # os) s =
     (case res other s of
        None \<Rightarrow> None
      | Some (s, Inl err) \<Rightarrow> Some (s, Inl (''cannot resolve '' @ k @ '' because of '' @ other @ '': '' @ err))
      | Some (s, Inr v) \<Rightarrow>
          (case resolve_all res k os s of
             None \<Rightarrow> None
           | Some (s, Inl err) \<Rightarrow> Some (s, Inl err)
           | Some (s, Inr vs) \<Rightarrow> Some (s, Inr (v # vs))))"

fun join :: "string \<Rightarrow> string list \<Rightarrow> string" where
  "join sep [] = []"
| "join sep [x] = x"
| "join sep (x # xs) = x @ sep @ join sep xs"

text \<open>The arguments of a factory: exactly one match for each input.\<close>

fun arguments :: "('t \<Rightarrow> string) \<Rightarrow> (string \<Rightarrow> 't \<Rightarrow> bool) \<Rightarrow> (string \<Rightarrow> nat \<Rightarrow> string list)
    \<Rightarrow> (string \<Rightarrow> 's \<Rightarrow> ('s \<times> (string + 'v)) option) \<Rightarrow> string \<Rightarrow> (nat \<times> 't) list \<Rightarrow> 's \<Rightarrow> ('s \<times> (string + 'v list)) option" where
  "arguments show_type prov inner res k [] s = Some (s, Inr [])"
| "arguments show_type prov inner res k ((i, ty) # ins) s =
     (let found = filter (\<lambda>other. prov other ty) (inner k i)
      in case resolve_all res k found s of
           None \<Rightarrow> None
         | Some (s, Inl err) \<Rightarrow> Some (s, Inl err)
         | Some (s, Inr vs) \<Rightarrow>
             if length found > 1 then Some (s, Inl (''multiple matches for '' @ show_type ty @ '': '' @ join '', '' found))
             else if length found = 0 then Some (s, Inl (''cannot find '' @ show_type ty @ '' for '' @ k))
             else (case arguments show_type prov inner res k ins s of
                     None \<Rightarrow> None
                   | Some (s, Inl err) \<Rightarrow> Some (s, Inl err)
                   | Some (s, Inr args) \<Rightarrow> Some (s, Inr (vs @ args))))"

text \<open>The first argument is the depth of the stack that is left; without any the stack overflows.\<close>

fun resolve :: "nat \<Rightarrow> ('t \<Rightarrow> string) \<Rightarrow> (string \<Rightarrow> 't \<Rightarrow> bool) \<Rightarrow> ('t, 'v) dependencies \<Rightarrow> (string \<Rightarrow> nat \<Rightarrow> string list)
    \<Rightarrow> string \<Rightarrow> 'v instances \<Rightarrow> ('v instances \<times> (string + 'v)) option" where
  "resolve 0 show_type prov deps inner k s = None"
| "resolve (Suc n) show_type prov deps inner k s =
     (case inst s k of
        Some ex \<Rightarrow> Some (s, Inr ex)
      | None \<Rightarrow>
          (case deps k of
             None \<Rightarrow> Some (s, Inl (k @ '' is not declared''))
           | Some t \<Rightarrow>
               (case arguments show_type prov inner (resolve n show_type prov deps inner) k (enumerate 0 (In t)) s of
                  None \<Rightarrow> None
                | Some (s, Inl err) \<Rightarrow> Some (s, Inl err)
                | Some (s, Inr args) \<Rightarrow>
                    (case Call t args of
                       (v, err) \<Rightarrow>
                         (let s = \<lparr>inst = (inst s)(k \<mapsto> v), calls = calls s @ [(k, args)]\<rparr>
                          in case err of None \<Rightarrow> Some (s, Inr v) | Some e \<Rightarrow> Some (s, Inl e))))))"

fun resolve_each :: "(string \<Rightarrow> 'v instances \<Rightarrow> ('v instances \<times> (string + 'v)) option) \<Rightarrow> string list \<Rightarrow> 'v instances
    \<Rightarrow> (string + 'v instances) option" where
  "resolve_each res [] s = Some (Inr s)"
| "resolve_each res (k # ks) s =
     (case res k s of
        None \<Rightarrow> None
      | Some (s, Inl err) \<Rightarrow> Some (Inl err)
      | Some (s, Inr v) \<Rightarrow> resolve_each res ks (s\<lparr>inst := (inst s)(k \<mapsto> v)\<rparr>))"

definition Init :: "nat \<Rightarrow> ('t \<Rightarrow> string) \<Rightarrow> ('t \<Rightarrow> bool) \<Rightarrow> ('t \<Rightarrow> 't \<Rightarrow> bool) \<Rightarrow> string list \<Rightarrow> (string \<Rightarrow> nat \<Rightarrow> string list) \<Rightarrow> string list
    \<Rightarrow> (string \<times> ('t, 'v) factory) list \<Rightarrow> (string + 'v instances \<times> string list) option" where
  "Init depth show_type interface implements outer inner initial fs =
     do { r \<leftarrow> collect_dependencies fs Map.empty;
          (case r of
             Inl err \<Rightarrow> Some (Inl err)
           | Inr deps \<Rightarrow>
               (let prov = provides interface implements deps
                in do { order \<leftarrow> ordered prov (inputs deps) outer inner initial;
                        r \<leftarrow> resolve_each (resolve depth show_type prov deps inner) outer \<lparr>inst = Map.empty, calls = []\<rparr>;
                        (case r of
                           Inl err \<Rightarrow> Some (Inl err)
                         | Inr s \<Rightarrow> Some (Inr (s, order))) })) }"

section \<open>What the order is\<close>

text \<open>Counting: how often a pair is listed, and what that makes of the graph.\<close>

lemma add_edge_counts:
  "count_list (edges (add_edge (a, b) g) x) y =
     count_list (edges g x) y + (if (a, b) = (x, y) then 1 else 0) + (if (a, b) = (y, x) then 1 else 0)"
  "indegree (add_edge (a, b) g) x = indegree g x + (if a = x then 1 else 0)"
  unfolding add_edge_def Let_def prod.case graph.simps fun_upd_apply
  by (cases "a = x"; cases "b = x"; cases "a = y"; cases "b = y"; simp)+

lemma materialize_counts:
  "count_list (edges (fold add_edge ps g) x) y = count_list (edges g x) y + count_list ps (x, y) + count_list ps (y, x)"
  "indegree (fold add_edge ps g) x = indegree g x + int (length (filter (\<lambda>p. fst p = x) ps))"
proof -
  have "count_list (edges (fold add_edge ps g) x) y = count_list (edges g x) y + count_list ps (x, y) + count_list ps (y, x) \<and>
    indegree (fold add_edge ps g) x = indegree g x + int (length (filter (\<lambda>p. fst p = x) ps))"
  proof (induction ps arbitrary: g)
    case (Cons p ps)
    obtain a b where p: "p = (a, b)" by force
    have c: "count_list ((a, b) # ps) z = (if (a, b) = z then 1 else 0) + count_list ps z" for z by simp
    have "count_list (edges (fold add_edge (p # ps) g) x) y =
        count_list (edges g x) y + count_list (p # ps) (x, y) + count_list (p # ps) (y, x)"
      unfolding p fold_simps o_apply conjunct1 [OF Cons] add_edge_counts c by (simp only: ac_simps)
    moreover have "indegree (fold add_edge (p # ps) g) x = indegree g x + int (length (filter (\<lambda>p. fst p = x) (p # ps)))"
      unfolding p fold_simps o_apply conjunct2 [OF Cons] add_edge_counts by simp
    ultimately show ?case by blast
  qed simp
  then show "count_list (edges (fold add_edge ps g) x) y = count_list (edges g x) y + count_list ps (x, y) + count_list ps (y, x)"
    "indegree (fold add_edge ps g) x = indegree g x + int (length (filter (\<lambda>p. fst p = x) ps))"
    by simp_all
qed

lemma filter_fst_sum:
  assumes "finite K" and "snd ` set ps \<subseteq> K"
  shows "length (filter (\<lambda>p. fst p = x) ps) = (\<Sum>o' \<in> K. count_list ps (x, o'))"
  using assms(2)
proof (induction ps)
  case (Cons p ps)
  obtain a b where p: "p = (a, b)" by force
  have "(\<Sum>o' \<in> K. count_list (p # ps) (x, o')) = (\<Sum>o' \<in> K. (if a = x \<and> o' = b then 1 else 0) + count_list ps (x, o'))"
    by (rule sum.cong) (auto simp: p)
  also have "\<dots> = (\<Sum>o' \<in> K. if o' = b then (if a = x then 1 else 0) else 0) + (\<Sum>o' \<in> K. count_list ps (x, o'))"
    by (subst sum.distrib) (rule arg_cong2 [of _ _ _ _ "(+)"], rule sum.cong, auto)
  also have "(\<Sum>o' \<in> K. if o' = b then (if a = x then 1 else 0) else 0) = (if a = x then 1 else 0 :: nat)"
    using Cons.prems by (subst sum.delta [OF assms(1)]) (simp add: p)
  finally show ?case using Cons by (simp add: p)
qed simp

text \<open>The queue gets the nodes whose count passes through zero, once each.\<close>

lemma fold_relax:
  "\<exists>news. fold relax js (q, deg) = (q @ news, \<lambda>j. deg j - int (count_list js j)) \<and> distinct news \<and>
    set news = {j. 0 < deg j \<and> deg j \<le> int (count_list js j)}"
proof (induction js arbitrary: q deg)
  case Nil
  show ?case by (intro exI [of _ "[]"]) auto
next
  case (Cons j js)
  define d where "d = deg(j := deg j - 1)"
  define q' where "q' = (if d j = 0 then q @ [j] else q)"
  from Cons obtain news where n: "fold relax js (q', d) = (q' @ news, \<lambda>i. d i - int (count_list js i))" "distinct news"
    "set news = {i. 0 < d i \<and> d i \<le> int (count_list js i)}" by blast
  have f: "fold relax (j # js) (q, deg) = fold relax js (q', d)" by (simp add: relax_def d_def q'_def Let_def)
  have r: "(\<lambda>i. d i - int (count_list js i)) = (\<lambda>i. deg i - int (count_list (j # js) i))" by (auto simp: d_def)
  show ?case
  proof (cases "d j = 0")
    case True
    then have "i \<in> set (j # news) \<longleftrightarrow> 0 < deg i \<and> deg i \<le> int (count_list (j # js) i)" for i
      unfolding list.set insert_iff n(3) by (cases "i = j") (simp_all add: d_def)
    moreover have "distinct (j # news)" using n(2,3) True by simp
    ultimately have "set (j # news) = {i. 0 < deg i \<and> deg i \<le> int (count_list (j # js) i)}" "distinct (j # news)" by blast+
    then show ?thesis using n(1) r f True by (intro exI [of _ "j # news"]) (simp add: q'_def)
  next
    case False
    then have "i \<in> set news \<longleftrightarrow> 0 < deg i \<and> deg i \<le> int (count_list (j # js) i)" for i
      unfolding n(3) by (cases "i = j") (auto simp: d_def)
    then have "set news = {i. 0 < deg i \<and> deg i \<le> int (count_list (j # js) i)}" by blast
    then show ?thesis using n(1,2) r f False by (intro exI [of _ news]) (simp add: q'_def)
  qed
qed

text \<open>
  The run, for the pairs \<open>ps\<close> over the factories \<open>K\<close>: what is ordered or queued has all it needs ordered, what is not
  still misses something, and the counts say how much.
\<close>

definition needs :: "(string \<times> string) list \<Rightarrow> string \<Rightarrow> string set" where
  "needs ps k = {o'. (k, o') \<in> set ps}"

definition in_turn :: "(string \<times> string) list \<Rightarrow> string list \<Rightarrow> bool" where
  "in_turn ps order \<longleftrightarrow> (\<forall>i < length order. needs ps (order ! i) \<subseteq> set (take i order))"

definition kahn_inv :: "(string \<times> string) list \<Rightarrow> string set \<Rightarrow> string list \<Rightarrow> string list \<Rightarrow> (string \<Rightarrow> int) \<Rightarrow> bool" where
  "kahn_inv ps K q order deg \<longleftrightarrow>
     distinct (order @ q) \<and> set (order @ q) \<subseteq> K \<and> in_turn ps order \<and>
     (\<forall>k \<in> set (order @ q). needs ps k \<subseteq> set order) \<and>
     (\<forall>k \<in> K - set (order @ q). \<not> needs ps k \<subseteq> set order) \<and>
     (\<forall>k. deg k = int (\<Sum>o' \<in> K - set order. count_list ps (k, o')) - int (\<Sum>o' \<in> set order. count_list ps (o', k)))"

lemma in_turn_append: "in_turn ps order \<Longrightarrow> needs ps k \<subseteq> set order \<Longrightarrow> in_turn ps (order @ [k])"
  by (auto simp: in_turn_def nth_append less_Suc_eq)

lemma kahn_inv_deg:
  assumes "kahn_inv ps K q order deg" and "finite K" and "set ps \<subseteq> K \<times> K"
  shows "k \<in> set (order @ q) \<Longrightarrow> deg k \<le> 0"
    and "k \<notin> set (order @ q) \<Longrightarrow> deg k = int (\<Sum>o' \<in> K - set order. count_list ps (k, o'))"
    and "k \<notin> K \<Longrightarrow> deg k = 0"
proof -
  have deg: "deg k = int (\<Sum>o' \<in> K - set order. count_list ps (k, o')) - int (\<Sum>o' \<in> set order. count_list ps (o', k))"
    using assms(1) by (simp add: kahn_inv_def)
  show "deg k \<le> 0" if "k \<in> set (order @ q)"
  proof -
    have "needs ps k \<subseteq> set order" using assms(1) that by (simp add: kahn_inv_def)
    then have "(\<Sum>o' \<in> K - set order. count_list ps (k, o')) = 0"
      by (intro sum.neutral) (auto simp: needs_def count_list_0_iff)
    then show ?thesis unfolding deg by linarith
  qed
  show d: "deg k = int (\<Sum>o' \<in> K - set order. count_list ps (k, o'))" if "k \<notin> set (order @ q)"
  proof -
    have "\<forall>x \<in> set order. needs ps x \<subseteq> set order" using assms(1) by (simp add: kahn_inv_def)
    then have "(\<Sum>o' \<in> set order. count_list ps (o', k)) = 0"
      using that by (intro sum.neutral) (auto simp: needs_def count_list_0_iff)
    then show ?thesis unfolding deg by linarith
  qed
  show "deg k = 0" if "k \<notin> K"
  proof -
    have "k \<notin> set (order @ q)" using assms(1) that by (auto simp: kahn_inv_def)
    moreover have "(\<Sum>o' \<in> K - set order. count_list ps (k, o')) = 0"
      using assms(3) that by (intro sum.neutral) (auto simp: count_list_0_iff)
    ultimately show ?thesis using d by simp
  qed
qed

text \<open>One round of the loop.\<close>

lemma kahn_round:
  assumes "kahn_inv ps K (k # q) order deg" and "finite K" and "set ps \<subseteq> K \<times> K"
    and es: "\<forall>x y. count_list (es x) y = count_list ps (x, y) + count_list ps (y, x)"
  shows "\<exists>q' deg'. fold relax (es k) (q, deg) = (q', deg') \<and> kahn_inv ps K q' (order @ [k]) deg'"
proof -
  obtain news where n: "fold relax (es k) (q, deg) = (q @ news, \<lambda>j. deg j - int (count_list (es k) j))" "distinct news"
    "set news = {j. 0 < deg j \<and> deg j \<le> int (count_list (es k) j)}"
    using fold_relax by blast
  note inv = assms(1) [unfolded kahn_inv_def]
  note degs = kahn_inv_deg [OF assms(1-3)]
  have k: "k \<in> K" "k \<notin> set order" "needs ps k \<subseteq> set order" "finite (K - set order)" using inv assms(2) by auto
  define left where "left j = (\<Sum>o' \<in> K - set (order @ [k]). count_list ps (j, o'))" for j
  have split: "(\<Sum>o' \<in> K - set order. count_list ps (j, o')) = count_list ps (j, k) + left j" for j
  proof -
    have e: "K - set order = insert k (K - set (order @ [k]))" using k(1,2) by auto
    show ?thesis unfolding left_def by (subst e, rule sum.insert) (use assms(2) in auto)
  qed
  have new: "deg j - int (count_list (es k) j) = int (left j) - int (\<Sum>o' \<in> set (order @ [k]). count_list ps (o', j))" for j
    using inv k(2) es split [of j] by (simp del: of_nat_sum)
  have pending: "int (left j) = deg j - int (count_list (es k) j)" if "j \<in> K" "j \<notin> set (order @ k # q)" for j
  proof -
    have "count_list ps (k, j) = 0" using k(3) that by (auto simp: needs_def count_list_0_iff)
    then show ?thesis using degs(2) [OF that(2)] split [of j] es by (simp del: of_nat_sum)
  qed
  have news: "j \<in> K - set (order @ k # q) \<and> left j = 0" if "j \<in> set news" for j
  proof -
    from that have d: "0 < deg j" "deg j \<le> int (count_list (es k) j)" using n(3) by auto
    then have j: "j \<notin> set (order @ k # q)" "j \<in> K" using degs(1,3) [of j] by force+
    with pending [OF j(2,1)] d show ?thesis by simp
  qed
  have "distinct ((order @ [k]) @ (q @ news))" "set ((order @ [k]) @ (q @ news)) \<subseteq> K" using inv n(2) news by auto
  moreover have "in_turn ps (order @ [k])" using in_turn_append inv by simp
  moreover have "needs ps j \<subseteq> set (order @ [k])" if "j \<in> set ((order @ [k]) @ (q @ news))" for j
  proof (cases "j \<in> set news")
    case True
    then have "\<forall>o' \<in> K - set (order @ [k]). count_list ps (j, o') = 0" using news [of j] assms(2) by (simp add: left_def)
    then show ?thesis using assms(3) by (auto simp: needs_def count_list_0_iff)
  next
    case False
    then have "needs ps j \<subseteq> set order" using inv that by auto
    then show ?thesis by auto
  qed
  moreover have "\<not> needs ps j \<subseteq> set (order @ [k])" if "j \<in> K - set ((order @ [k]) @ (q @ news))" for j
  proof
    assume sub: "needs ps j \<subseteq> set (order @ [k])"
    from that have j: "j \<in> K" "j \<notin> set (order @ k # q)" "j \<notin> set news" by auto
    have "left j = 0" unfolding left_def by (rule sum.neutral) (use sub in \<open>auto simp: needs_def count_list_0_iff\<close>)
    then have le: "deg j \<le> int (count_list (es k) j)" using pending [OF j(1,2)] by simp
    have "\<not> needs ps j \<subseteq> set order" using inv j(1,2) by simp
    then obtain o' where o: "o' \<notin> set order" "(j, o') \<in> set ps" by (auto simp: needs_def)
    with assms(3) have "o' \<in> K - set order" by auto
    note o = this o(2)
    have "count_list ps (j, o') \<le> (\<Sum>o' \<in> K - set order. count_list ps (j, o'))" by (rule member_le_sum) (use o k(4) in auto)
    moreover have "count_list ps (j, o') \<noteq> 0" using o(2) by (metis count_list_0_iff)
    ultimately have "0 < deg j" using degs(2) [OF j(2)] by linarith
    with le show False using n(3) j(3) by auto
  qed
  ultimately have "kahn_inv ps K (q @ news) (order @ [k]) (\<lambda>j. deg j - int (count_list (es k) j))"
    unfolding kahn_inv_def left_def [symmetric] using new by blast
  then show ?thesis using n(1) by blast
qed

lemma kahn_ends:
  assumes "kahn_inv ps K q order deg" and "finite K" and "set ps \<subseteq> K \<times> K"
    and "\<forall>x y. count_list (es x) y = count_list ps (x, y) + count_list ps (y, x)"
  shows "\<exists>order' deg'. kahn es q order deg = Some order' \<and> kahn_inv ps K [] order' deg'"
  using assms(1)
proof (induction "card K - length order" arbitrary: q order deg rule: less_induct)
  case less
  show ?case
  proof (cases q)
    case Nil
    then show ?thesis using less.prems by (subst kahn.simps) auto
  next
    case (Cons k q0)
    with kahn_round [OF less.prems [unfolded Cons] assms(2-4)] obtain q' deg' where
      r: "fold relax (es k) (q0, deg) = (q', deg')" "kahn_inv ps K q' (order @ [k]) deg'" by blast
    have "distinct (order @ [k])" "set (order @ [k]) \<subseteq> K" using r(2) by (auto simp: kahn_inv_def)
    then have "length (order @ [k]) \<le> card K" using card_mono [OF assms(2)] by (metis distinct_card)
    then have "card K - length (order @ [k]) < card K - length order" by simp
    from less.hyps [OF this r(2)] show ?thesis unfolding Cons by (subst kahn.simps) (simp add: r(1))
  qed
qed

text \<open>What a factory needs, among all of them.\<close>

definition needed :: "(string \<Rightarrow> 't \<Rightarrow> bool) \<Rightarrow> ('t, 'v) dependencies \<Rightarrow> string \<Rightarrow> string set" where
  "needed prov deps k = {o' \<in> dom deps. \<exists>ty \<in> set (inputs deps k). prov o' ty}"

text \<open>The iterations visit every factory, each once.\<close>

definition iterations :: "('t, 'v) dependencies \<Rightarrow> string list \<Rightarrow> (string \<Rightarrow> nat \<Rightarrow> string list) \<Rightarrow> string list \<Rightarrow> bool" where
  "iterations deps outer inner initial \<longleftrightarrow>
     set outer = dom deps \<and> distinct outer \<and> set initial = dom deps \<and> distinct initial \<and>
     (\<forall>k i. set (inner k i) = dom deps \<and> distinct (inner k i))"

lemma in_pairs:
  "(k, o') \<in> set (pairs prov ins outer inner) \<longleftrightarrow>
     k \<in> set outer \<and> (\<exists>i < length (ins k). o' \<in> set (inner k i) \<and> prov o' (ins k ! i))"
proof
  assume "k \<in> set outer \<and> (\<exists>i < length (ins k). o' \<in> set (inner k i) \<and> prov o' (ins k ! i))"
  then obtain i where i: "k \<in> set outer" "i < length (ins k)" "o' \<in> set (inner k i)" "prov o' (ins k ! i)" by blast
  then have "(i, ins k ! i) \<in> set (enumerate 0 (ins k))" by (simp add: in_set_enumerate_eq)
  moreover have "(k, o') \<in> Pair k ` {x \<in> set (inner k i). prov x (ins k ! i)}" using i by blast
  ultimately show "(k, o') \<in> set (pairs prov ins outer inner)" using i(1) unfolding pairs_def set_concat set_map by fastforce
qed (auto simp: pairs_def in_set_enumerate_eq)

lemma needs_pairs:
  assumes "iterations deps outer inner initial"
  shows "set (pairs prov (inputs deps) outer inner) \<subseteq> dom deps \<times> dom deps"
    and "k \<in> dom deps \<Longrightarrow> needs (pairs prov (inputs deps) outer inner) k = needed prov deps k"
proof -
  have it: "set outer = dom deps" "set (inner k i) = dom deps" for k i using assms by (simp_all add: iterations_def)
  show "set (pairs prov (inputs deps) outer inner) \<subseteq> dom deps \<times> dom deps" using it by (auto simp: in_pairs)
  show "needs (pairs prov (inputs deps) outer inner) k = needed prov deps k" if "k \<in> dom deps"
    using that unfolding needs_def needed_def in_pairs it by (intro set_eqI) (simp add: Bex_def in_set_conv_nth, blast)
qed

lemma ordered_spec:
  assumes "iterations deps outer inner initial"
  shows "\<exists>order. ordered prov (inputs deps) outer inner initial = Some order \<and> distinct order \<and> set order \<subseteq> dom deps \<and>
    (\<forall>i < length order. needed prov deps (order ! i) \<subseteq> set (take i order)) \<and>
    (\<forall>k \<in> dom deps - set order. \<not> needed prov deps k \<subseteq> set order)"
proof -
  define ps where "ps = pairs prov (inputs deps) outer inner"
  define q where "q = filter (\<lambda>k. indegree (materialize ps) k = 0) initial"
  note ps = needs_pairs [OF assms, where prov = prov, folded ps_def]
  have fin: "finite (dom deps)" and ini: "set initial = dom deps" "distinct initial"
    using assms by (auto simp: iterations_def) (metis finite_set)
  have deg: "indegree (materialize ps) k = int (\<Sum>o' \<in> dom deps. count_list ps (k, o'))" for k
  proof -
    have "snd ` set ps \<subseteq> dom deps" using ps(1) by auto
    then show ?thesis unfolding materialize_def materialize_counts by (simp add: filter_fst_sum [OF fin] del: of_nat_sum)
  qed
  have "indegree (materialize ps) k = 0 \<longleftrightarrow> needs ps k = {}" for k
  proof -
    have "indegree (materialize ps) k = 0 \<longleftrightarrow> (\<Sum>o' \<in> dom deps. count_list ps (k, o')) = 0" unfolding deg by (rule of_nat_eq_0_iff)
    also have "\<dots> \<longleftrightarrow> (\<forall>o' \<in> dom deps. (k, o') \<notin> set ps)" using fin by (simp add: count_list_0_iff)
    finally show ?thesis using ps(1) by (auto simp: needs_def)
  qed
  then have q: "set q = {k \<in> dom deps. needs ps k = {}}" "distinct q" using ini by (simp_all add: q_def)
  have "indegree (materialize ps) k = int (\<Sum>o' \<in> dom deps - set []. count_list ps (k, o')) - int (\<Sum>o' \<in> set []. count_list ps (o', k))" for k
    unfolding deg by simp
  then have "kahn_inv ps (dom deps) q [] (indegree (materialize ps))"
    unfolding kahn_inv_def using q by (simp add: in_turn_def del: of_nat_sum)
  then obtain order deg' where o: "kahn (edges (materialize ps)) q [] (indegree (materialize ps)) = Some order"
    "kahn_inv ps (dom deps) [] order deg'"
    using kahn_ends [OF _ fin ps(1), of q "[]" "indegree (materialize ps)" "edges (materialize ps)"]
    by (auto simp: materialize_def materialize_counts)
  have sub: "set order \<subseteq> dom deps" using o(2) by (simp add: kahn_inv_def)
  have "needed prov deps (order ! i) \<subseteq> set (take i order)" if "i < length order" for i
  proof -
    have "order ! i \<in> dom deps" using sub that by (auto simp: subset_iff)
    then have "needed prov deps (order ! i) = needs ps (order ! i)" using ps(2) by simp
    then show ?thesis using o(2) that by (simp add: kahn_inv_def in_turn_def)
  qed
  moreover have "\<forall>k \<in> dom deps - set order. \<not> needs ps k \<subseteq> set order" using o(2) by (simp add: kahn_inv_def)
  then have "\<forall>k \<in> dom deps - set order. \<not> needed prov deps k \<subseteq> set order" using ps(2) by auto
  ultimately show ?thesis
    using o sub by (intro exI [of _ order]) (auto simp: ordered_def ps_def [symmetric] q_def [symmetric] Let_def kahn_inv_def)
qed

lemma ordered_complete:
  assumes "\<forall>k \<in> dom deps - set order. \<not> needed prov deps k \<subseteq> set order" and "wf {(o', k). k \<in> dom deps \<and> o' \<in> needed prov deps k}"
  shows "dom deps \<subseteq> set order"
proof (rule ccontr)
  assume "\<not> dom deps \<subseteq> set order"
  then obtain k where "k \<in> dom deps - set order" by blast
  with assms(2) obtain m where m: "m \<in> dom deps - set order"
    "\<And>y. (y, m) \<in> {(o', k). k \<in> dom deps \<and> o' \<in> needed prov deps k} \<Longrightarrow> y \<notin> dom deps - set order"
    by (rule wfE_min) blast
  then have "needed prov deps m \<subseteq> set order" by (auto simp: needed_def)
  with assms(1) m(1) show False by blast
qed

text \<open>
  C6. The services start in an order in which each comes after all that it needs, whatever the order of the maps. Unless
  factories need each other in a circle the order has all of them; a factory is left out only if it needs one that is left out.
\<close>

theorem services_in_order:
  assumes "iterations deps outer inner initial"
  shows "\<exists>order. ordered prov (inputs deps) outer inner initial = Some order \<and> distinct order \<and> set order \<subseteq> dom deps \<and>
    (\<forall>i < length order. needed prov deps (order ! i) \<subseteq> set (take i order)) \<and>
    (\<forall>k \<in> dom deps - set order. \<not> needed prov deps k \<subseteq> set order) \<and>
    (wf {(o', k). k \<in> dom deps \<and> o' \<in> needed prov deps k} \<longrightarrow> set order = dom deps)"
proof -
  obtain order where o: "ordered prov (inputs deps) outer inner initial = Some order" "distinct order" "set order \<subseteq> dom deps"
    "\<forall>i < length order. needed prov deps (order ! i) \<subseteq> set (take i order)"
    "\<forall>k \<in> dom deps - set order. \<not> needed prov deps k \<subseteq> set order"
    using ordered_spec [OF assms, of prov] by blast
  with ordered_complete [OF o(5)] show ?thesis by (intro exI [of _ order]) blast
qed

section \<open>What the construction does\<close>

text \<open>Each input has exactly one factory that gives it, and no factory fails.\<close>

definition wired :: "(string \<Rightarrow> 't \<Rightarrow> bool) \<Rightarrow> ('t, 'v) dependencies \<Rightarrow> bool" where
  "wired prov deps \<longleftrightarrow>
     (\<forall>k d. deps k = Some d \<longrightarrow> (\<forall>ty \<in> set (In d). \<exists>!o'. o' \<in> dom deps \<and> prov o' ty) \<and> (\<forall>args. snd (Call d args) = None))"

definition gives :: "(string \<Rightarrow> 't \<Rightarrow> bool) \<Rightarrow> ('t, 'v) dependencies \<Rightarrow> 'v instances \<Rightarrow> 't \<Rightarrow> 'v \<Rightarrow> bool" where
  "gives prov deps s ty v \<longleftrightarrow> (\<exists>o' \<in> dom deps. prov o' ty \<and> inst s o' = Some v)"

text \<open>Every factory was called once for its instance, with the instances of what it takes.\<close>

definition built :: "(string \<Rightarrow> 't \<Rightarrow> bool) \<Rightarrow> ('t, 'v) dependencies \<Rightarrow> 'v instances \<Rightarrow> bool" where
  "built prov deps s \<longleftrightarrow>
     dom (inst s) = set (map fst (calls s)) \<and> distinct (map fst (calls s)) \<and> dom (inst s) \<subseteq> dom deps \<and>
     (\<forall>(k, args) \<in> set (calls s). inst s k = Some (fst (Call (the (deps k)) args)) \<and>
        list_all2 (gives prov deps s) (In (the (deps k))) args)"

definition extends :: "'v instances \<Rightarrow> 'v instances \<Rightarrow> bool" where
  "extends s s' \<longleftrightarrow> inst s \<subseteq>\<^sub>m inst s' \<and> (\<exists>new. calls s' = calls s @ new)"

lemma extends_refl [simp]: "extends s s"
  by (simp add: extends_def)

lemma extends_trans: "extends s s' \<Longrightarrow> extends s' s'' \<Longrightarrow> extends s s''"
  unfolding extends_def by (metis append.assoc map_le_trans)

lemma gives_mono: "gives prov deps s ty v \<Longrightarrow> extends s s' \<Longrightarrow> gives prov deps s' ty v"
  unfolding gives_def extends_def map_le_def by (metis domI)

lemma singleton_list: "distinct xs \<Longrightarrow> set xs = {x} \<Longrightarrow> xs = [x]"
  by (cases xs; cases "tl xs") auto

text \<open>The rank of a factory bounds the depth of the stack its construction takes.\<close>

lemma arguments_ok:
  fixes deps :: "('t, 'v) dependencies"
  assumes res: "\<And>o' s. o' \<in> dom deps \<Longrightarrow> rank o' < r \<Longrightarrow> built prov deps s \<Longrightarrow>
      \<exists>s' v. res o' s = Some (s', Inr v) \<and> built prov deps s' \<and> extends s s' \<and> inst s' o' = Some v \<and>
        dom (inst s') \<subseteq> dom (inst s) \<union> {x. rank x < r}"
    and one: "\<forall>ty \<in> snd ` set ins. \<exists>!o'. o' \<in> dom deps \<and> prov o' ty"
    and low: "\<forall>ty \<in> snd ` set ins. \<forall>o' \<in> dom deps. prov o' ty \<longrightarrow> rank o' < r"
    and inner: "\<forall>i. set (inner k i) = dom deps \<and> distinct (inner k i)" and "built prov deps s"
  shows "\<exists>s' args. arguments show_type prov inner res k ins s = Some (s', Inr args) \<and> built prov deps s' \<and> extends s s' \<and>
    list_all2 (gives prov deps s') (map snd ins) args \<and> dom (inst s') \<subseteq> dom (inst s) \<union> {x. rank x < r}"
  using one low assms(5)
proof (induction ins arbitrary: s)
  case (Cons p ins)
  obtain i ty where p: "p = (i, ty)" by force
  obtain o' where o: "o' \<in> dom deps" "prov o' ty" "\<And>x. x \<in> dom deps \<Longrightarrow> prov x ty \<Longrightarrow> x = o'"
  proof -
    have "\<exists>!o'. o' \<in> dom deps \<and> prov o' ty" using Cons.prems(1) by (simp add: p)
    then show thesis using that by blast
  qed
  have "set (filter (\<lambda>x. prov x ty) (inner k i)) = {x \<in> dom deps. prov x ty}" "distinct (filter (\<lambda>x. prov x ty) (inner k i))"
    using inner by simp_all
  moreover have "{x \<in> dom deps. prov x ty} = {o'}" using o by blast
  ultimately have found: "filter (\<lambda>x. prov x ty) (inner k i) = [o']" by (metis singleton_list)
  have "rank o' < r" using Cons.prems(2) o(1,2) by (simp add: p)
  from res [OF o(1) this Cons.prems(3)] obtain s1 v where s1: "res o' s = Some (s1, Inr v)" "built prov deps s1" "extends s s1"
    "inst s1 o' = Some v" "dom (inst s1) \<subseteq> dom (inst s) \<union> {x. rank x < r}" by blast
  have "\<forall>ty \<in> snd ` set ins. \<exists>!o'. o' \<in> dom deps \<and> prov o' ty" using Cons.prems(1) by simp
  moreover have "\<forall>ty \<in> snd ` set ins. \<forall>o' \<in> dom deps. prov o' ty \<longrightarrow> rank o' < r" using Cons.prems(2) by simp
  ultimately obtain s2 args where
    s2: "arguments show_type prov inner res k ins s1 = Some (s2, Inr args)" "built prov deps s2" "extends s1 s2"
    "list_all2 (gives prov deps s2) (map snd ins) args" "dom (inst s2) \<subseteq> dom (inst s1) \<union> {x. rank x < r}"
    using Cons.IH [OF _ _ s1(2)] by blast
  have "gives prov deps s1 ty v" using o(1,2) s1(4) unfolding gives_def by blast
  then have "gives prov deps s2 ty v" by (rule gives_mono) (rule s2(3))
  then have "list_all2 (gives prov deps s2) (map snd (p # ins)) (v # args)" using s2(4) by (simp add: p)
  moreover have "arguments show_type prov inner res k (p # ins) s = Some (s2, Inr (v # args))"
    using s1(1) s2(1) by (simp add: p found Let_def)
  moreover have "dom (inst s2) \<subseteq> dom (inst s) \<union> {x. rank x < r}" using s1(5) s2(5) by blast
  moreover note s2(2) extends_trans [OF s1(3) s2(3)]
  ultimately show ?case by blast
qed simp

lemma built_call:
  assumes "built prov deps s" and "inst s k = None" and "deps k = Some d" and "list_all2 (gives prov deps s) (In d) args"
  defines "s' \<equiv> \<lparr>inst = (inst s)(k \<mapsto> fst (Call d args)), calls = calls s @ [(k, args)]\<rparr>"
  shows "built prov deps s'" and "extends s s'"
proof -
  show e: "extends s s'" using assms(2) by (auto simp: extends_def s'_def map_le_def)
  have k: "k \<notin> set (map fst (calls s))" using assms(1,2) by (auto simp: built_def)
  have args: "list_all2 (gives prov deps s') (In (the (deps k'))) a" if "(k', a) \<in> set (calls s')" for k' a
  proof -
    have "list_all2 (gives prov deps s) (In (the (deps k'))) a" using that assms(1,3,4) by (auto simp: built_def s'_def)
    then show ?thesis by (rule list_all2_mono) (rule gives_mono [OF _ e])
  qed
  have result: "inst s' k' = Some (fst (Call (the (deps k')) a))" if "(k', a) \<in> set (calls s')" for k' a
    using that assms(1,3) k by (force simp: built_def s'_def)
  have "dom (inst s') = insert k (dom (inst s))" by (simp add: s'_def)
  moreover have "dom (inst s) \<subseteq> dom deps" "k \<in> dom deps" using assms(1,3) unfolding built_def by blast+
  ultimately have "dom (inst s') \<subseteq> dom deps" by simp
  moreover have "dom (inst s') = set (map fst (calls s'))" "distinct (map fst (calls s'))"
    using assms(1) k by (simp_all add: built_def s'_def)
  ultimately show "built prov deps s'" unfolding built_def using args result by blast
qed

lemma resolve_ok:
  fixes deps :: "('t, 'v) dependencies"
  assumes "wired prov deps" and rank: "\<And>k o'. k \<in> dom deps \<Longrightarrow> o' \<in> needed prov deps k \<Longrightarrow> rank o' < rank k"
    and inner: "\<forall>k i. set (inner k i) = dom deps \<and> distinct (inner k i)"
    and "k \<in> dom deps" and "rank k < n" and "built prov deps s"
  shows "\<exists>s' v. resolve n show_type prov deps inner k s = Some (s', Inr v) \<and> built prov deps s' \<and> extends s s' \<and>
    inst s' k = Some v \<and> dom (inst s') \<subseteq> dom (inst s) \<union> {x. rank x < rank k} \<union> {k}"
  using assms(4-6)
proof (induction n arbitrary: k s)
  case (Suc n)
  show ?case
  proof (cases "inst s k")
    case None
    obtain d where d: "deps k = Some d" using Suc.prems(1) by blast
    have ins: "snd ` set (enumerate 0 (In d)) = set (In d)" "map snd (enumerate 0 (In d)) = In d"
      by (metis list.set_map map_snd_enumerate) (rule map_snd_enumerate)
    have low: "rank o' < rank k" if "ty \<in> set (In d)" "o' \<in> dom deps" "prov o' ty" for ty o'
      using rank [OF Suc.prems(1), of o'] that d by (auto simp: needed_def inputs_def)
    have res: "\<exists>s' v. resolve n show_type prov deps inner o' s = Some (s', Inr v) \<and> built prov deps s' \<and> extends s s' \<and>
        inst s' o' = Some v \<and> dom (inst s') \<subseteq> dom (inst s) \<union> {x. rank x < rank k}"
      if "o' \<in> dom deps" "rank o' < rank k" "built prov deps s" for o' s
      using Suc.IH [OF that(1) _ that(3)] that(2) Suc.prems(2) by fastforce
    have "\<exists>s' args. arguments show_type prov inner (resolve n show_type prov deps inner) k (enumerate 0 (In d)) s = Some (s', Inr args) \<and>
        built prov deps s' \<and> extends s s' \<and> list_all2 (gives prov deps s') (map snd (enumerate 0 (In d))) args \<and>
        dom (inst s') \<subseteq> dom (inst s) \<union> {x. rank x < rank k}"
      by (rule arguments_ok [where rank = rank and r = "rank k"])
        (use res assms(1) d low inner Suc.prems(3) in \<open>auto simp: ins(1) wired_def\<close>)
    then obtain s1 args where s1: "built prov deps s1" "extends s s1" "list_all2 (gives prov deps s1) (In d) args"
      "arguments show_type prov inner (resolve n show_type prov deps inner) k (enumerate 0 (In d)) s = Some (s1, Inr args)"
      "dom (inst s1) \<subseteq> dom (inst s) \<union> {x. rank x < rank k}" unfolding ins by blast
    have "inst s1 k = None" using s1(5) None by auto
    note call = built_call [OF s1(1) this d s1(3)]
    have "snd (Call d args) = None" using assms(1) d by (simp add: wired_def)
    then obtain v where v: "Call d args = (v, None)" by (metis prod.collapse)
    define s2 where "s2 = \<lparr>inst = (inst s1)(k \<mapsto> v), calls = calls s1 @ [(k, args)]\<rparr>"
    have "dom (inst s2) = insert k (dom (inst s1))" "inst s2 k = Some v" by (simp_all add: s2_def)
    moreover have "resolve (Suc n) show_type prov deps inner k s = Some (s2, Inr v)"
      using None d s1(4) v by (simp add: s2_def Let_def)
    moreover have "built prov deps s2" "extends s s2" using call extends_trans [OF s1(2) call(2)] by (simp_all add: s2_def v)
    ultimately show ?thesis using s1(5) by (intro exI [of _ s2] exI [of _ v]) auto
  qed (use Suc.prems in auto)
qed simp

lemma resolve_each_ok:
  assumes res: "\<And>k s. k \<in> dom deps \<Longrightarrow> built prov deps s \<Longrightarrow>
      \<exists>s' v. res k s = Some (s', Inr v) \<and> built prov deps s' \<and> extends s s' \<and> inst s' k = Some v"
    and "set ks \<subseteq> dom deps" and "built prov deps s"
  shows "\<exists>s'. resolve_each res ks s = Some (Inr s') \<and> built prov deps s' \<and> extends s s' \<and> set ks \<subseteq> dom (inst s')"
  using assms(2,3)
proof (induction ks arbitrary: s)
  case (Cons k ks)
  obtain s1 v where s1: "res k s = Some (s1, Inr v)" "built prov deps s1" "extends s s1" "inst s1 k = Some v"
    using res [of k s] Cons.prems by auto
  have "s1\<lparr>inst := (inst s1)(k \<mapsto> v)\<rparr> = s1" using s1(4) by (simp add: map_upd_triv)
  moreover from Cons.IH [OF _ s1(2)] Cons.prems(1) obtain s2 where
    s2: "resolve_each res ks s1 = Some (Inr s2)" "built prov deps s2" "extends s1 s2" "set ks \<subseteq> dom (inst s2)" by auto
  moreover have "k \<in> dom (inst s2)" using s1(4) s2(3) unfolding extends_def map_le_def by (metis domI domIff)
  ultimately show ?case using s1(1) extends_trans [OF s1(3) s2(3)] by auto
qed simp

text \<open>The rank that the order of the start gives.\<close>

lemma index_rank:
  assumes "distinct order" and "\<forall>i < length order. N (order ! i) \<subseteq> set (take i order)" and "k \<in> set order" and "o' \<in> N k"
  shows "length (takeWhile (\<lambda>x. x \<noteq> o') order) < length (takeWhile (\<lambda>x. x \<noteq> k) order)"
    and "length (takeWhile (\<lambda>x. x \<noteq> k) order) < length order"
proof -
  have pos: "length (takeWhile (\<lambda>x. x \<noteq> order ! i) order) = i" if "i < length order" for i
    using assms(1) that by (subst takeWhile_eq_take_P_nth [of i]) (auto simp: nth_eq_iff_index_eq)
  obtain i where i: "i < length order" "order ! i = k" using assms(3) by (auto simp: in_set_conv_nth)
  then have "o' \<in> set (take i order)" using assms(2,4) by blast
  then obtain j where j: "j < i" "order ! j = o'" by (auto simp: in_set_conv_nth)
  show "length (takeWhile (\<lambda>x. x \<noteq> o') order) < length (takeWhile (\<lambda>x. x \<noteq> k) order)"
    using pos [of i] pos [of j] i j by simp
  show "length (takeWhile (\<lambda>x. x \<noteq> k) order) < length order" using pos i by auto
qed

text \<open>The wiring with the order of the start; the statement for the program itself rests on it.\<close>

lemma wiring_ok:
  fixes deps :: "('t, 'v) dependencies"
  assumes "collect_dependencies fs Map.empty = Some (Inr deps)" and "iterations deps outer inner initial"
    and "wired (provides interface implements deps) deps"
    and "wf {(o', k). k \<in> dom deps \<and> o' \<in> needed (provides interface implements deps) deps k}" and "card (dom deps) < depth"
  shows "\<exists>s order. Init depth show_type interface implements outer inner initial fs = Some (Inr (s, order)) \<and>
    set order = dom deps \<and> distinct order \<and> (\<forall>i < length order. needed (provides interface implements deps) deps (order ! i) \<subseteq> set (take i order)) \<and>
    set (map fst (calls s)) = dom deps \<and> distinct (map fst (calls s)) \<and>
    (\<forall>(k, args) \<in> set (calls s). inst s k = Some (fst (Call (the (deps k)) args)) \<and>
      list_all2 (gives (provides interface implements deps) deps s) (In (the (deps k))) args)"
proof -
  define prov where "prov = provides interface implements deps"
  obtain order where o: "ordered prov (inputs deps) outer inner initial = Some order" "distinct order"
    "\<forall>i < length order. needed prov deps (order ! i) \<subseteq> set (take i order)" "set order = dom deps"
    using ordered_spec [OF assms(2), of prov] ordered_complete [OF _ assms(4) [folded prov_def]] by (metis subset_antisym)
  define rank where "rank k = length (takeWhile (\<lambda>x. x \<noteq> k) order)" for k
  have size: "length order = card (dom deps)" using o(2,4) by (metis distinct_card)
  have rank: "rank o' < rank k" if "k \<in> dom deps" "o' \<in> needed prov deps k" for k o'
    using index_rank(1) [OF o(2,3), of k o'] that o(4) by (simp add: rank_def)
  have "rank k < depth" if "k \<in> dom deps" for k
    using size assms(5) length_takeWhile_le [of "\<lambda>x. x \<noteq> k" order] by (simp add: rank_def)
  then have res: "\<exists>s' v. resolve depth show_type prov deps inner k s = Some (s', Inr v) \<and> built prov deps s' \<and> extends s s' \<and> inst s' k = Some v"
    if "k \<in> dom deps" "built prov deps s" for k s
    using resolve_ok [OF assms(3) [folded prov_def], of rank inner k depth s show_type] rank that assms(2)
    by (simp add: iterations_def) blast
  have outer: "set outer = dom deps" using assms(2) by (simp add: iterations_def)
  have "built prov deps \<lparr>inst = Map.empty, calls = []\<rparr>" by (simp add: built_def)
  from resolve_each_ok [OF res _ this, of outer] outer obtain s where
    s: "resolve_each (resolve depth show_type prov deps inner) outer \<lparr>inst = Map.empty, calls = []\<rparr> = Some (Inr s)"
    "built prov deps s" "dom deps \<subseteq> dom (inst s)" by auto
  have "Init depth show_type interface implements outer inner initial fs = Some (Inr (s, order))"
    by (simp add: Init_def assms(1) prov_def [symmetric] o(1) s(1) Let_def)
  moreover have "set (map fst (calls s)) = dom deps" using s(2,3) unfolding built_def by blast
  ultimately show ?thesis using s(2) o(2-4) unfolding prov_def [symmetric] built_def by blast
qed

text \<open>
  When every input of a factory is given by exactly one factory, none needs itself in a circle and none fails, the
  wiring ends without an error, on a stack as deep as there are factories: each factory is called exactly once, with the
  instances of what it asks for, and the order of the start has all of them.
\<close>

theorem wiring_builds_once:
  fixes deps :: "('t, 'v) dependencies"
  assumes "collect_dependencies fs Map.empty = Some (Inr deps)" and "iterations deps outer inner initial"
    and "wired (provides interface implements deps) deps"
    and "wf {(o', k). k \<in> dom deps \<and> o' \<in> needed (provides interface implements deps) deps k}" and "card (dom deps) < depth"
  shows "\<exists>s order. Init depth show_type interface implements outer inner initial fs = Some (Inr (s, order)) \<and>
    set order = dom deps \<and> set (map fst (calls s)) = dom deps \<and> distinct (map fst (calls s)) \<and>
    (\<forall>(k, args) \<in> set (calls s). inst s k = Some (fst (Call (the (deps k)) args)) \<and>
      list_all2 (gives (provides interface implements deps) deps s) (In (the (deps k))) args)"
  using wiring_ok [OF assms, of show_type] by (elim exE conjE, intro exI conjI)

text \<open>Three factories: a history, a pool that takes it, and a refresher that takes both.\<close>

definition three :: "(string \<times> (nat, nat) factory) list" where
  "three = [(''refresher'', Func [2] [1, 0] (\<lambda>args. (length args, None))), (''pool'', Func [1] [0] (\<lambda>args. (length args, None))),
     (''history'', Func [0] [] (\<lambda>args. (length args, None)))]"

definition three_deps :: "(nat, nat) dependencies" where
  "three_deps = [''refresher'' \<mapsto> \<lparr>Out = 2, In = [1, 0], Call = (\<lambda>args. (length args, None))\<rparr>,
     ''pool'' \<mapsto> \<lparr>Out = 1, In = [0], Call = (\<lambda>args. (length args, None))\<rparr>,
     ''history'' \<mapsto> \<lparr>Out = 0, In = [], Call = (\<lambda>args. (length args, None))\<rparr>]"

lemma three_deps:
  "collect_dependencies three Map.empty = Some (Inr three_deps)" "dom three_deps = {''refresher'', ''pool'', ''history''}"
  "iterations three_deps (map fst three) (\<lambda>k i. map fst three) (map fst three)"
  "wired (provides (\<lambda>_. False) (\<lambda>_ _. False) three_deps) three_deps"
  "wf {(o', k). k \<in> dom three_deps \<and> o' \<in> needed (provides (\<lambda>_. False) (\<lambda>_ _. False) three_deps) three_deps k}"
proof -
  show "collect_dependencies three Map.empty = Some (Inr three_deps)" by (simp add: three_def three_deps_def)
  show d: "dom three_deps = {''refresher'', ''pool'', ''history''}" by (auto simp: three_deps_def)
  show "iterations three_deps (map fst three) (\<lambda>k i. map fst three) (map fst three)" unfolding iterations_def d by (simp add: three_def)
  have prov: "provides (\<lambda>_. False) (\<lambda>_ _. False) three_deps o' ty \<longleftrightarrow>
      o' = ''refresher'' \<and> ty = 2 \<or> o' = ''pool'' \<and> ty = 1 \<or> o' = ''history'' \<and> ty = 0" for o' ty
    by (auto simp: provides_def matches_def three_deps_def)
  have cases: "three_deps k = Some e \<Longrightarrow> snd (Call e args) = None \<and> set (In e) \<subseteq> {0, 1}" for k e args
    by (auto simp: three_deps_def split: if_splits)
  have ins: "inputs three_deps ''refresher'' = [1, 0]" "inputs three_deps ''pool'' = [0]" "inputs three_deps ''history'' = []"
    by (simp_all add: inputs_def three_deps_def)
  show "wired (provides (\<lambda>_. False) (\<lambda>_ _. False) three_deps) three_deps"
    unfolding wired_def prov d
  proof (intro allI impI conjI ballI)
    fix k e ty args assume e: "three_deps k = Some e"
    show "snd (Call e args) = None" using cases [OF e] by blast
    assume "ty \<in> set (In e)"
    then have "ty = 0 \<or> ty = 1" using cases [OF e] by blast
    then show "\<exists>!o'. o' \<in> {''refresher'', ''pool'', ''history''} \<and>
        (o' = ''refresher'' \<and> ty = 2 \<or> o' = ''pool'' \<and> ty = 1 \<or> o' = ''history'' \<and> ty = 0)"
      by (elim disjE) (simp_all add: Ex1_def)
  qed
  show "wf {(o', k). k \<in> dom three_deps \<and> o' \<in> needed (provides (\<lambda>_. False) (\<lambda>_ _. False) three_deps) three_deps k}"
    unfolding needed_def prov d
    by (rule wf_subset [OF wf_measure [of "\<lambda>k. if k = ''history'' then 0 else if k = ''pool'' then 1 else 2"]]) (use ins in auto)
qed

theorem services_in_order_witness:
  "\<exists>order. ordered (provides (\<lambda>_. False) (\<lambda>_ _. False) three_deps) (inputs three_deps) (map fst three) (\<lambda>k i. map fst three) (map fst three)
     = Some order \<and> set order = {''refresher'', ''pool'', ''history''}"
proof -
  obtain order where "ordered (provides (\<lambda>_. False) (\<lambda>_ _. False) three_deps) (inputs three_deps) (map fst three) (\<lambda>k i. map fst three) (map fst three)
      = Some order" "wf {(o', k). k \<in> dom three_deps \<and> o' \<in> needed (provides (\<lambda>_. False) (\<lambda>_ _. False) three_deps) three_deps k} \<longrightarrow>
      set order = dom three_deps"
    using services_in_order [OF three_deps(3), of "provides (\<lambda>_. False) (\<lambda>_ _. False) three_deps"] by (elim exE conjE)
  then show ?thesis using three_deps(5) unfolding three_deps(2) by (intro exI [of _ order] conjI) simp_all
qed

theorem wiring_builds_once_witness:
  "\<exists>s order. Init 4 (\<lambda>_. []) (\<lambda>_. False) (\<lambda>_ _. False) (map fst three) (\<lambda>k i. map fst three) (map fst three) three = Some (Inr (s, order)) \<and>
     set order = {''refresher'', ''pool'', ''history''} \<and> distinct (map fst (calls s))"
proof -
  have "card (dom three_deps) < 4" by (simp add: three_deps(2))
  from wiring_builds_once [OF three_deps(1,3-5) this, of "\<lambda>_. []"] show ?thesis unfolding three_deps(2)
    by (elim exE conjE, intro exI conjI)
qed

text \<open>A factory that takes what it gives is left out of the order and never built: the stack overflows, at any depth.\<close>

lemma circle_overflows:
  assumes "deps k = Some d" and "In d = ty # tys" and "filter (\<lambda>x. prov x ty) (inner k 0) = k # others" and "inst s k = None"
  shows "resolve n show_type prov deps inner k s = None"
proof (induction n)
  case (Suc n)
  then show ?case using assms by (simp add: Let_def)
qed simp

end
