(* ===== verification/History.thy ===== *)
theory History
  imports Columns Http Config RestApi
begin

text \<open>
  The recorded requests (\<open>history/history.go\<close>, \<open>history/roundtripper.go\<close> and the generated \<open>history/request_dataset.go\<close>): an
  actor keeps the last \<open>limit\<close> requests, numbers them, counts how often each proxy was used, and answers queries over
  them; the round tripper records what goes through it. The parser of queries, the printing of numbers and durations,
  \<open>url.Parse\<close> and the transport are arguments.
\<close>

section \<open>Requests\<close>

record recorded =
  q_ID :: int
  q_Serial :: int
  q_Attempt :: int
  q_Ts :: time
  q_Method :: string
  q_URL :: string
  q_StatusCode :: int
  q_Status :: string
  q_Proxy :: proxy
  q_Appeared :: int
  q_InHeaders :: "string \<rightharpoonup> string"
  q_OutHeaders :: "string \<rightharpoonup> string"
  q_InBody :: "8 word list"
  q_OutBody :: "8 word list"
  q_Size :: int
  q_Took :: duration

definition zero_request :: recorded where
  "zero_request = \<lparr>q_ID = 0, q_Serial = 0, q_Attempt = 0, q_Ts = 0, q_Method = [], q_URL = [], q_StatusCode = 0, q_Status = [],
     q_Proxy = 0, q_Appeared = 0, q_InHeaders = Map.empty, q_OutHeaders = Map.empty, q_InBody = [], q_OutBody = [],
     q_Size = 0, q_Took = 0\<rparr>"

text \<open>What the list shows of a request.\<close>

record filtered_request =
  fr_ID :: int
  fr_Serial :: int
  fr_Attempt :: int
  fr_Ts :: time
  fr_Method :: string
  fr_URL :: string
  fr_StatusCode :: int
  fr_Status :: string
  fr_Proxy :: string
  fr_Appeared :: int
  fr_Size :: int
  fr_Took :: gofloat

section \<open>The dataset\<close>

text \<open>\<open>host\<close> is \<open>url.Parse\<close>, down to the host.\<close>

definition getHostname :: "(string \<Rightarrow> string option) \<Rightarrow> recorded \<Rightarrow> string" where
  "getHostname host r = (case host (q_URL r) of Some h \<Rightarrow> h | None \<Rightarrow> q_URL r)"

definition getStatusFacet :: "recorded \<Rightarrow> string" where
  "getStatusFacet r = last (str_split '': '' (q_Status r))"

definition request_columns :: "recorded columns" where
  "request_columns =
     [(''ID'', NumberKey q_ID),
      (''Serial'', NumberKey q_Serial),
      (''Attempt'', NumberKey q_Attempt),
      (''Ts'', NumberKey (\<lambda>r. unix (q_Ts r))),
      (''Method'', TextKey q_Method),
      (''URL'', TextKey q_URL),
      (''StatusCode'', NumberKey q_StatusCode),
      (''Status'', TextKey q_Status),
      (''Proxy'', TextKey (\<lambda>r. String (q_Proxy r))),
      (''Appeared'', NumberKey q_Appeared),
      (''Took'', NumberKey q_Took)]"

definition size_column :: "recorded columns" where
  "size_column = [(''Size'', NumberKey q_Size)]"

definition request_facets :: "(string \<Rightarrow> string option) \<Rightarrow> recorded list \<Rightarrow> retriever list" where
  "request_facets host rows =
     [text_facet rows q_Method False ''Method'' ''Method'',
      text_facet rows (getHostname host) True ''URL'' ''Host'',
      text_facet rows getStatusFacet True ''Status'' ''Status'',
      text_facet rows (\<lambda>r. String (q_Proxy r)) False ''Proxy'' ''Proxy'',
      range_facet rows q_Took DurationScale ''Took'' ''Took'',
      range_facet rows q_Size SizeScale ''Size'' ''Size'']"

text \<open>The size can be filtered by but not sorted by.\<close>

definition RequestDataset :: "(string \<Rightarrow> string option) \<Rightarrow> (duration \<Rightarrow> string) \<Rightarrow> time \<Rightarrow> recorded list \<Rightarrow> recorded dataset" where
  "RequestDataset host dur now rows =
     dataset_of (request_columns @ size_column) request_columns [] [''Ts''] (request_facets host) dur now rows"

section \<open>The actor\<close>

record history =
  h_counter :: int
  h_appears :: "proxy \<Rightarrow> int"
  h_requests :: "recorded list"
  h_limit :: int

definition NewHistory :: history where
  "NewHistory = \<lparr>h_counter = 0, h_appears = (\<lambda>_. 0), h_requests = [], h_limit = 0\<rparr>"

definition Configure :: "config \<Rightarrow> history \<Rightarrow> history" where
  "Configure c h = h\<lparr>h_limit := IntOr c ''limit'' 1000\<rparr>"

text \<open>A message of \<open>record\<close>.\<close>

definition Record :: "recorded \<Rightarrow> history \<Rightarrow> history" where
  "Record r h =
     (let counter = h_counter h + 1;
          r = r\<lparr>q_ID := counter\<rparr>;
          appears = (h_appears h)(q_Proxy r := h_appears h (q_Proxy r) + 1);
          r = r\<lparr>q_Appeared := appears (q_Proxy r)\<rparr>;
          requests = (if h_limit h > 0 \<and> int (length (h_requests h)) = h_limit h then tl (h_requests h) else h_requests h)
      in h\<lparr>h_counter := counter, h_appears := appears, h_requests := requests @ [r]\<rparr>)"

text \<open>A message of \<open>requestRequest\<close>: the first request with the number, or the zero one.\<close>

fun find_request :: "int \<Rightarrow> recorded list \<Rightarrow> recorded" where
  "find_request i [] = zero_request"
| "find_request i (r # rs) = (if q_ID r \<noteq> i then find_request i rs else r)"

definition get_request :: "int \<Rightarrow> history \<Rightarrow> recorded" where
  "get_request i h = find_request i (h_requests h)"

text \<open>\<open>atoi_error\<close> is the text of the error of \<open>strconv.Atoi\<close>.\<close>

definition HttpGetByID :: "(string \<Rightarrow> string) \<Rightarrow> string \<Rightarrow> history \<Rightarrow> api_error + recorded" where
  "HttpGetByID atoi_error key h =
     (case atoi key of
        None \<Rightarrow> Inl (OtherError (atoi_error key))
      | Some i \<Rightarrow>
          (let d = get_request i h
           in if q_ID d = 0 then Inl (NotFound (''request not found: '' @ key)) else Inr d))"

text \<open>\<open>Duration.Seconds\<close>, a 64 bit float.\<close>

definition Seconds :: "duration \<Rightarrow> gofloat" where
  "Seconds d = flt_add (flt_of_int binary64 (d sdiv second))
     (flt_div binary64 (flt_of_int binary64 (d smod second)) (flt_of_int binary64 second))"

definition filtered_of :: "(proxy \<Rightarrow> int) \<Rightarrow> recorded \<Rightarrow> filtered_request" where
  "filtered_of appears v =
     \<lparr>fr_ID = q_ID v, fr_Serial = q_Serial v, fr_Attempt = q_Attempt v, fr_Ts = q_Ts v, fr_Method = q_Method v, fr_URL = q_URL v,
      fr_StatusCode = q_StatusCode v, fr_Status = q_Status v, fr_Proxy = String (q_Proxy v), fr_Appeared = appears (q_Proxy v),
      fr_Size = int (length (q_OutBody v)), fr_Took = Seconds (duration_round (q_Took v) second)\<rparr>"

text \<open>A message of \<open>filter\<close>.\<close>

definition handleFilter :: "(string \<Rightarrow> (string + node \<times> orderBy list \<times> int) option) \<Rightarrow> (gofloat \<Rightarrow> string) \<Rightarrow> (string \<Rightarrow> string option)
    \<Rightarrow> (duration \<Rightarrow> string) \<Rightarrow> time \<Rightarrow> string \<Rightarrow> history \<Rightarrow> (string + filtered_request query_result) option" where
  "handleFilter parse float host dur now query h =
     (case Dataset_Query parse float (RequestDataset host dur now (h_requests h)) query of
        None \<Rightarrow> None
      | Some (Inl err) \<Rightarrow> Some (Inl err)
      | Some (Inr res) \<Rightarrow>
          Some (Inr \<lparr>Total = Total res, Records = map (filtered_of (h_appears h)) (Records res), FacetList = FacetList res\<rparr>))"

section \<open>The round tripper\<close>

text \<open>\<open>v, _ := strconv.Atoi(s)\<close>: the nearest integer when the number is out of range, 0 when it is none.\<close>

definition atoi_or_zero :: "string \<Rightarrow> int" where
  "atoi_or_zero s =
     (let neg = (s \<noteq> [] \<and> hd s = CHR ''-''); plus = (s \<noteq> [] \<and> hd s = CHR ''+''); ds = (if neg \<or> plus then tl s else s)
      in if ds = [] then 0 else
         case digits_value 0 ds of
           None \<Rightarrow> 0
         | Some n \<Rightarrow> max (- (2 ^ 63)) (min (2 ^ 63 - 1) (if neg then - int n else int n)))"

definition popIntHeader :: "string \<Rightarrow> header \<Rightarrow> header \<times> int" where
  "popIntHeader k h =
     (let v = header_get h k
      in if v = [] then (h, 0) else (header_del k h, atoi_or_zero v))"

definition headersToMap :: "header \<Rightarrow> string \<rightharpoonup> string" where
  "headersToMap h = (\<lambda>k. case h k of None \<Rightarrow> None | Some vs \<Rightarrow> Some (header_get h k))"

text \<open>Without a response the error must be there: reading a nil one is a panic.\<close>

definition outBody :: "http_response option \<Rightarrow> go_error option \<Rightarrow> (8 word list \<times> http_response) option" where
  "outBody out err =
     (case out of
        None \<Rightarrow> (case err of None \<Rightarrow> None
          | Some e \<Rightarrow> Some ([], \<lparr>StatusCode = 551, Status = err_text e, RsHeader = Map.empty, RsBody = []\<rparr>))
      | Some res \<Rightarrow> Some (RsBody res, res))"

text \<open>
  \<open>transport\<close> gives a response and an error, either of which may be missing, and what it left of the request's body; \<open>ended\<close> and
  \<open>took\<close> are the clock after it.
\<close>

definition recording_RoundTrip :: "(http_request \<Rightarrow> http_response option \<times> go_error option \<times> 8 word list) \<Rightarrow> time \<Rightarrow> duration
    \<Rightarrow> http_request \<Rightarrow> history \<Rightarrow> (history \<times> (go_error + http_response)) option" where
  "recording_RoundTrip transport ended took rq h =
     (let (hd, serial) = popIntHeader ''X-Proxy-Serial'' (RqHeader rq);
          (hd, attempt) = popIntHeader ''X-Proxy-Attempt'' hd;
          rq = rq\<lparr>RqHeader := hd\<rparr>;
          proxy = GetProxyFromContext rq;
          (out, err, left) = transport rq
      in case outBody out err of
           None \<Rightarrow> None
         | Some (body, res) \<Rightarrow>
             (let r = \<lparr>q_ID = 0, q_Serial = serial, q_Attempt = attempt, q_Ts = ended, q_Method = Method rq, q_URL = URL rq,
                  q_StatusCode = StatusCode res, q_Status = Status res, q_Proxy = proxy, q_Appeared = 0,
                  q_InHeaders = headersToMap (RqHeader rq), q_OutHeaders = headersToMap (RsHeader res),
                  q_InBody = left, q_OutBody = body, q_Size = int (length body), q_Took = took\<rparr>
              in Some (Record r h, case err of Some e \<Rightarrow> Inl e | None \<Rightarrow> Inr res)))"

section \<open>What the history holds\<close>

text \<open>All requests that were recorded, with their numbers and how often their proxy had appeared by then.\<close>

definition numbered :: "recorded list \<Rightarrow> recorded list" where
  "numbered rs = map (\<lambda>i. (rs ! i)\<lparr>q_ID := int i + 1,
     q_Appeared := int (length (filter (\<lambda>r. q_Proxy r = q_Proxy (rs ! i)) (take (i + 1) rs)))\<rparr>) [0..<length rs]"

definition kept :: "int \<Rightarrow> nat \<Rightarrow> nat" where
  "kept limit n = (if limit > 0 then min n (nat limit) else n)"

lemma numbered_snoc:
  "numbered (rs @ [r]) = numbered rs @ [r\<lparr>q_ID := int (length rs) + 1,
     q_Appeared := int (length (filter (\<lambda>x. q_Proxy x = q_Proxy r) rs)) + 1\<rparr>]"
  by (auto simp: numbered_def nth_append)

lemma length_numbered [simp]: "length (numbered rs) = length rs"
  by (simp add: numbered_def)

lemma Record_window:
  fixes rs :: "recorded list" and limit :: int
  defines "h \<equiv> fold Record rs (NewHistory\<lparr>h_limit := limit\<rparr>)"
  shows "h_counter h = int (length rs)" "h_limit h = limit"
    "h_appears h = (\<lambda>p. int (length (filter (\<lambda>r. q_Proxy r = p) rs)))"
    "h_requests h = drop (length rs - kept limit (length rs)) (numbered rs)"
proof -
  have "h_counter h = int (length rs) \<and> h_limit h = limit \<and> h_appears h = (\<lambda>p. int (length (filter (\<lambda>r. q_Proxy r = p) rs))) \<and>
    h_requests h = drop (length rs - kept limit (length rs)) (numbered rs)"
    unfolding h_def
  proof (induction rs rule: rev_induct)
    case Nil
    show ?case by (simp add: NewHistory_def numbered_def)
  next
    case (snoc r rs)
    define h where "h = fold Record rs (NewHistory\<lparr>h_limit := limit\<rparr>)"
    have h: "h_counter h = int (length rs)" "h_limit h = limit" "h_appears h = (\<lambda>p. int (length (filter (\<lambda>r. q_Proxy r = p) rs)))"
      "h_requests h = drop (length rs - kept limit (length rs)) (numbered rs)" using snoc by (simp_all add: h_def)
    have "(if limit > 0 \<and> int (length (h_requests h)) = limit then tl (h_requests h) else h_requests h) =
        drop (length (rs @ [r]) - kept limit (length (rs @ [r]))) (numbered rs)"
    proof (cases "limit > 0 \<and> limit \<le> int (length rs)")
      case True
      then have "length (h_requests h) = nat limit" "length (rs @ [r]) - kept limit (length (rs @ [r])) = Suc (length rs - kept limit (length rs))"
        by (auto simp: h(4) kept_def)
      then show ?thesis using True unfolding h(4) by (simp add: tl_drop drop_Suc)
    next
      case False
      then have "length (rs @ [r]) - kept limit (length (rs @ [r])) = 0" "length rs - kept limit (length rs) = 0" by (auto simp: kept_def)
      moreover have "limit > 0 \<longrightarrow> int (length rs) \<noteq> limit" using False by auto
      ultimately show ?thesis by (auto simp: h(4))
    qed
    moreover have "length (rs @ [r]) - kept limit (length (rs @ [r])) \<le> length (numbered rs)" by (auto simp: kept_def)
    ultimately have "(if limit > 0 \<and> int (length (h_requests h)) = limit then tl (h_requests h) else h_requests h) @
        drop (length rs) (numbered (rs @ [r])) = drop (length (rs @ [r]) - kept limit (length (rs @ [r]))) (numbered (rs @ [r]))"
      by (simp add: numbered_snoc)
    moreover have "h_requests (Record r h) = (if limit > 0 \<and> int (length (h_requests h)) = limit then tl (h_requests h) else h_requests h) @
        drop (length rs) (numbered (rs @ [r]))"
      by (simp add: Record_def Let_def h(1-3) numbered_snoc)
    moreover have "h_counter (Record r h) = int (length (rs @ [r]))" "h_limit (Record r h) = limit"
      "h_appears (Record r h) = (\<lambda>p. int (length (filter (\<lambda>r. q_Proxy r = p) (rs @ [r]))))"
      by (auto simp: Record_def Let_def h(1-3))
    moreover have "fold Record (rs @ [r]) (NewHistory\<lparr>h_limit := limit\<rparr>) = Record r h" by (simp add: h_def)
    ultimately show ?case by simp
  qed
  then show "h_counter h = int (length rs)" "h_limit h = limit" "h_appears h = (\<lambda>p. int (length (filter (\<lambda>r. q_Proxy r = p) rs)))"
    "h_requests h = drop (length rs - kept limit (length rs)) (numbered rs)" by simp_all
qed

lemma find_request_consecutive:
  assumes "\<forall>j < length rs. q_ID (rs ! j) = int (d + j) + 1"
  shows "find_request i rs = (if int d < i \<and> i \<le> int (d + length rs) then rs ! nat (i - int d - 1) else zero_request)"
  using assms
proof (induction rs arbitrary: d)
  case (Cons r rs)
  have "find_request i rs = (if int (Suc d) < i \<and> i \<le> int (Suc d + length rs) then rs ! nat (i - int (Suc d) - 1) else zero_request)"
    using Cons.prems by (intro Cons.IH) force
  moreover have "q_ID r = int d + 1" using Cons.prems by force
  moreover have "(r # rs) ! nat (i - int d - 1) = rs ! nat (i - int (Suc d) - 1)" if "int (Suc d) < i"
  proof -
    have "nat (i - int d - 1) = Suc (nat (i - int (Suc d) - 1))" using that by simp
    then show ?thesis by simp
  qed
  ultimately show ?case by auto
qed auto

text \<open>
  C16. After any number of recorded requests the history holds the last \<open>limit\<close> of them (all of them without a positive limit), in
  order, numbered from one on by their arrival and with how often their proxy had appeared by then; asking for a number
  finds just the request that got it, as long as it is held.
\<close>

theorem history_window:
  defines "after \<equiv> \<lambda>limit rs. fold Record rs (NewHistory\<lparr>h_limit := limit\<rparr>)"
  shows "h_requests (after limit rs) = drop (length rs - kept limit (length rs)) (numbered rs) \<and>
    get_request i (after limit rs) =
      (if int (length rs - kept limit (length rs)) < i \<and> i \<le> int (length rs) then numbered rs ! nat (i - 1) else zero_request)"
proof -
  define d where "d = length rs - kept limit (length rs)"
  have r: "h_requests (after limit rs) = drop d (numbered rs)" by (simp add: after_def d_def Record_window)
  have le: "d \<le> length rs" by (simp add: d_def)
  have "\<forall>j < length (drop d (numbered rs)). q_ID (drop d (numbered rs) ! j) = int (d + j) + 1"
    by (auto simp: numbered_def nth_upt)
  from find_request_consecutive [OF this, of i] le
  have "get_request i (after limit rs) =
      (if int d < i \<and> i \<le> int (length rs) then drop d (numbered rs) ! nat (i - int d - 1) else zero_request)"
    by (simp add: get_request_def r)
  moreover have "drop d (numbered rs) ! nat (i - int d - 1) = numbered rs ! nat (i - 1)" if "int d < i" "i \<le> int (length rs)"
  proof -
    have "d + nat (i - int d - 1) = nat (i - 1)" using that by simp
    then show ?thesis using le by simp
  qed
  ultimately show ?thesis using r by (simp add: d_def)
qed

end
