(* ===== verification/Recording.thy ===== *)
theory Recording
  imports History Pool
begin

text \<open>
  What the pool tells the history: \<open>Pool.RoundTrip\<close> puts the serial and the attempt into headers of the request, the round
  tripper of the history takes them out again and records them.
\<close>

lemma atoi_or_zero_atoi: "atoi s = Some i \<Longrightarrow> atoi_or_zero s = i"
  by (auto simp: atoi_def atoi_or_zero_def Let_def split: option.splits if_splits)

lemma popIntHeader_set:
  assumes "0 \<le> i" and "i < 2 ^ 63"
  shows "popIntHeader k (header_set k (show_int i) h) = (header_del k h, i)"
proof -
  have "header_del k (header_set k (show_int i) h) = header_del k h" by (simp add: header_del_def header_set_def)
  moreover have "show_int i \<noteq> []" by (simp add: show_int_def)
  moreover have "atoi (show_int i) = Some i" using atoi_show [of "nat i"] assms by (simp add: show_int_def)
  ultimately show ?thesis using atoi_or_zero_atoi by (simp add: popIntHeader_def)
qed

text \<open>The request as it leaves.\<close>

definition without_marks :: "http_request \<Rightarrow> http_request" where
  "without_marks rq = rq\<lparr>RqHeader := header_del ''X-Proxy-Attempt'' (header_del ''X-Proxy-Serial'' (RqHeader rq))\<rparr>"

text \<open>
  C9. A request that the pool sends through the history leaves without the pool's marks, is answered with what the transport
  answers, and is recorded once, with the serial and the attempt that the pool gave it, the proxy of its context, and
  the status and the body of the response, or 551 with the error when there is none.
\<close>

theorem attempt_is_recorded:
  assumes "0 \<le> serial" and "serial < 2 ^ 63" and "0 \<le> attempt" and "attempt < 2 ^ 63"
    and "transport (without_marks rq) = (out, err, left)" and "\<not> (out = None \<and> err = None)"
  shows "\<exists>r. recording_RoundTrip transport ended took (with_headers serial attempt rq) h =
      Some (Record r h, case err of Some e \<Rightarrow> Inl e | None \<Rightarrow> Inr (the out)) \<and>
    q_Serial r = serial \<and> q_Attempt r = attempt \<and> q_Proxy r = GetProxyFromContext rq \<and>
    q_StatusCode r = (case out of None \<Rightarrow> 551 | Some res \<Rightarrow> StatusCode res) \<and>
    q_OutBody r = (case out of None \<Rightarrow> [] | Some res \<Rightarrow> RsBody res) \<and> q_Size r = int (length (q_OutBody r))"
proof -
  define hd where "hd = header_set ''X-Proxy-Attempt'' (show_int attempt) (header_set ''X-Proxy-Serial'' (show_int serial) (RqHeader rq))"
  have "hd = header_set ''X-Proxy-Serial'' (show_int serial) (header_set ''X-Proxy-Attempt'' (show_int attempt) (RqHeader rq))"
    by (auto simp: hd_def header_set_def)
  then have s: "popIntHeader ''X-Proxy-Serial'' hd = (header_del ''X-Proxy-Serial'' (header_set ''X-Proxy-Attempt'' (show_int attempt) (RqHeader rq)), serial)"
    using popIntHeader_set assms(1,2) by simp
  have "header_del ''X-Proxy-Serial'' (header_set ''X-Proxy-Attempt'' (show_int attempt) (RqHeader rq)) =
      header_set ''X-Proxy-Attempt'' (show_int attempt) (header_del ''X-Proxy-Serial'' (RqHeader rq))"
    by (auto simp: header_set_def header_del_def)
  then have a: "popIntHeader ''X-Proxy-Attempt'' (header_del ''X-Proxy-Serial'' (header_set ''X-Proxy-Attempt'' (show_int attempt) (RqHeader rq))) =
      (RqHeader (without_marks rq), attempt)"
    using popIntHeader_set assms(3,4) by (simp add: without_marks_def)
  have "(with_headers serial attempt rq)\<lparr>RqHeader := RqHeader (without_marks rq)\<rparr> = without_marks rq" "RqHeader (with_headers serial attempt rq) = hd"
    by (simp_all add: with_headers_def without_marks_def hd_def)
  moreover obtain body res where "outBody out err = Some (body, res)" "StatusCode res = (case out of None \<Rightarrow> 551 | Some res \<Rightarrow> StatusCode res)"
    "body = (case out of None \<Rightarrow> [] | Some res \<Rightarrow> RsBody res)" "err = None \<longrightarrow> res = the out"
    using assms(6) by (cases out; cases err) (auto simp: outBody_def)
  moreover have "GetProxyFromContext (without_marks rq) = GetProxyFromContext rq"
    by (simp add: GetProxyFromContext_def without_marks_def)
  ultimately show ?thesis
    using s a assms(5) by (auto simp: recording_RoundTrip_def Let_def split: option.splits)
qed

theorem attempt_is_recorded_witness:
  "\<exists>r. recording_RoundTrip (\<lambda>_. (None, Some \<lparr>err_text = ''refused'', err_timeout = False\<rparr>, [])) minute second
      (with_headers 213 12 (rq_in sample_request)) NewHistory =
      Some (Record r NewHistory, Inl \<lparr>err_text = ''refused'', err_timeout = False\<rparr>) \<and>
    q_Serial r = 213 \<and> q_Attempt r = 12 \<and> q_StatusCode r = 551"
  using attempt_is_recorded [of 213 12 "\<lambda>_. (None, Some \<lparr>err_text = ''refused'', err_timeout = False\<rparr>, [])" "rq_in sample_request" None
      "Some \<lparr>err_text = ''refused'', err_timeout = False\<rparr>" "[]" minute second NewHistory]
  by auto

end
