(* ===== verification/Fabric.thy ===== *)
theory Fabric
  imports Factories Config RestApi
begin

text \<open>
  The life of the program (\<open>app/fabric.go\<close>): services are configured, get their saved state back and start, in the order of
  \<open>Factories\<close>; then their heartbeats and a ticker decide which of them are saved. The files are a map from names to
  contents; the clock, the configuration, the orders of the iterations and which operations of the system fail are arguments.
\<close>

section \<open>Starting\<close>

text \<open>A singleton, by what it implements; \<open>configure\<close> gives the error.\<close>

record singleton =
  is_service :: bool
  configure :: "(config \<Rightarrow> string option) option"
  marshals :: bool
  unmarshals :: bool
  is_server :: bool

definition monitor :: singleton where
  "monitor = \<lparr>is_service = True, configure = None, marshals = False, unmarshals = False, is_server = False\<rparr>"

definition initServices :: "(string \<rightharpoonup> singleton) \<Rightarrow> string \<rightharpoonup> singleton" where
  "initServices singletons = (\<lambda>k. case singletons k of Some v \<Rightarrow> if is_service v then Some v else None | None \<Rightarrow> None)"

datatype action = Configured string | Loaded string | Started string

text \<open>The first error of a \<open>Configure\<close> ends the program.\<close>

fun configureServices :: "(string \<Rightarrow> config) \<Rightarrow> (string \<rightharpoonup> singleton) \<Rightarrow> string list \<Rightarrow> action list \<times> (string \<times> string) option" where
  "configureServices conf singletons [] = ([], None)"
| "configureServices conf singletons (s # order) =
     (case Option.bind (singletons s) configure of
        None \<Rightarrow> configureServices conf singletons order
      | Some c \<Rightarrow>
          (case c (conf s) of
             Some err \<Rightarrow> ([Configured s], Some (s, err))
           | None \<Rightarrow> (case configureServices conf singletons order of (as, e) \<Rightarrow> (Configured s # as, e))))"

definition loadState :: "(string \<rightharpoonup> singleton) \<Rightarrow> string list \<Rightarrow> action list" where
  "loadState services visited =
     map Loaded (filter (\<lambda>s. case services s of None \<Rightarrow> False | Some v \<Rightarrow> unmarshals v) visited)"

definition startAll :: "(string \<rightharpoonup> singleton) \<Rightarrow> string list \<Rightarrow> action list" where
  "startAll services initOrder = map Started (filter (\<lambda>s. services s \<noteq> None) initOrder)"

text \<open>\<open>Start\<close>, from the singletons and the order of the factories on; the monitor of the servers comes last.\<close>

definition Start :: "(string \<Rightarrow> config) \<Rightarrow> (string \<rightharpoonup> singleton) \<Rightarrow> string list \<Rightarrow> string list \<Rightarrow> action list \<times> (string \<times> string) option" where
  "Start conf singletons order visited =
     (let services = [''monitor'' \<mapsto> monitor] ++ initServices singletons;
          initOrder = order @ [''monitor''];
          (configured, err) = configureServices conf singletons initOrder
      in if err \<noteq> None then (configured, err)
         else (configured @ loadState services visited @ startAll services initOrder, None))"

text \<open>The level of the log.\<close>

datatype log_level = TraceLevel | DebugLevel | InfoLevel | WarnLevel

definition log_level :: "(string \<Rightarrow> string) \<Rightarrow> (string \<Rightarrow> config) \<Rightarrow> log_level" where
  "log_level env conf =
     (let l = to_lower (StrOr env (conf ''log'') ''level'' ''info'')
      in if l = ''trace'' then TraceLevel else if l = ''debug'' then DebugLevel else if l = ''warn'' then WarnLevel else InfoLevel)"

section \<open>Saving\<close>

record fabric =
  updated :: "string \<rightharpoonup> time"
  flushed :: "string \<Rightarrow> time"





text \<open>The answer to \<open>askStats\<close>: missing times are the zero time.\<close>

definition stats_of :: "fabric \<Rightarrow> string list \<Rightarrow> (string \<times> time \<times> time) list" where
  "stats_of f services = map (\<lambda>k. (k, case updated f k of None \<Rightarrow> 0 | Some t \<Rightarrow> t, flushed f k)) services"


section \<open>Files\<close>

text \<open>A file has all that was encoded, or not all of it (also none): decoding it fails.\<close>

datatype 'b content = Whole 'b | Torn

type_synonym 'b files = "string \<rightharpoonup> 'b content"

datatype load_error = NotExist | DecodeError

definition load_file :: "'b files \<Rightarrow> string \<Rightarrow> load_error + 'b" where
  "load_file fs file = (case fs file of None \<Rightarrow> Inl NotExist | Some Torn \<Rightarrow> Inl DecodeError | Some (Whole d) \<Rightarrow> Inr d)"

definition load :: "'b files \<Rightarrow> string \<Rightarrow> load_error + 'b" where
  "load fs db = (case load_file fs db of Inl err \<Rightarrow> load_file fs (db @ ''.bak'') | Inr d \<Rightarrow> Inr d)"

text \<open>Which operations work.\<close>

record flush_outcome =
  mkdir_ok :: bool
  rename_ok :: bool
  create_ok :: bool
  encode_ok :: bool

text \<open>The files after each operation of \<open>flush\<close>: a crash leaves one of them, its end the last.\<close>

definition flush :: "flush_outcome \<Rightarrow> string \<Rightarrow> 'b \<Rightarrow> 'b files \<Rightarrow> 'b files list" where
  "flush w db data fs =
     (if \<not> mkdir_ok w then [fs]
      else
        let renamed = (if fs db \<noteq> None \<and> rename_ok w then fs(db @ ''.bak'' := fs db, db := None) else fs)
        in if \<not> create_ok w then [fs, renamed]
           else
             let created = renamed(db \<mapsto> Torn);
                 encoded = (if encode_ok w then created(db \<mapsto> Whole data) else created)
             in [fs, renamed, created, encoded])"

section \<open>The order of the start\<close>

lemma configureServices_all:
  assumes "configureServices conf singletons order = (as, None)" and "s \<in> set order" and "singletons s = Some v" and "configure v \<noteq> None"
  shows "Configured s \<in> set as"
  using assms(1,2)
proof (induction order arbitrary: as)
  case (Cons x order)
  show ?case
  proof (cases "Option.bind (singletons x) configure")
    case None
    then have "x \<noteq> s" using assms(3,4) by auto
    then show ?thesis using Cons None by simp
  next
    case (Some c)
    then show ?thesis using Cons by (cases "c (conf x)"; cases "configureServices conf singletons order") auto
  qed
qed simp

lemma configureServices_fine:
  assumes "\<And>s c. s \<in> set order \<Longrightarrow> Option.bind (singletons s) configure = Some c \<Longrightarrow> c (conf s) = None"
  shows "snd (configureServices conf singletons order) = None"
  using assms
proof (induction order)
  case (Cons x order)
  then have "snd (configureServices conf singletons order) = None" by simp
  then show ?case using Cons.prems [of x] by (cases "Option.bind (singletons x) configure"; cases "configureServices conf singletons order") simp_all
qed simp

lemma in_turn_split:
  assumes "distinct xs" and "i < length xs" and "y \<in> set (take i xs)"
  shows "\<exists>a b c. xs = a @ y # b @ xs ! i # c"
proof -
  obtain a b where ab: "take i xs = a @ y # b" using assms(3) by (meson split_list)
  have "xs = take i xs @ xs ! i # drop (Suc i) xs" using id_take_nth_drop [OF assms(2)] .
  then show ?thesis unfolding ab by auto
qed

text \<open>
  C7. A service starts after every service that its factory takes, and only when all services have been configured and
  all saved states that are there have been loaded.
\<close>

theorem services_start_after_needs:
  assumes "iterations deps outer inner initial" and "ordered prov (inputs deps) outer inner initial = Some order"
    and "Start conf singletons order visited = (acts, None)" and "k \<in> set order" and "o' \<in> needed prov deps k"
    and "initServices singletons k \<noteq> None" and "initServices singletons o' \<noteq> None"
  shows "\<exists>a b c. acts = a @ Started o' # b @ Started k # c \<and>
    (\<forall>s \<in> set order. Option.bind (singletons s) configure \<noteq> None \<longrightarrow> Configured s \<in> set a) \<and>
    (\<forall>s \<in> set visited. (case initServices singletons s of None \<Rightarrow> False | Some v \<Rightarrow> unmarshals v) \<longrightarrow> Loaded s \<in> set a)"
proof -
  define services where "services = [''monitor'' \<mapsto> monitor] ++ initServices singletons"
  obtain configured where c: "configureServices conf singletons (order @ [''monitor'']) = (configured, None)"
    "acts = configured @ loadState services visited @ startAll services (order @ [''monitor''])"
    using assms(3) by (cases "configureServices conf singletons (order @ [''monitor''])"; cases "snd (configureServices conf singletons (order @ [''monitor'']))")
      (auto simp: Start_def Let_def services_def)
  have o: "distinct order" "\<forall>i < length order. needed prov deps (order ! i) \<subseteq> set (take i order)"
    using ordered_spec [OF assms(1), of prov] assms(2) by auto
  obtain i where i: "i < length order" "order ! i = k" using assms(4) by (auto simp: in_set_conv_nth)
  then obtain x y z where "order = x @ o' # y @ k # z" using in_turn_split [OF o(1) i(1), of o'] o(2) assms(5) by blast
  moreover have serv: "services x = initServices singletons x" if "initServices singletons x \<noteq> None" for x
    using that by (auto simp: services_def map_add_def split: option.split)
  have "services k \<noteq> None" "services o' \<noteq> None" using assms(6,7) serv by simp_all
  ultimately have started: "startAll services (order @ [''monitor'']) =
      startAll services x @ Started o' # startAll services y @ Started k # startAll services (z @ [''monitor''])"
    by (simp add: startAll_def)
  have conf: "Configured s \<in> set configured" if "s \<in> set order" "Option.bind (singletons s) configure \<noteq> None" for s
    using configureServices_all [OF c(1), of s] that by (cases "singletons s") auto
  have load: "Loaded s \<in> set (loadState services visited)"
    if "s \<in> set visited" "case initServices singletons s of None \<Rightarrow> False | Some v \<Rightarrow> unmarshals v" for s
  proof -
    note t = that
    obtain v where "initServices singletons s = Some v" "unmarshals v" using t(2) by (auto split: option.splits)
    then show ?thesis using t(1) serv [of s] by (auto simp: loadState_def)
  qed
  define a where "a = configured @ loadState services visited @ startAll services x"
  have "acts = a @ Started o' # startAll services y @ Started k # startAll services (z @ [''monitor''])"
    unfolding a_def c(2) started by simp
  moreover have "Configured s \<in> set a" if "s \<in> set order" "Option.bind (singletons s) configure \<noteq> None" for s
    using conf [OF that] by (simp add: a_def)
  moreover have "Loaded s \<in> set a"
    if "s \<in> set visited" "case initServices singletons s of None \<Rightarrow> False | Some v \<Rightarrow> unmarshals v" for s
    using load [OF that] by (simp add: a_def)
  ultimately show ?thesis by blast
qed

text \<open>A pool and its history, of which the pool has a state and the history is configured.\<close>

definition two_services :: "string \<rightharpoonup> singleton" where
  "two_services = [''pool'' \<mapsto> \<lparr>is_service = True, configure = None, marshals = True, unmarshals = True, is_server = False\<rparr>,
     ''history'' \<mapsto> \<lparr>is_service = True, configure = Some (\<lambda>_. None), marshals = False, unmarshals = False, is_server = False\<rparr>]"

theorem services_start_after_needs_witness:
  "\<exists>order a b c. ordered (provides (\<lambda>_. False) (\<lambda>_ _. False) three_deps) (inputs three_deps) (map fst three) (\<lambda>k i. map fst three)
      (map fst three) = Some order \<and>
    fst (Start (\<lambda>_. None) two_services order [''pool'']) = a @ Started ''history'' # b @ Started ''pool'' # c \<and>
    Configured ''history'' \<in> set a \<and> Loaded ''pool'' \<in> set a"
proof -
  define prov where "prov = provides (\<lambda>_. False) (\<lambda>_ _. False) three_deps"
  obtain order where o: "ordered prov (inputs three_deps) (map fst three) (\<lambda>k i. map fst three) (map fst three) = Some order"
    "set order \<subseteq> dom three_deps" "\<forall>k \<in> dom three_deps - set order. \<not> needed prov three_deps k \<subseteq> set order"
    using ordered_spec [OF three_deps(3), of prov] by (elim exE conjE, intro that)
  then have all: "set order = dom three_deps" using ordered_complete [OF o(3) three_deps(5) [folded prov_def]] by simp
  have "Option.bind (two_services s) configure = Some c \<Longrightarrow> c None = None" for s c
    by (auto simp: two_services_def split: if_splits)
  then have "snd (configureServices (\<lambda>_. None) two_services (order @ [''monitor''])) = None"
    using configureServices_fine [of "order @ [''monitor'']" two_services "\<lambda>_. None"] by blast
  then obtain configured where "configureServices (\<lambda>_. None) two_services (order @ [''monitor'']) = (configured, None)"
    by (metis prod.collapse)
  then obtain acts where acts: "Start (\<lambda>_. None) two_services order [''pool''] = (acts, None)"
    by (simp add: Start_def Let_def)
  have "''history'' \<in> needed prov three_deps ''pool''"
    by (auto simp: needed_def prov_def provides_def matches_def inputs_def three_deps_def)
  moreover have "''pool'' \<in> set order" "''history'' \<in> set order" by (simp_all add: all three_deps(2))
  moreover have services: "initServices two_services ''pool'' = two_services ''pool''"
    "initServices two_services ''history'' = two_services ''history''" by (simp_all add: initServices_def two_services_def)
  ultimately obtain a b c where "acts = a @ Started ''history'' # b @ Started ''pool'' # c"
    "\<forall>s \<in> set order. Option.bind (two_services s) configure \<noteq> None \<longrightarrow> Configured s \<in> set a"
    "\<forall>s \<in> set [''pool'']. (case initServices two_services s of None \<Rightarrow> False | Some v \<Rightarrow> unmarshals v) \<longrightarrow> Loaded s \<in> set a"
    using services_start_after_needs [OF three_deps(3) o(1) acts, of "''pool''" "''history''"]
    by (auto simp: two_services_def)
  then show ?thesis using o(1) acts \<open>''history'' \<in> set order\<close> services unfolding prov_def
    by (intro exI [of _ order] exI [of _ a] exI [of _ b] exI [of _ c]) (auto simp: two_services_def)
qed

section \<open>What is saved\<close>









text \<open>
  C19. A saved state survives a save that is cut short: if the file is whole and renaming works, whatever else fails and
  wherever the program stops, loading gives the old state or the new one; a save that works gives the new one.
\<close>

theorem interrupted_save_keeps_state:
  assumes "fs db = Some (Whole old)" and "rename_ok w" and "fs' \<in> set (flush w db data fs)"
  shows "(load fs' db = Inr old \<or> load fs' db = Inr data) \<and>
    (mkdir_ok w \<and> create_ok w \<and> encode_ok w \<longrightarrow> load (last (flush w db data fs)) db = Inr data)"
  using assms by (auto simp: flush_def load_def load_file_def Let_def split: if_splits)

definition torn_save :: flush_outcome where
  "torn_save = \<lparr>mkdir_ok = True, rename_ok = True, create_ok = True, encode_ok = False\<rparr>"

theorem interrupted_save_keeps_state_witness:
  "load (last (flush torn_save ''pool'' (2 :: nat) [''pool'' \<mapsto> Whole 1])) ''pool'' = Inr 1"
  using interrupted_save_keeps_state [of "[''pool'' \<mapsto> Whole (1 :: nat)]" "''pool''" 1 torn_save
      "last (flush torn_save ''pool'' 2 [''pool'' \<mapsto> Whole 1])" 2]
  by (simp add: torn_save_def flush_def load_def load_file_def Let_def)

text \<open>A second save that is cut short loses it: the backup is then the file that the first one left torn.\<close>

lemma second_interruption_loses_state:
  assumes "fs db = Some (Whole old)"
  shows "load (last (flush torn_save db data' (last (flush torn_save db data fs)))) db = Inl DecodeError"
  using assms by (simp add: torn_save_def flush_def load_def load_file_def Let_def)

end
