(* ===== verification/Feeds.thy ===== *)
theory Feeds
  imports Http Config
begin

text \<open>
  The machinery of the sources (\<open>sources/errors.go\<close>, \<open>sources/util.go\<close>, \<open>sources/try.go\<close>): errors with context, the request
  of a page with its retries, the search for addresses in a text, the generator that repeats a page until it succeeds, and the merge of
  generators. The HTTP client, reading a body, the IPv6 parser of \<open>netip\<close> and the random sleeps are arguments; a body is ASCII text.
\<close>

section \<open>Errors\<close>

datatype field = IntEC string int | StrEC string string

record source_error =
  se_msg :: string
  se_fields :: "field list"
  se_skip :: bool

text \<open>\<open>Canceled\<close> is an error for which \<open>errors.Is(err, context.Canceled)\<close> holds.\<close>

datatype feed_error = SourceError source_error | Canceled string | PlainError string

definition newErr :: "string \<Rightarrow> field list \<Rightarrow> source_error" where
  "newErr m ctx = \<lparr>se_msg = m, se_fields = ctx, se_skip = False\<rparr>"

definition source_error_text :: "source_error \<Rightarrow> string" where
  "source_error_text se =
     (let ctx = fold (\<lambda>v ctx. case v of
            IntEC k i \<Rightarrow> ctx @ '' '' @ k @ ''='' @ show_int i
          | StrEC k s \<Rightarrow> ctx @ '' '' @ k @ ''='' @ s) (se_fields se) (se_msg se)
      in if se_skip se then ctx @ '' (skip)'' else ctx)"

fun feed_error_text :: "feed_error \<Rightarrow> string" where
  "feed_error_text (SourceError se) = source_error_text se"
| "feed_error_text (Canceled m) = m"
| "feed_error_text (PlainError m) = m"

fun wrapError :: "feed_error \<Rightarrow> field list \<Rightarrow> source_error" where
  "wrapError (SourceError x) ctx = x\<lparr>se_fields := se_fields x @ ctx\<rparr>"
| "wrapError err ctx = newErr (feed_error_text err) ctx"

definition skipErr :: "feed_error \<Rightarrow> field list \<Rightarrow> source_error" where
  "skipErr err ctx = (wrapError err ctx)\<lparr>se_skip := True\<rparr>"

definition skipError :: "string \<Rightarrow> field list \<Rightarrow> source_error" where
  "skipError m ctx = skipErr (PlainError m) ctx"

text \<open>The proxy of an error is its first text field, whatever its key; a field that is no URL of a proxy gives 0.\<close>

fun fields_Proxy :: "(string \<Rightarrow> 8 word list option) \<Rightarrow> field list \<Rightarrow> proxy option" where
  "fields_Proxy ip6 [] = Some 0"
| "fields_Proxy ip6 (StrEC k s # fs) = NewProxyFromURL ip6 s"
| "fields_Proxy ip6 (IntEC k i # fs) = fields_Proxy ip6 fs"

definition error_Proxy :: "(string \<Rightarrow> 8 word list option) \<Rightarrow> source_error \<Rightarrow> proxy option" where
  "error_Proxy ip6 se = fields_Proxy ip6 (se_fields se)"

section \<open>Requests\<close>

record fetch_request =
  fq_URL :: string
  fq_ExpectInResponse :: string
  fq_EmptyBodyValid :: bool
  fq_SkipOnStatus :: int

text \<open>A response with its body as it can be read: the bytes up to an error, if there is one; no body is nil.\<close>

record fetched =
  ft_StatusCode :: int
  ft_Status :: string
  ft_Header :: header
  ft_Body :: "(string \<times> feed_error option) option"

text \<open>What the client answers to each attempt, counted from 1.\<close>

type_synonym client = "nat \<Rightarrow> fetched option \<times> feed_error option"

definition exhausted :: "fetched option \<Rightarrow> bool" where
  "exhausted resp = (case resp of None \<Rightarrow> False | Some r \<Rightarrow> ft_StatusCode r = 552)"

text \<open>The loop of the attempts, with how many are left, how many were made, and the seconds it slept.\<close>

fun request_loop :: "client \<Rightarrow> nat \<Rightarrow> nat \<Rightarrow> nat \<Rightarrow> (feed_error + fetched option) \<times> nat" where
  "request_loop h 0 attempt slept = (Inr None, slept)"
| "request_loop h (Suc left) attempt slept =
     (let attempt = attempt + 1; (resp, err) = h attempt
      in if exhausted resp
         then (if left = 0 then (Inr resp, slept + (attempt + 1)) else request_loop h left attempt (slept + (attempt + 1)))
         else case err of Some e \<Rightarrow> (Inl e, slept) | None \<Rightarrow> (Inr resp, slept))"

definition blockers :: "string list" where
  "blockers = [''cloudflare'', ''contentkeeper.net'']"

text \<open>What becomes of a response: the body, the serial of the pool, and the error.\<close>

definition judge :: "fetch_request \<Rightarrow> fetched \<Rightarrow> string \<times> int \<times> feed_error option" where
  "judge r resp =
     (let serial = (case atoi (header_get (ft_Header resp) ''X-Proxy-Serial'') of None \<Rightarrow> 0 | Some i \<Rightarrow> i);
          proxy = header_get (ft_Header resp) ''X-Proxy-Through'';
          fail = (\<lambda>body e. (body, serial, Some (SourceError e)))
      in case ft_Body resp of
           None \<Rightarrow> fail [] (newErr ''nil body'' [StrEC ''proxy'' proxy, IntEC ''serial'' serial, StrEC ''url'' (fq_URL r)])
         | Some (body, err) \<Rightarrow>
             (case find (str_contains (to_lower body)) (if body \<noteq> [] then blockers else []) of
                Some v \<Rightarrow> fail [] (newErr ''found blocker'' [StrEC ''proxy'' proxy, IntEC ''serial'' serial, StrEC ''marker'' v])
              | None \<Rightarrow>
                  if fq_SkipOnStatus r > 0 \<and> ft_StatusCode resp = fq_SkipOnStatus r
                  then fail [] (skipError ''skip status'' [IntEC ''serial'' serial, IntEC ''statusCode'' (ft_StatusCode resp)])
                  else if ft_StatusCode resp \<ge> 400
                  then fail [] (newErr ''error status'' [IntEC ''serial'' serial, StrEC ''proxy'' proxy,
                      IntEC ''code'' (ft_StatusCode resp), StrEC ''status'' (ft_Status resp)])
                  else if body = [] \<and> \<not> fq_EmptyBodyValid r
                  then fail [] (newErr ''empty body'' [StrEC ''proxy'' proxy, IntEC ''serial'' serial])
                  else if fq_ExpectInResponse r \<noteq> [] \<and> \<not> str_contains body (fq_ExpectInResponse r)
                  then fail body (newErr ''invalid response'' [IntEC ''serial'' serial, StrEC ''proxy'' proxy,
                      StrEC ''expect'' (fq_ExpectInResponse r)])
                  else (body, serial, err)))"

text \<open>
  \<open>req.Do\<close>: without a client it is skipped, and \<open>None\<close> is the panic on a client that gives neither a response nor an error.
\<close>

definition Do :: "fetch_request \<Rightarrow> client option \<Rightarrow> (string \<times> int \<times> feed_error option) option" where
  "Do r client =
     (case client of
        None \<Rightarrow> Some ([], 0, Some (SourceError (skipError ''no http client'' [])))
      | Some h \<Rightarrow>
          (case fst (request_loop h 3 0 0) of
             Inl err \<Rightarrow> Some ([], 0, Some err)
           | Inr None \<Rightarrow> None
           | Inr (Some resp) \<Rightarrow> Some (judge r resp)))"

section \<open>Addresses in a text\<close>

text \<open>\<open>\d{1,n}\<close>, greedy: the digits at the beginning, \<open>n\<close> at most, and the rest.\<close>

fun take_digits :: "nat \<Rightarrow> string \<Rightarrow> string \<times> string" where
  "take_digits 0 s = ([], s)"
| "take_digits (Suc n) [] = ([], [])"
| "take_digits (Suc n) (c # cs) =
     (if char_digit c = None then ([], c # cs) else case take_digits n cs of (d, r) \<Rightarrow> (c # d, r))"

definition match_group :: "char \<Rightarrow> string \<Rightarrow> (string \<times> string) option" where
  "match_group sep s =
     (case take_digits 3 s of (d, r) \<Rightarrow> if d \<noteq> [] \<and> r \<noteq> [] \<and> hd r = sep then Some (d @ [sep], tl r) else None)"

text \<open>
  \<open>ipPortRegex\<close> at the beginning of a text. As a group is followed by a character that is no digit, it has one length only, so there is
  nothing to backtrack.
\<close>

definition match_addr :: "string \<Rightarrow> (string \<times> string) option" where
  "match_addr s =
     (case match_group CHR ''.'' s of None \<Rightarrow> None | Some (a, s) \<Rightarrow>
     (case match_group CHR ''.'' s of None \<Rightarrow> None | Some (b, s) \<Rightarrow>
     (case match_group CHR ''.'' s of None \<Rightarrow> None | Some (c, s) \<Rightarrow>
     (case match_group CHR '':'' s of None \<Rightarrow> None | Some (d, s) \<Rightarrow>
     (case take_digits 5 s of (port, s) \<Rightarrow> if length port < 2 then None else Some (a @ b @ c @ d @ port, s))))))"

lemma take_digits_append: "take_digits n s = (d, r) \<Longrightarrow> s = d @ r"
  by (induction n s arbitrary: d r rule: take_digits.induct) (auto split: if_splits prod.splits)

lemma match_group_length: "match_group sep s = Some (d, r) \<Longrightarrow> s = d @ r \<and> d \<noteq> []"
  by (auto simp: match_group_def neq_Nil_conv dest!: take_digits_append split: prod.splits if_splits)

lemma match_addr_append: "match_addr s = Some (m, r) \<Longrightarrow> s = m @ r \<and> m \<noteq> []"
  by (auto simp: match_addr_def dest!: take_digits_append match_group_length split: prod.splits option.splits if_splits)

text \<open>\<open>FindAll\<close>: the matches from the left, which do not overlap.\<close>

function find_addrs :: "string \<Rightarrow> string list" where
  "find_addrs s =
     (case match_addr s of
        Some (m, r) \<Rightarrow> m # find_addrs r
      | None \<Rightarrow> (case s of [] \<Rightarrow> [] | c # cs \<Rightarrow> find_addrs cs))"
  by pat_completeness auto
termination
  by (relation "measure length") (auto dest: match_addr_append)

declare find_addrs.simps [simp del]

text \<open>The callback makes a proxy of an address; \<open>None\<close> is a panic of it.\<close>

definition extractProxies :: "(string \<Rightarrow> proxy option) \<Rightarrow> string \<Rightarrow> proxy list option" where
  "extractProxies cb body = those (map cb (find_addrs body))"

section \<open>Generators\<close>

record signal =
  sg_Proxy :: proxy
  sg_Add :: bool
  sg_Err :: string

text \<open>
  What one call of the page's function does: it panics, or returns proxies and an error. \<open>newRegexPage\<close> and \<open>regexFeed\<close> make such a
  function of the request of a page.
\<close>

datatype call = Panicked | Returned "proxy list" "feed_error option"

definition newRegexPage :: "client option \<Rightarrow> string \<Rightarrow> string \<Rightarrow> (string \<Rightarrow> proxy option) \<Rightarrow> call" where
  "newRegexPage h url expect cb =
     (case Do \<lparr>fq_URL = url, fq_ExpectInResponse = expect, fq_EmptyBodyValid = False, fq_SkipOnStatus = 0\<rparr> h of
        None \<Rightarrow> Panicked
      | Some (body, serial, Some err) \<Rightarrow> Returned [] (Some err)
      | Some (body, serial, None) \<Rightarrow> (case extractProxies cb body of None \<Rightarrow> Panicked | Some found \<Rightarrow> Returned found None))"

definition regexFeed :: "(string \<Rightarrow> 8 word list option) \<Rightarrow> client option \<Rightarrow> string \<Rightarrow> string \<Rightarrow> string \<Rightarrow> call" where
  "regexFeed ip6 h url proto expect = newRegexPage h url expect (\<lambda>proxy. NewProxy ip6 proxy proto)"

record generator =
  gn_err :: "feed_error option"
  gn_len :: int

text \<open>The wait before the next call: until \<open>next\<close>, or as long as the last time when that is past.\<close>

definition retry_wait :: "time \<Rightarrow> time \<Rightarrow> duration \<Rightarrow> duration" where
  "retry_wait now next delay = (if next > now then time_sub next now else delay)"

text \<open>
  \<open>generate\<close> over the calls that are made until its context ends: the signals it sends, its state, and whether it is done. An
  error that is not final is followed by another call. A context that ends while the proxies are sent cuts the signals short.
\<close>

fun generate :: "(string \<Rightarrow> 8 word list option) \<Rightarrow> call list \<Rightarrow> generator \<Rightarrow> signal list \<times> generator \<times> bool" where
  "generate ip6 [] g = ([], g, False)"
| "generate ip6 (Panicked # calls) g = ([], g, True)"
| "generate ip6 (Returned proxies err # calls) g =
     (let g = g\<lparr>gn_err := err\<rparr>
      in case err of
           Some (Canceled m) \<Rightarrow> ([], g, True)
         | Some (SourceError se) \<Rightarrow>
             if se_skip se then ([], g, True)
             else (case error_Proxy ip6 se of
                 None \<Rightarrow> ([], g, True)
               | Some proxy \<Rightarrow>
                   (case generate ip6 calls g of
                      (out, g, done) \<Rightarrow>
                        ((if proxy \<noteq> 0 then [\<lparr>sg_Proxy = proxy, sg_Add = False, sg_Err = se_msg se\<rparr>] else []) @ out, g, done)))
         | Some (PlainError m) \<Rightarrow> generate ip6 calls g
         | None \<Rightarrow>
             (map (\<lambda>proxy. \<lparr>sg_Proxy = proxy, sg_Add = True, sg_Err = []\<rparr>) proxies, g\<lparr>gn_len := int (length proxies)\<rparr>, True))"

section \<open>Merged generators\<close>

text \<open>The goroutines of the merge forward the signals of their sources one by one, in any order.\<close>

inductive interleaves :: "'a list list \<Rightarrow> 'a list \<Rightarrow> bool" where
  finish: "\<forall>s \<in> set srcs. s = [] \<Longrightarrow> interleaves srcs []"
| forward: "i < length srcs \<Longrightarrow> srcs ! i = x # xs \<Longrightarrow> interleaves (srcs[i := xs]) out \<Longrightarrow> interleaves srcs (x # out)"

definition merge_Len :: "generator list \<Rightarrow> int" where
  "merge_Len srcs = (\<Sum>src \<leftarrow> srcs. if gn_len src = 0 then 1 else gn_len src)"

fun merge_Err :: "generator list \<Rightarrow> feed_error option" where
  "merge_Err [] = None"
| "merge_Err (src # srcs) = (case gn_err src of Some e \<Rightarrow> Some e | None \<Rightarrow> merge_Err srcs)"

section \<open>What a page gives\<close>

lemma request_loop_answer:
  "request_loop h left attempt slept = (Inr (Some resp), t) \<Longrightarrow>
     \<exists>k. attempt < k \<and> k \<le> attempt + left \<and> fst (h k) = Some resp \<and> (\<forall>j. attempt < j \<and> j < k \<longrightarrow> exhausted (fst (h j))) \<and>
       (ft_StatusCode resp \<noteq> 552 \<longrightarrow> snd (h k) = None)"
proof (induction h left attempt slept rule: request_loop.induct)
  case (2 h left attempt slept)
  obtain resp' err where h: "h (attempt + 1) = (resp', err)" by fastforce
  show ?case
  proof (cases "exhausted resp' \<and> left \<noteq> 0")
    case True
    then have "request_loop h left (attempt + 1) (slept + (attempt + 1 + 1)) = (Inr (Some resp), t)"
      using "2.prems" h by (simp add: Let_def)
    with "2.IH" [OF refl h [symmetric] refl] True obtain k where k: "attempt + 1 < k" "k \<le> attempt + 1 + left" "fst (h k) = Some resp"
      "\<forall>j. attempt + 1 < j \<and> j < k \<longrightarrow> exhausted (fst (h j))" "ft_StatusCode resp \<noteq> 552 \<longrightarrow> snd (h k) = None"
      by auto
    have "exhausted (fst (h j))" if "attempt < j" "j < k" for j
      using that k(4) h True by (cases "j = attempt + 1") auto
    with k show ?thesis by (intro exI [of _ k]) auto
  next
    case False
    with "2.prems" h have "resp' = Some resp" "ft_StatusCode resp \<noteq> 552 \<longrightarrow> err = None"
      by (auto simp: Let_def exhausted_def split: if_splits option.splits)
    with h show ?thesis by (intro exI [of _ "attempt + 1"]) auto
  qed
qed simp






lemma judge_good:
  assumes "judge r resp = (body, serial, None)"
  shows "ft_Body resp = Some (body, None)" "ft_StatusCode resp < 400"
    "\<not> (fq_SkipOnStatus r > 0 \<and> ft_StatusCode resp = fq_SkipOnStatus r)"
    "body \<noteq> [] \<or> fq_EmptyBodyValid r" "fq_ExpectInResponse r = [] \<or> str_contains body (fq_ExpectInResponse r)"
    "find (str_contains (to_lower body)) (if body \<noteq> [] then blockers else []) = None"
  using assms by (simp_all add: judge_def Let_def split: option.splits prod.splits if_splits)

text \<open>
  C24. A page that is fetched without an error is a good one: it is the answer to the first of at most three attempts that did not find
  the pool exhausted, read to its end, with a status below 400 that is not the one to skip, without the marks of a blocker, with the expected text, and not
  empty unless that is allowed.
\<close>

theorem fetched_page_is_good:
  assumes "Do r (Some h) = Some (body, serial, None)"
  shows "\<exists>k resp. 1 \<le> k \<and> k \<le> 3 \<and> h k = (Some resp, None) \<and> (\<forall>j. 1 \<le> j \<and> j < k \<longrightarrow> exhausted (fst (h j))) \<and>
    ft_Body resp = Some (body, None) \<and> ft_StatusCode resp < 400 \<and>
    \<not> (fq_SkipOnStatus r > 0 \<and> ft_StatusCode resp = fq_SkipOnStatus r) \<and>
    (\<forall>v \<in> set blockers. \<not> str_contains (to_lower body) v) \<and> str_contains body (fq_ExpectInResponse r) \<and>
    (body \<noteq> [] \<or> fq_EmptyBodyValid r)"
proof -
  obtain resp where resp: "fst (request_loop h 3 0 0) = Inr (Some resp)"
    using assms by (auto simp: Do_def split: sum.splits option.splits)
  then obtain t where "request_loop h 3 0 0 = (Inr (Some resp), t)" by (metis prod.collapse)
  from request_loop_answer [OF this] obtain k where k: "0 < k" "k \<le> 3" "fst (h k) = Some resp"
    "\<forall>j. 0 < j \<and> j < k \<longrightarrow> exhausted (fst (h j))" "ft_StatusCode resp \<noteq> 552 \<longrightarrow> snd (h k) = None"
    by auto
  have "judge r resp = (body, serial, None)" using assms resp by (simp add: Do_def)
  note good = judge_good [OF this]
  have "str_contains body []" by (cases body) simp_all
  moreover have "\<forall>v \<in> set blockers. \<not> str_contains (to_lower body) v"
  proof (cases "body = []")
    case True
    then show ?thesis by (simp add: to_lower_def blockers_def)
  next
    case False
    with good(6) show ?thesis by (simp add: find_None_iff)
  qed
  moreover have "h k = (Some resp, None)" using k(3,5) good(2) by (cases "h k") simp
  ultimately show ?thesis using k(1,2,4) good(1-5) by (intro exI [of _ k] exI [of _ resp]) auto
qed

definition second_time :: client where
  "second_time = (\<lambda>k. if k = 1 then (Some \<lparr>ft_StatusCode = 552, ft_Status = [], ft_Header = Map.empty, ft_Body = None\<rparr>, None)
     else (Some \<lparr>ft_StatusCode = 200, ft_Status = [], ft_Header = Map.empty, ft_Body = Some (''Proxy list'', None)\<rparr>, None))"

theorem fetched_page_is_good_witness:
  "Do \<lparr>fq_URL = [], fq_ExpectInResponse = ''list'', fq_EmptyBodyValid = False, fq_SkipOnStatus = 0\<rparr> (Some second_time) =
     Some (''Proxy list'', 0, None) \<and> str_contains ''Proxy list'' ''list''"
proof -
  have "Do \<lparr>fq_URL = [], fq_ExpectInResponse = ''list'', fq_EmptyBodyValid = False, fq_SkipOnStatus = 0\<rparr> (Some second_time) =
      Some (''Proxy list'', 0, None)"
    by code_simp
  with fetched_page_is_good [OF this] show ?thesis by auto
qed

section \<open>Lists of addresses\<close>

lemma take_digits_all:
  "\<forall>c \<in> set ds. char_digit c \<noteq> None \<Longrightarrow> length ds \<le> n \<Longrightarrow> r = [] \<or> char_digit (hd r) = None \<Longrightarrow> take_digits n (ds @ r) = (ds, r)"
proof (induction ds arbitrary: n)
  case Nil
  then show ?case by (cases n; cases r) auto
next
  case (Cons d ds)
  then show ?case by (cases n) auto
qed

lemma show_nat_digit: "c \<in> set (show_nat n) \<Longrightarrow> char_digit c \<noteq> None"
  using show_nat_digits by fastforce

lemma length_show_nat: "n < 10 ^ Suc k \<Longrightarrow> length (show_nat n) \<le> Suc k"
proof (induction k arbitrary: n)
  case 0
  then show ?case by (simp add: show_nat.simps [of n])
next
  case (Suc k)
  then have "n div 10 < 10 ^ Suc k" by (simp add: less_mult_imp_div_less)
  with Suc.IH show ?case by (simp add: show_nat.simps [of n])
qed

lemma show_nat_two: "10 \<le> n \<Longrightarrow> 2 \<le> length (show_nat n)"
  using show_nat_nonempty [of "n div 10"] by (cases "show_nat (n div 10)") (simp_all add: show_nat.simps [of n])

lemma match_group_show:
  assumes "n < 1000" and "char_digit sep = None"
  shows "match_group sep (show_nat n @ sep # r) = Some (show_nat n @ [sep], r)"
proof -
  have "take_digits 3 (show_nat n @ sep # r) = (show_nat n, sep # r)"
    using assms length_show_nat [of n 2] show_nat_digit by (intro take_digits_all) auto
  then show ?thesis by (simp add: match_group_def)
qed

lemma match_addr_Address:
  assumes "10 \<le> unat (Port p)" and "r = [] \<or> char_digit (hd r) = None"
  shows "match_addr (Address p @ r) = Some (Address p, r)"
proof -
  obtain a b c d where ip: "IP p = [a, b, c, d]" by (rule IP_bytes)
  have small: "unat (w :: 8 word) < 1000" for w using unsigned_less [of w, where ?'a = nat] by simp
  have "unat (Port p) < 10 ^ Suc 4" using unsigned_less [of "Port p", where ?'a = nat] by simp
  from length_show_nat [OF this] have "take_digits 5 (show_nat (unat (Port p)) @ r) = (show_nat (unat (Port p)), r)"
    using assms(2) show_nat_digit by (intro take_digits_all) auto
  then show ?thesis
    using show_nat_two [OF assms(1)]
    by (simp add: Address_dotted ip dotted_def match_addr_def match_group_show small)
qed

lemma match_addr_skip: "char_digit c = None \<Longrightarrow> match_addr (c # cs) = None"
  by (simp add: match_addr_def match_group_def numeral_3_eq_3)

lemma find_addrs_skip: "\<forall>c \<in> set pre. char_digit c = None \<Longrightarrow> find_addrs (pre @ s) = find_addrs s"
proof (induction pre)
  case (Cons c pre)
  then show ?case by (subst find_addrs.simps) (simp add: match_addr_skip)
qed simp

text \<open>A text with addresses in it, each after something that has no digits.\<close>

definition listing :: "(string \<times> proxy) list \<Rightarrow> string \<Rightarrow> string" where
  "listing xs post = concat (map (\<lambda>(pre, p). pre @ Address p) xs) @ post"

definition apart :: "(string \<times> proxy) list \<Rightarrow> string \<Rightarrow> bool" where
  "apart xs post \<longleftrightarrow> (\<forall>c \<in> set post. char_digit c = None) \<and>
     (\<forall>(pre, p) \<in> set xs. (\<forall>c \<in> set pre. char_digit c = None) \<and> 10 \<le> unat (Port p)) \<and> (\<forall>(pre, p) \<in> set (tl xs). pre \<noteq> [])"

lemma find_addrs_listing: "apart xs post \<Longrightarrow> find_addrs (listing xs post) = map (\<lambda>(pre, p). Address p) xs"
proof (induction xs)
  case Nil
  then show ?case
    using find_addrs_skip [of post "[]"] by (simp add: listing_def apart_def find_addrs.simps [of "[]"] match_addr_def match_group_def numeral_3_eq_3)
next
  case (Cons x xs)
  obtain pre p where x: "x = (pre, p)" by fastforce
  have after: "listing xs post = [] \<or> char_digit (hd (listing xs post)) = None"
  proof (cases xs)
    case Nil
    then show ?thesis using Cons.prems by (cases post) (auto simp: listing_def apart_def)
  next
    case (Cons y ys)
    then show ?thesis using \<open>apart (x # xs) post\<close> by (cases "fst y") (auto simp: listing_def apart_def split: prod.splits)
  qed
  have "apart xs post" using Cons.prems by (cases xs) (auto simp: apart_def)
  with Cons.IH have IH: "find_addrs (listing xs post) = map (\<lambda>(pre, p). Address p) xs" by blast
  have "listing (x # xs) post = pre @ Address p @ listing xs post" by (simp add: listing_def x)
  moreover have "find_addrs (pre @ Address p @ listing xs post) = find_addrs (Address p @ listing xs post)"
    using Cons.prems x by (intro find_addrs_skip) (auto simp: apart_def)
  moreover have "match_addr (Address p @ listing xs post) = Some (Address p, listing xs post)"
    using Cons.prems x after by (intro match_addr_Address) (auto simp: apart_def)
  then have "find_addrs (Address p @ listing xs post) = Address p # find_addrs (listing xs post)"
    by (subst find_addrs.simps) simp
  ultimately show ?case by (simp add: IH x)
qed

lemma those_map_Some: "(\<And>x. x \<in> set xs \<Longrightarrow> f x = Some (g x)) \<Longrightarrow> those (map f xs) = Some (map g xs)"
  by (induction xs) auto

text \<open>
  A page that lists proxies by their addresses, with anything without digits between them, gives all of them in their order with the protocol
  of the page; so whatever \<open>String\<close> prints is read back.
\<close>

theorem listed_proxies_found:
  assumes "apart xs post" and "protoMap t = Some pr" and "\<forall>(pre, p) \<in> set xs. Proto p = pr"
    and "Do \<lparr>fq_URL = url, fq_ExpectInResponse = expect, fq_EmptyBodyValid = False, fq_SkipOnStatus = 0\<rparr> h = Some (listing xs post, serial, None)"
  shows "regexFeed ip6 h url t expect = Returned (map snd xs) None"
proof -
  have "NewProxy ip6 (Address p) t = Some p" if "(pre, p) \<in> set xs" for pre p
    using NewProxy_Address [OF assms(2)] assms(3) that pack_fields [of p] by fastforce
  then have "extractProxies (\<lambda>proxy. NewProxy ip6 proxy t) (listing xs post) = Some (map snd xs)"
    using those_map_Some [of xs "\<lambda>x. NewProxy ip6 (Address (snd x)) t" snd]
    by (auto simp: extractProxies_def find_addrs_listing [OF assms(1)] comp_def split_beta)
  then show ?thesis by (simp add: regexFeed_def newRegexPage_def assms(4))
qed

theorem listed_proxies_found_witness:
  "regexFeed (\<lambda>_. None) (Some (\<lambda>_. (Some \<lparr>ft_StatusCode = 200, ft_Status = [], ft_Header = Map.empty,
       ft_Body = Some (''all: '' @ Address 0x7F0000010BB80003 @ '' and '' @ Address 0x0A00000100500003 @ ''.'', None)\<rparr>, None))) [] ''socks5'' ''all'' =
     Returned [0x7F0000010BB80003, 0x0A00000100500003] None"
proof -
  let ?xs = "[(''all: '', 0x7F0000010BB80003), ('' and '', 0x0A00000100500003)]"
  have a: "apart ?xs ''.''" by code_simp
  have t: "protoMap ''socks5'' = Some SOCKS5" by code_simp
  have p: "\<forall>(pre, p) \<in> set ?xs. Proto p = SOCKS5" by code_simp
  have d: "Do \<lparr>fq_URL = [], fq_ExpectInResponse = ''all'', fq_EmptyBodyValid = False, fq_SkipOnStatus = 0\<rparr>
      (Some (\<lambda>_. (Some \<lparr>ft_StatusCode = 200, ft_Status = [], ft_Header = Map.empty,
       ft_Body = Some (''all: '' @ Address 0x7F0000010BB80003 @ '' and '' @ Address 0x0A00000100500003 @ ''.'', None)\<rparr>, None))) =
      Some (listing ?xs ''.'', 0, None)"
    by code_simp
  from listed_proxies_found [OF a t p d] show ?thesis by simp
qed

end
