(* ===== verification/Refresher.thy ===== *)
theory Refresher
  imports Stats Sources Feeds RestApi Sorter
begin

text \<open>
  The scheduling of the sources (\<open>refresher/refresher.go\<close>): an actor starts the sources that are due, at the user's request
  too, and follows their progress; each run is a goroutine that feeds the probe. The feeds, the clock and the
  statistics are arguments. A snapshot has the statuses as they are then; the code shares them with the reader.
\<close>

section \<open>The status of a run\<close>

record status =
  st_Delay :: duration
  st_Started :: time
  st_Adds :: "time list"
  st_Added :: int
  st_Len :: int

definition new_status :: status where
  "new_status = \<lparr>st_Delay = 0, st_Started = 0, st_Adds = replicate 15 0, st_Added = 0, st_Len = 0\<rparr>"

definition status_Progress :: "status \<Rightarrow> int" where
  "status_Progress s = (if st_Len s = 0 then 0 else percent (st_Added s) (st_Len s))"

text \<open>The loop over the pairs of times that follow each other: the last one, the sum of the gaps, and their number.\<close>

fun measure_adds :: "time list \<Rightarrow> time \<times> duration \<times> int \<Rightarrow> time \<times> duration \<times> int" where
  "measure_adds (a # b # rest) (maxTime, totalDur, gaps) =
     (if a > b \<or> a = b then measure_adds (b # rest) (maxTime, totalDur, gaps)
      else measure_adds (b # rest) (if b > maxTime then b else maxTime, wrap64 (totalDur + time_sub b a), gaps + 1))"
| "measure_adds adds m = m"

definition EstFinish :: "time \<Rightarrow> int \<Rightarrow> status \<Rightarrow> time" where
  "EstFinish now queued s =
     (case measure_adds (st_Adds s) (0, 0, 0) of (maxTime, totalDur, gaps) \<Rightarrow>
        let durPerItem = (if st_Added s > 0 \<and> gaps > 0
              then wrap64 (totalDur sdiv gaps + time_sub now (st_Started s) sdiv st_Added s) sdiv 2
              else 0);
            remaining = queued + st_Len s - st_Added s;
            padding = time_sub now maxTime
        in now + wrap64 (durPerItem * remaining) + padding)"

section \<open>The actor\<close>

text \<open>
  A run of a source is numbered by when it was started. \<open>active\<close> is the map of the tasks, by source; cancelling a task ends
  the context of its run.
\<close>

record refresher =
  plan_of :: "int \<rightharpoonup> status"
  active :: "(int \<times> nat) list"
  next_check :: "time option"
  enabled :: bool
  maxScheduled :: int
  fresh_run :: nat

definition NewRefresher :: refresher where
  "NewRefresher = \<lparr>plan_of = Map.empty, active = [], next_check = None, enabled = True, maxScheduled = 5, fresh_run = 0\<rparr>"

definition Configure :: "config \<Rightarrow> refresher \<Rightarrow> refresher" where
  "Configure c r = r\<lparr>enabled := BoolOr c ''enabled'' True, maxScheduled := IntOr c ''max_scheduled'' 5\<rparr>"

text \<open>What the actor does to the outside.\<close>

datatype spawned = Spawned nat source bool | Cancelled nat

definition start :: "(string \<Rightarrow> string option) \<Rightarrow> source \<Rightarrow> refresher \<Rightarrow> refresher \<times> string option \<times> spawned list" where
  "start host s r =
     (if map_of (active r) (src_ID s) \<noteq> None then (r, Some (''source '' @ Name host s @ '' is running''), [])
      else (let seed = Seed s
            in (r\<lparr>active := active r @ [(src_ID s, fresh_run r)], fresh_run := fresh_run r + 1\<rparr>, None,
                [Spawned (fresh_run r) s (\<not> seed)])))"

definition stop :: "(string \<Rightarrow> string option) \<Rightarrow> source \<Rightarrow> refresher \<Rightarrow> refresher \<times> string option \<times> spawned list" where
  "stop host s r =
     (case map_of (active r) (src_ID s) of
        None \<Rightarrow> (r, Some (''source '' @ Name host s @ '' was not running''), [])
      | Some run \<Rightarrow> (r\<lparr>active := filter (\<lambda>(i, _). i \<noteq> src_ID s) (active r)\<rparr>, None, [Cancelled run]))"

definition handleReq :: "(string \<Rightarrow> string option) \<Rightarrow> source list \<Rightarrow> string \<Rightarrow> string \<Rightarrow> refresher
    \<Rightarrow> refresher \<times> string option \<times> spawned list" where
  "handleReq host srcs name cmd r =
     (let s = ByName host srcs name
      in if Name host s = ''unknown'' then (r, Some (''invalid source '' @ [CHR 0x27] @ name @ [CHR 0x27]), [])
         else if cmd = ''start'' then start host s r
         else if cmd = ''stop'' then stop host s r
         else (r, Some (''invalid command: '' @ cmd), []))"

text \<open>A message of \<open>progress\<close>; the times are those of the two calls of the clock.\<close>

definition handleProgress :: "time \<Rightarrow> time \<Rightarrow> int \<Rightarrow> int \<Rightarrow> refresher \<Rightarrow> refresher" where
  "handleProgress now now' source len r =
     (let s = (case plan_of r source of None \<Rightarrow> new_status | Some s \<Rightarrow> s);
          s = (if len = 0 then s\<lparr>st_Started := now, st_Adds := replicate 15 0, st_Added := 0\<rparr> else s);
          s = s\<lparr>st_Len := len\<rparr>;
          s = s\<lparr>st_Adds := (st_Adds s)[nat (st_Added s mod int (length (st_Adds s))) := now']\<rparr>;
          s = s\<lparr>st_Added := st_Added s + 1\<rparr>
      in r\<lparr>plan_of := (plan_of r)(source \<mapsto> s)\<rparr>)"

text \<open>A message of \<open>finish\<close>: the task of the source goes, whichever run it is of.\<close>

definition handleFinish :: "int \<Rightarrow> refresher \<Rightarrow> refresher" where
  "handleFinish source r =
     (let r = (case plan_of r source of None \<Rightarrow> r
                | Some s \<Rightarrow> r\<lparr>plan_of := (plan_of r)(source \<mapsto> s\<lparr>st_Added := 0, st_Len := 0\<rparr>)\<rparr>)
      in r\<lparr>active := filter (\<lambda>(i, _). i \<noteq> source) (active r)\<rparr>)"

definition refreshDelay :: duration where
  "refreshDelay = 1 * minute"

text \<open>When a source is due next; what has no statistics was never updated.\<close>

definition next_update :: "time \<Rightarrow> stats \<Rightarrow> source \<Rightarrow> time" where
  "next_update trigger snapshot s =
     (case snapshot (src_ID s) of
        None \<Rightarrow> 0 + Frequency s
      | Some v \<Rightarrow> if State v = Failed then trigger + refreshDelay else Updated v + Frequency s)"

text \<open>\<open>checkSources\<close>: the loop over the sources. The next trigger it also computes is not used.\<close>

fun check_sources :: "(string \<Rightarrow> string option) \<Rightarrow> time \<Rightarrow> stats \<Rightarrow> source list \<Rightarrow> refresher \<Rightarrow> refresher \<times> spawned list" where
  "check_sources host trigger snapshot [] r = (r, [])"
| "check_sources host trigger snapshot (s # ss) r =
     (if int (length (active r)) > maxScheduled r then (r, [])
      else if \<not> has_feed s then check_sources host trigger snapshot ss r
      else if IsRunning snapshot (src_ID s) then check_sources host trigger snapshot ss r
      else
        let next = next_update trigger snapshot s
        in if next > trigger
           then (let st = (case plan_of r (src_ID s) of None \<Rightarrow> new_status | Some st \<Rightarrow> st)
                 in check_sources host trigger snapshot ss
                      (r\<lparr>plan_of := (plan_of r)(src_ID s \<mapsto> st\<lparr>st_Delay := time_sub next trigger\<rparr>)\<rparr>))
           else (case start host s r of (r, _, out) \<Rightarrow>
                   (case check_sources host trigger snapshot ss r of (r, outs) \<Rightarrow> (r, out @ outs))))"

definition checkSources :: "(string \<Rightarrow> string option) \<Rightarrow> time \<Rightarrow> stats \<Rightarrow> source list \<Rightarrow> refresher \<Rightarrow> (refresher \<times> spawned list) \<times> time" where
  "checkSources host trigger snapshot srcs r = (check_sources host trigger snapshot srcs r, trigger + 1 * minute)"

text \<open>
  The head of the loop: how long the timer of this round waits, from the delay of the round before; and the body for when
  it fires.
\<close>

definition timer :: "time \<Rightarrow> duration \<Rightarrow> refresher \<Rightarrow> time \<times> duration" where
  "timer now delay r =
     (let next = (case next_check r of None \<Rightarrow> now | Some t \<Rightarrow> t)
      in (next, if next > now then time_sub next now else delay))"

definition fired :: "(string \<Rightarrow> string option) \<Rightarrow> stats \<Rightarrow> source list \<Rightarrow> time \<Rightarrow> refresher \<Rightarrow> refresher \<times> spawned list" where
  "fired host snapshot srcs next r =
     (if \<not> enabled r then (r, [])
      else (case checkSources host next snapshot srcs r of ((r, outs), next) \<Rightarrow> (r\<lparr>next_check := Some next\<rparr>, outs)))"

section \<open>The list of what comes\<close>

record upcoming =
  up_Source :: int
  up_Delay :: duration
  up_Frequency :: duration

definition upcoming_of :: "time \<Rightarrow> time \<Rightarrow> stats \<Rightarrow> source \<Rightarrow> upcoming list" where
  "upcoming_of now next snapshot s =
     (if \<not> has_feed s then []
      else case snapshot (src_ID s) of
             None \<Rightarrow> [\<lparr>up_Source = src_ID s, up_Delay = 0, up_Frequency = Frequency s\<rparr>]
           | Some v \<Rightarrow>
               if State v = Running then []
               else (let nextUpdate = (if State v = Failed then next else Updated v + Frequency s);
                         until = time_sub nextUpdate now
                     in [\<lparr>up_Source = src_ID s, up_Delay = (if until < 0 then 0 else until), up_Frequency = Frequency s\<rparr>]))"

definition upcoming_list :: "((upcoming \<Rightarrow> upcoming \<Rightarrow> bool) \<Rightarrow> upcoming list \<Rightarrow> upcoming list) \<Rightarrow> time \<Rightarrow> stats \<Rightarrow> source list
    \<Rightarrow> refresher \<Rightarrow> upcoming list" where
  "upcoming_list srt now snapshot srcs r =
     (let next = (case next_check r of None \<Rightarrow> now | Some t \<Rightarrow> t)
      in srt (\<lambda>a b. up_Delay a < up_Delay b) (concat (map (upcoming_of now next snapshot) srcs)))"

section \<open>A run\<close>

datatype effect =
    TakesSession
  | LaunchStat int
  | ProgressMsg int int
  | ForgetProxy proxy string
  | ScheduleProxy proxy int
  | FinishStat int "string option"
  | FinishMsg int "string option"

text \<open>What a run does, in order; the feed gives the signals with its length after each, and its error at the end.\<close>

fun follow :: "int \<Rightarrow> (signal \<times> int) list \<Rightarrow> effect list" where
  "follow i [] = []"
| "follow i ((s, len) # ss) =
     (if \<not> sg_Add s then ForgetProxy (sg_Proxy s) (sg_Err s) # follow i ss
      else ScheduleProxy (sg_Proxy s) i # ProgressMsg i len # follow i ss)"

definition refresh :: "source \<Rightarrow> (signal \<times> int) list \<Rightarrow> string option \<Rightarrow> effect list" where
  "refresh s signals err =
     (if Session s then [TakesSession] else []) @ [LaunchStat (src_ID s), ProgressMsg (src_ID s) 0] @
     follow (src_ID s) signals @ [FinishStat (src_ID s) err, FinishMsg (src_ID s) err]"

section \<open>Which sources are started\<close>

definition due :: "time \<Rightarrow> stats \<Rightarrow> refresher \<Rightarrow> source \<Rightarrow> bool" where
  "due trigger snapshot r s \<longleftrightarrow> has_feed s \<and> map_of (active r) (src_ID s) = None \<and>
     (case snapshot (src_ID s) of None \<Rightarrow> Frequency s \<le> trigger | Some v \<Rightarrow> State v = Idle \<and> Updated v + Frequency s \<le> trigger)"

definition room :: "refresher \<Rightarrow> nat" where
  "room r = nat (maxScheduled r + 1 - int (length (active r)))"

lemma due_iff:
  "due trigger snapshot r s \<longleftrightarrow> has_feed s \<and> \<not> IsRunning snapshot (src_ID s) \<and> next_update trigger snapshot s \<le> trigger \<and>
     map_of (active r) (src_ID s) = None"
proof -
  have "v = Idle \<longleftrightarrow> v \<noteq> Running \<and> v \<noteq> Failed" for v by (cases v) simp_all
  then show ?thesis by (auto simp: due_def IsRunning_def next_update_def refreshDelay_def go_time split: option.splits)
qed

lemma check_sources_spec:
  assumes "distinct (map src_ID srcs)"
  shows "check_sources host trigger snapshot srcs r = (r', outs) \<Longrightarrow>
    maxScheduled r' = maxScheduled r \<and>
    active r' = active r @ map (\<lambda>(n, s). (src_ID s, n)) (enumerate (fresh_run r) (take (room r) (filter (due trigger snapshot r) srcs))) \<and>
    outs = map (\<lambda>(n, s). Spawned n s (\<not> Seed s)) (enumerate (fresh_run r) (take (room r) (filter (due trigger snapshot r) srcs)))"
  using assms
proof (induction srcs arbitrary: r outs)
  case (Cons s ss)
  show ?case
  proof (cases "int (length (active r)) > maxScheduled r")
    case True
    then show ?thesis using Cons.prems(1) by (auto simp: room_def)
  next
    case room: False
    show ?thesis
    proof (cases "has_feed s \<and> \<not> IsRunning snapshot (src_ID s) \<and> next_update trigger snapshot s \<le> trigger")
      case False
      then obtain r1 where r1: "check_sources host trigger snapshot ss r1 = (r', outs)" "active r1 = active r"
        "fresh_run r1 = fresh_run r" "maxScheduled r1 = maxScheduled r"
        using Cons.prems(1) room by (auto simp: Let_def split: if_splits option.splits)
      have "due trigger snapshot r1 = due trigger snapshot r" "room r1 = room r" by (simp_all add: due_def room_def r1 fun_eq_iff)
      moreover have "\<not> due trigger snapshot r s" using False due_iff by blast
      ultimately show ?thesis using Cons.IH [OF r1(1)] Cons.prems(2) r1 by simp
    next
      case ready: True
      show ?thesis
      proof (cases "map_of (active r) (src_ID s)")
        case None
        define r1 where "r1 = r\<lparr>active := active r @ [(src_ID s, fresh_run r)], fresh_run := fresh_run r + 1\<rparr>"
        have st: "start host s r = (r1, None, [Spawned (fresh_run r) s (\<not> Seed s)])" by (simp add: start_def None r1_def)
        obtain outs' where o: "check_sources host trigger snapshot ss r1 = (r', outs')" "outs = Spawned (fresh_run r) s (\<not> Seed s) # outs'"
          using Cons.prems(1) room ready by (auto simp: Let_def st split: prod.splits)
        have "\<forall>x \<in> set ss. src_ID x \<noteq> src_ID s" using Cons.prems(2) by (metis distinct.simps(2) image_eqI list.set_map list.simps(9))
        then have "filter (due trigger snapshot r1) ss = filter (due trigger snapshot r) ss"
          by (intro filter_cong) (auto simp: due_def r1_def map_add_def split: option.splits)
        moreover have "room r = Suc (room r1)" using room by (simp add: room_def r1_def)
        moreover have "due trigger snapshot r s" using ready None due_iff by blast
        ultimately show ?thesis using Cons.IH [OF o(1)] Cons.prems(2) o(2) by (simp add: r1_def)
      next
        case (Some run)
        then have "check_sources host trigger snapshot ss r = (r', outs)"
          using Cons.prems(1) room ready by (auto simp: Let_def start_def split: prod.splits)
        moreover have "\<not> due trigger snapshot r s" using Some by (simp add: due_def)
        ultimately show ?thesis using Cons.IH Cons.prems(2) by simp
      qed
    qed
  qed
qed simp

text \<open>
  C15. A check of the sources starts, in their order, those that are due - updated long enough ago, or never, and neither
  running nor failed - until one task more than \<open>maxScheduled\<close> is active; each gets a run of its own. A source that
  failed is never started again by a check.
\<close>

theorem check_starts_due:
  assumes "distinct (map src_ID srcs)" and "checkSources host trigger snapshot srcs r = ((r', outs), next)"
  shows "next = trigger + minute \<and>
    outs = map (\<lambda>(n, s). Spawned n s (\<not> Seed s)) (enumerate (fresh_run r) (take (room r) (filter (due trigger snapshot r) srcs))) \<and>
    map fst (active r') = map fst (active r) @ map src_ID (take (room r) (filter (due trigger snapshot r) srcs)) \<and>
    int (length (active r')) \<le> max (int (length (active r))) (maxScheduled r + 1)"
proof -
  define started where "started = take (room r) (filter (due trigger snapshot r) srcs)"
  have c: "check_sources host trigger snapshot srcs r = (r', outs)" "next = trigger + minute"
    using assms(2) by (simp_all add: checkSources_def)
  note spec = check_sources_spec [OF assms(1) c(1), folded started_def]
  have "map fst (map (\<lambda>(n, s). (src_ID s, n)) (enumerate (fresh_run r) started)) = map src_ID (map snd (enumerate (fresh_run r) started))"
    unfolding map_map by (rule map_cong) (auto simp: split_beta)
  then have "map fst (map (\<lambda>(n, s). (src_ID s, n)) (enumerate (fresh_run r) started)) = map src_ID started" by simp
  moreover have "length started \<le> room r" by (simp add: started_def)
  then have "int (length started) \<le> max 0 (maxScheduled r + 1 - int (length (active r)))" by (simp add: room_def)
  ultimately show ?thesis using spec c(2) by (simp add: started_def [symmetric])
qed

definition some_source :: source where
  "some_source = \<lparr>src_ID = 7, src_name = ''some'', Frequency = hour, Seed = True, Session = False, Homepage = [], UrlPrefix = [], has_feed = True\<rparr>"

theorem check_starts_due_witness:
  "snd (fst (checkSources (\<lambda>_. None) (2 * hour) Map.empty [some_source, some_source\<lparr>src_ID := 8\<rparr>] (NewRefresher\<lparr>maxScheduled := 0\<rparr>))) =
     [Spawned 0 some_source False]"
proof -
  obtain r' outs later where c: "checkSources (\<lambda>_. None) (2 * hour) Map.empty [some_source, some_source\<lparr>src_ID := 8\<rparr>] (NewRefresher\<lparr>maxScheduled := 0\<rparr>) =
      ((r', outs), later)" by (metis prod.collapse)
  have "distinct (map src_ID [some_source, some_source\<lparr>src_ID := 8\<rparr>])" by (simp add: some_source_def)
  from check_starts_due [OF this c] show ?thesis unfolding c
    by (simp add: room_def due_def some_source_def NewRefresher_def go_time)
qed

section \<open>Runs that overlap\<close>

text \<open>
  When a source is stopped and started again, the end of the stopped run takes the new one out of the active tasks: that
  one still runs, but can not be stopped any more, and a third one can start beside it.
\<close>

theorem late_finish_forgets_run:
  assumes "map_of (active r) (src_ID s) = None" and "start host s r = (r1, e1, o1)" and "stop host s r1 = (r2, e2, o2)"
    and "start host s r2 = (r3, e3, o3)" and "handleFinish (src_ID s) r3 = r4"
  shows "o1 = [Spawned (fresh_run r) s (\<not> Seed s)] \<and> o2 = [Cancelled (fresh_run r)] \<and>
    o3 = [Spawned (fresh_run r + 1) s (\<not> Seed s)] \<and> e1 = None \<and> e2 = None \<and> e3 = None \<and>
    snd (stop host s r4) = (Some (''source '' @ Name host s @ '' was not running''), []) \<and>
    snd (start host s r4) = (None, [Spawned (fresh_run r + 2) s (\<not> Seed s)])"
proof -
  have none: "map_of (filter (\<lambda>(i, _). i \<noteq> k) xs) k = None" for k and xs :: "(int \<times> nat) list"
    by (auto simp: map_of_eq_None_iff)
  have r1: "r1 = r\<lparr>active := active r @ [(src_ID s, fresh_run r)], fresh_run := fresh_run r + 1\<rparr>"
    "e1 = None" "o1 = [Spawned (fresh_run r) s (\<not> Seed s)]" using assms(1,2) by (simp_all add: start_def)
  then have "map_of (active r1) (src_ID s) = Some (fresh_run r)" using assms(1) by (simp add: map_add_def)
  then have r2: "r2 = r1\<lparr>active := filter (\<lambda>(i, _). i \<noteq> src_ID s) (active r1)\<rparr>" "e2 = None" "o2 = [Cancelled (fresh_run r)]"
    using assms(3) by (simp_all add: stop_def)
  then have "map_of (active r2) (src_ID s) = None" using none by simp
  then have r3: "r3 = r2\<lparr>active := active r2 @ [(src_ID s, fresh_run r2)], fresh_run := fresh_run r2 + 1\<rparr>"
    "e3 = None" "o3 = [Spawned (fresh_run r2) s (\<not> Seed s)]" using assms(4) by (simp_all add: start_def)
  have r4: "map_of (active r4) (src_ID s) = None" "fresh_run r4 = fresh_run r3"
    using assms(5) none by (auto simp: handleFinish_def Let_def split: option.splits)
  have fresh: "fresh_run r3 = fresh_run r + 2" "fresh_run r2 = fresh_run r + 1" by (simp_all add: r3(1) r2(1) r1(1))
  show ?thesis using r1(2,3) r2(2,3) r3(2,3) r4 by (simp add: fresh start_def stop_def)
qed

theorem late_finish_forgets_run_witness:
  "snd (start (\<lambda>_. None) some_source (handleFinish 7 (fst (start (\<lambda>_. None) some_source (fst (stop (\<lambda>_. None) some_source
     (fst (start (\<lambda>_. None) some_source NewRefresher)))))))) = (None, [Spawned 2 some_source False])"
proof -
  obtain r1 e1 o1 where 1: "start (\<lambda>_. None) some_source NewRefresher = (r1, e1, o1)" by (metis prod.collapse)
  obtain r2 e2 o2 where 2: "stop (\<lambda>_. None) some_source r1 = (r2, e2, o2)" by (metis prod.collapse)
  obtain r3 e3 o3 where 3: "start (\<lambda>_. None) some_source r2 = (r3, e3, o3)" by (metis prod.collapse)
  have "map_of (active NewRefresher) (src_ID some_source) = None" by (simp add: NewRefresher_def)
  from late_finish_forgets_run [OF this 1 2 3 refl]
  show ?thesis unfolding 1 2 3 fst_conv by (simp add: some_source_def NewRefresher_def)
qed

text \<open>A disabled refresher has no timer to wait for: its loop goes round and round without doing anything.\<close>

lemma disabled_spins:
  assumes "\<not> enabled r" and "next_check r = None"
  shows "timer now 0 r = (now, 0)" and "fired host snapshot srcs now r = (r, [])"
  using assms by (simp_all add: timer_def fired_def)

text \<open>
  A run estimates its end from the gaps between the times of its progress. Before there is one the latest time is the zero time, and the
  end is put off by the longest duration there is, 292 years.
\<close>

lemma first_estimate_is_far:
  assumes "max_duration \<le> now"
  shows "EstFinish now queued (the (plan_of (handleProgress t now i 0 r) i)) = now + max_duration"
proof -
  have g: "measure_adds (now # replicate 14 0) (0, 0, 0) = (0, 0, 0)"
    using assms by (simp add: numeral_eq_Suc max_duration_def)
  have "st_Adds (the (plan_of (handleProgress t now i 0 r) i)) = now # replicate 14 0"
    by (simp add: handleProgress_def Let_def numeral_eq_Suc)
  then show ?thesis using assms by (simp add: EstFinish_def g time_sub_def wrap64_def min_duration_def max_duration_def)
qed

end
