(* ===== verification/Checker.thy ===== *)
theory Checker
  imports Http Config
begin






section \<open>A page\<close>






definition truncatedBody :: "(string \<Rightarrow> string) \<Rightarrow> (string \<Rightarrow> string) \<Rightarrow> string \<Rightarrow> string" where
  "truncatedBody sanitize shrink body =
     (let body = shrink (sanitize body)
      in if length body > 512 then take 512 body @ '' ('' @ show_nat (length body - 512) @ ''b more)'' else body)"






section \<open>Strategies\<close>






section \<open>The configured checker\<close>







section \<open>What a verdict means\<close>












end
