(* ===== verification/Serve.thy ===== *)
theory Serve
  imports Http Config
begin

text \<open>
  The proxy servers of \<open>serve/\<close>: a plain request is forwarded to the transport, a CONNECT request opens a tunnel whose TLS
  connection is terminated here, and the requests inside it are forwarded one after another. The transport has a
  state of its own (the pool); the TLS handshake, reading requests off the connection and writing responses to it are arguments.
\<close>

section \<open>Requests and responses\<close>

record go_url =
  u_Scheme :: string
  u_User :: string
  u_Host :: string
  u_Path :: string
  u_RawPath :: string
  u_RawQuery :: string
  u_Fragment :: string

text \<open>A request as the server gets it.\<close>

record server_request =
  sr_Method :: string
  sr_URL :: go_url
  sr_Proto :: string
  sr_Header :: header
  sr_Body :: "8 word list"
  sr_ContentLength :: int
  sr_Host :: string

definition rewrapRequest :: "string \<Rightarrow> server_request \<Rightarrow> server_request" where
  "rewrapRequest scheme rq =
     \<lparr>sr_Method = sr_Method rq,
      sr_URL = \<lparr>u_Scheme = scheme, u_User = [], u_Host = sr_Host rq, u_Path = u_Path (sr_URL rq), u_RawPath = [],
        u_RawQuery = u_RawQuery (sr_URL rq), u_Fragment = []\<rparr>,
      sr_Proto = sr_Proto rq, sr_Header = sr_Header rq, sr_Body = sr_Body rq, sr_ContentLength = 0, sr_Host = []\<rparr>"

text \<open>An error of a connection, with what \<open>errors.Is(err, io.EOF)\<close> says of it; \<open>fmt.Errorf\<close> with \<open>%w\<close> keeps that.\<close>

record conn_error =
  ce_text :: string
  ce_eof :: bool

definition wrapped :: "string \<Rightarrow> conn_error \<Rightarrow> conn_error" where
  "wrapped m e = e\<lparr>ce_text := m @ '': '' @ ce_text e\<rparr>"

text \<open>
  A \<open>ResponseWriter\<close>: the first status counts, and a body without one has status 200. A status that does not have
  three digits is a panic of \<open>net/http\<close>; one that only informs (1xx but 101) is sent at once and does not count; some statuses have
  no body. What is written to a HEAD request counts here, but \<open>net/http\<close> does not send it.
\<close>

record writer =
  w_status :: "int option"
  w_header :: header
  w_body :: "8 word list"

definition new_writer :: writer where
  "new_writer = \<lparr>w_status = None, w_header = Map.empty, w_body = []\<rparr>"

definition WriteHeader :: "int \<Rightarrow> writer \<Rightarrow> writer option" where
  "WriteHeader code w =
     (case w_status w of
        Some s \<Rightarrow> Some w
      | None \<Rightarrow>
          if code < 100 \<or> 999 < code then None
          else if code \<le> 199 \<and> code \<noteq> 101 then Some w
          else Some (w\<lparr>w_status := Some code\<rparr>))"

definition bodyAllowed :: "int \<Rightarrow> bool" where
  "bodyAllowed status \<longleftrightarrow> \<not> (100 \<le> status \<and> status \<le> 199) \<and> status \<noteq> 204 \<and> status \<noteq> 304"

definition bytes_of :: "string \<Rightarrow> 8 word list" where
  "bytes_of s = map (\<lambda>c. of_nat (of_char c)) s"

definition write_body :: "8 word list \<Rightarrow> writer \<Rightarrow> writer" where
  "write_body b w =
     (let status = (case w_status w of None \<Rightarrow> 200 | Some s \<Rightarrow> s)
      in w\<lparr>w_status := Some status, w_body := w_body w @ (if bodyAllowed status then b else [])\<rparr>)"

text \<open>\<open>http.Error\<close>.\<close>

definition http_Error :: "string \<Rightarrow> int \<Rightarrow> writer \<Rightarrow> writer option" where
  "http_Error m code w =
     map_option (write_body (bytes_of (m @ [CHR 0x0A])))
       (WriteHeader code (w\<lparr>w_header := header_set ''X-Content-Type-Options'' ''nosniff''
          (header_set ''Content-Type'' ''text/plain; charset=utf-8'' (w_header w))\<rparr>))"

section \<open>Plain requests\<close>

text \<open>The headers of the response in the order of the iteration over their map.\<close>

definition copy_header :: "string list \<Rightarrow> header \<Rightarrow> header \<Rightarrow> header" where
  "copy_header visited h =
     fold (\<lambda>k rw. fold (header_add k) (case h k of None \<Rightarrow> [] | Some va \<Rightarrow> va) rw) visited"

definition handleSimpleHttp :: "('s \<Rightarrow> server_request \<Rightarrow> 's \<times> (conn_error + http_response)) \<Rightarrow> (header \<Rightarrow> string list) \<Rightarrow> server_request
    \<Rightarrow> 's \<Rightarrow> writer \<Rightarrow> 's \<times> writer option" where
  "handleSimpleHttp transport visit r s rw =
     (case transport s (rewrapRequest (u_Scheme (sr_URL r)) r) of
        (s, Inl err) \<Rightarrow> (s, http_Error (ce_text err) 470 rw)
      | (s, Inr res) \<Rightarrow>
          (s, map_option (write_body (RsBody res))
             (WriteHeader (StatusCode res) (rw\<lparr>w_header := copy_header (visit (RsHeader res)) (RsHeader res) (w_header rw)\<rparr>))))"

section \<open>Tunnels\<close>

datatype sent = Answer http_response | Failure int string string

text \<open>One request of the connection: what is sent, and the error that ends the loop.\<close>

definition handleInnerHttp :: "('s \<Rightarrow> server_request \<Rightarrow> 's \<times> (conn_error + http_response)) \<Rightarrow> (http_response \<Rightarrow> conn_error option)
    \<Rightarrow> conn_error + server_request \<Rightarrow> 's \<Rightarrow> 's \<times> sent list \<times> conn_error option" where
  "handleInnerHttp transport write rd s =
     (case rd of
        Inl err \<Rightarrow> (s, [], Some (wrapped ''read request'' err))
      | Inr req \<Rightarrow>
          (case transport s (rewrapRequest ''https'' req) of
             (s, Inl err) \<Rightarrow> (s, [], Some (wrapped ''round trip'' err))
           | (s, Inr res) \<Rightarrow> (s, [Answer res], write res)))"

text \<open>The loop over what is read off the connection.\<close>

fun tunnel :: "('s \<Rightarrow> server_request \<Rightarrow> 's \<times> (conn_error + http_response)) \<Rightarrow> (http_response \<Rightarrow> conn_error option)
    \<Rightarrow> (conn_error + server_request) list \<Rightarrow> 's \<Rightarrow> 's \<times> sent list" where
  "tunnel transport write [] s = (s, [])"
| "tunnel transport write (rd # rds) s =
     (case handleInnerHttp transport write rd s of
        (s, out, Some err) \<Rightarrow> (s, out @ (if ce_eof err then [] else [Failure 472 ''Forwarding Failed'' (ce_text err)]))
      | (s, out, None) \<Rightarrow> (case tunnel transport write rds s of (s, outs) \<Rightarrow> (s, out @ outs)))"

text \<open>The connection as the server sees it.\<close>

record hijacked =
  hj_possible :: bool
  hj_error :: "string option"
  hj_sign :: "string \<Rightarrow> string option"
  hj_handshake :: "string option"
  hj_reads :: "(conn_error + server_request) list"
  hj_write :: "http_response \<Rightarrow> conn_error option"

text \<open>\<open>handleHandshake\<close>: the error of the certificate for the host, or of the handshake.\<close>

definition handleHandshake :: "hijacked \<Rightarrow> string \<Rightarrow> string option" where
  "handleHandshake c host =
     (case hj_sign c host of Some err \<Rightarrow> Some (''sign: '' @ err) | None \<Rightarrow> hj_handshake c)"

definition handleConnect :: "('s \<Rightarrow> server_request \<Rightarrow> 's \<times> (conn_error + http_response)) \<Rightarrow> hijacked \<Rightarrow> server_request \<Rightarrow> 's \<Rightarrow> writer
    \<Rightarrow> 's \<times> writer option \<times> sent list" where
  "handleConnect transport c r s rw =
     (if \<not> hj_possible c then (s, WriteHeader 501 rw, [])
      else case WriteHeader 200 rw of
        None \<Rightarrow> (s, None, [])
      | Some rw \<Rightarrow>
          (case hj_error c of
             Some err \<Rightarrow> (s, http_Error err 471 rw, [])
           | None \<Rightarrow>
               if handleHandshake c (u_Host (sr_URL r)) \<noteq> None then (s, Some rw, [])
               else case tunnel transport (hj_write c) (hj_reads c) s of (s, out) \<Rightarrow> (s, Some rw, out)))"

definition proxy_ServeHTTP :: "('s \<Rightarrow> server_request \<Rightarrow> 's \<times> (conn_error + http_response)) \<Rightarrow> (header \<Rightarrow> string list) \<Rightarrow> hijacked
    \<Rightarrow> server_request \<Rightarrow> 's \<Rightarrow> writer \<Rightarrow> 's \<times> writer option \<times> sent list" where
  "proxy_ServeHTTP transport visit c r s rw =
     (if sr_Method r \<noteq> ''CONNECT'' then (case handleSimpleHttp transport visit r s rw of (s, w) \<Rightarrow> (s, w, []))
      else handleConnect transport c r s rw)"

section \<open>The configured server\<close>

record mitm_server =
  ms_Addr :: string
  ms_ReadTimeout :: duration
  ms_IdleTimeout :: duration
  ms_WriteTimeout :: duration
  ms_sessions :: int

definition mitmDefaultAddr :: string where
  "mitmDefaultAddr = ''localhost:8090''"

text \<open>\<open>Configure\<close> also listens; \<open>listen\<close> is its error.\<close>

definition Configure :: "(string \<Rightarrow> string) \<Rightarrow> (string \<Rightarrow> string option) \<Rightarrow> config \<Rightarrow> mitm_server \<Rightarrow> mitm_server \<times> string option" where
  "Configure env listen c mps =
     (let mps = mps\<lparr>ms_Addr := StrOr env c ''addr'' mitmDefaultAddr, ms_ReadTimeout := DurOr c ''read_timeout'' (15 * second),
            ms_IdleTimeout := DurOr c ''idle_timeout'' (15 * second), ms_WriteTimeout := DurOr c ''write_timeout'' (15 * second)\<rparr>
      in (mps, listen (ms_Addr mps)))"

text \<open>Each request takes the next number of the counter, for the log.\<close>

definition mitm_ServeHTTP :: "('s \<Rightarrow> server_request \<Rightarrow> 's \<times> (conn_error + http_response)) \<Rightarrow> (header \<Rightarrow> string list) \<Rightarrow> hijacked
    \<Rightarrow> server_request \<Rightarrow> mitm_server \<Rightarrow> 's \<Rightarrow> writer \<Rightarrow> mitm_server \<times> int \<times> 's \<times> writer option \<times> sent list" where
  "mitm_ServeHTTP transport visit c r mps s rw =
     (let session = ms_sessions mps + 1
      in (mps\<lparr>ms_sessions := session\<rparr>, session, proxy_ServeHTTP transport visit c r s rw))"

section \<open>What the proxy forwards\<close>

text \<open>The values of a header, none when it is not there.\<close>

definition values_of :: "header \<Rightarrow> string \<Rightarrow> string list" where
  "values_of h k = (case h k of None \<Rightarrow> [] | Some vs \<Rightarrow> vs)"

lemma values_of_add: "values_of (header_add k v h) k' = values_of h k' @ (if k' = k then [v] else [])"
  by (simp add: values_of_def header_add_def)

lemma values_of_add_all: "values_of (fold (header_add k) va h) k' = values_of h k' @ (if k' = k then va else [])"
  by (induction va arbitrary: h) (simp_all add: values_of_add)

lemma copy_header_Cons: "copy_header (k # ks) h rw = copy_header ks h (fold (header_add k) (case h k of None \<Rightarrow> [] | Some va \<Rightarrow> va) rw)"
  by (simp add: copy_header_def)

text \<open>The copy does not depend on the order of the iteration.\<close>

lemma copy_header_values:
  assumes "distinct visited" and "set visited = dom h"
  shows "values_of (copy_header visited h rw) k = values_of rw k @ values_of h k"
proof -
  have "distinct visited \<Longrightarrow> values_of (copy_header visited h rw) k = values_of rw k @ (if k \<in> set visited then values_of h k else [])"
  proof (induction visited arbitrary: rw)
    case Nil
    then show ?case by (simp add: copy_header_def)
  next
    case (Cons k' ks)
    then show ?case by (simp add: copy_header_Cons values_of_add_all values_of_def [of h k', symmetric])
  qed
  with assms show ?thesis by (auto simp: values_of_def split: option.split)
qed

text \<open>A response on a fresh writer.\<close>

lemma written_response:
  "map_option (write_body b) (WriteHeader code \<lparr>w_status = None, w_header = h, w_body = []\<rparr>) =
     (if 100 \<le> code \<and> code \<le> 999
      then Some \<lparr>w_status = Some (if code \<le> 199 \<and> code \<noteq> 101 then 200 else code), w_header = h,
        w_body = (if code \<in> {101, 204, 304} then [] else b)\<rparr>
      else None)"
proof -
  consider "code < 100 \<or> 999 < code" | "100 \<le> code" "code \<le> 199" "code \<noteq> 101" | "code = 101" | "200 \<le> code" "code \<le> 999"
    by linarith
  then show ?thesis by cases (auto simp: WriteHeader_def write_body_def bodyAllowed_def)
qed

text \<open>
  C26. A plain request is answered with the status (200 for one that only informs), the header values and the body, where the status has
  one, that the transport answers to the request for the host of its Host header, in whatever order the headers are copied; an error of
  the transport is answered with status 470 and its text. Only a status that is not a number of three digits makes the handler panic.
\<close>

theorem plain_request_forwarded:
  assumes "sr_Method r \<noteq> ''CONNECT''" and "transport s (rewrapRequest (u_Scheme (sr_URL r)) r) = (s', reply)"
    and "case reply of Inl err \<Rightarrow> True | Inr res \<Rightarrow> distinct (visit (RsHeader res)) \<and> set (visit (RsHeader res)) = dom (RsHeader res)"
  shows "case reply of
      Inl err \<Rightarrow> (\<exists>w. proxy_ServeHTTP transport visit c r s new_writer = (s', Some w, []) \<and> w_status w = Some 470 \<and>
        w_body w = bytes_of (ce_text err @ [CHR 0x0A]))
    | Inr res \<Rightarrow>
        if 100 \<le> StatusCode res \<and> StatusCode res \<le> 999
        then \<exists>w. proxy_ServeHTTP transport visit c r s new_writer = (s', Some w, []) \<and>
          w_status w = Some (if StatusCode res \<le> 199 \<and> StatusCode res \<noteq> 101 then 200 else StatusCode res) \<and>
          values_of (w_header w) = values_of (RsHeader res) \<and>
          w_body w = (if StatusCode res \<in> {101, 204, 304} then [] else RsBody res)
        else proxy_ServeHTTP transport visit c r s new_writer = (s', None, [])"
proof (cases reply)
  case (Inl err)
  then show ?thesis
    using assms(1,2) by (simp add: proxy_ServeHTTP_def handleSimpleHttp_def http_Error_def WriteHeader_def write_body_def bodyAllowed_def new_writer_def)
next
  case (Inr res)
  let ?h = "copy_header (visit (RsHeader res)) (RsHeader res) Map.empty"
  have same: "values_of ?h = values_of (RsHeader res)"
    using copy_header_values [of "visit (RsHeader res)" "RsHeader res"] assms(3) Inr by (auto simp: values_of_def)
  have run: "proxy_ServeHTTP transport visit c r s new_writer =
      (s', map_option (write_body (RsBody res)) (WriteHeader (StatusCode res) \<lparr>w_status = None, w_header = ?h, w_body = []\<rparr>), [])"
    using assms(1,2) Inr by (simp add: proxy_ServeHTTP_def handleSimpleHttp_def new_writer_def)
  show ?thesis
    unfolding Inr run sum.case by (simp add: written_response same)
qed

definition sample_get :: server_request where
  "sample_get =
     \<lparr>sr_Method = ''GET'', sr_URL = \<lparr>u_Scheme = ''http'', u_User = [], u_Host = ''a.b'', u_Path = ''/c'', u_RawPath = [], u_RawQuery = [], u_Fragment = []\<rparr>,
      sr_Proto = ''HTTP/1.1'', sr_Header = Map.empty, sr_Body = [], sr_ContentLength = 0, sr_Host = ''a.b''\<rparr>"

definition no_hijack :: hijacked where
  "no_hijack = \<lparr>hj_possible = False, hj_error = None, hj_sign = (\<lambda>_. None), hj_handshake = None, hj_reads = [], hj_write = (\<lambda>_. None)\<rparr>"

theorem plain_request_forwarded_witness:
  "\<exists>w. proxy_ServeHTTP (\<lambda>n r. (n + 1, Inr \<lparr>StatusCode = 404, Status = ''no'', RsHeader = [''Via'' \<mapsto> [''x'', ''y'']], RsBody = [7]\<rparr>)) (\<lambda>h. [''Via''])
      no_hijack sample_get (41::int) new_writer = (42, Some w, []) \<and> w_status w = Some 404 \<and> values_of (w_header w) ''Via'' = [''x'', ''y'']"
  using plain_request_forwarded [of sample_get "\<lambda>n r. (n + 1, Inr \<lparr>StatusCode = 404, Status = ''no'', RsHeader = [''Via'' \<mapsto> [''x'', ''y'']], RsBody = [7]\<rparr>)"
      41 42 "Inr \<lparr>StatusCode = 404, Status = ''no'', RsHeader = [''Via'' \<mapsto> [''x'', ''y'']], RsBody = [7]\<rparr>" "\<lambda>h. [''Via'']" no_hijack]
  by (fastforce simp: sample_get_def values_of_def [of "[''Via'' \<mapsto> [''x'', ''y'']]"])

text \<open>Only the host, the path and the query of the URL go on; a URL that has nothing else is kept.\<close>

lemma rewrap_url:
  "u_User (sr_URL r) = [] \<Longrightarrow> u_RawPath (sr_URL r) = [] \<Longrightarrow> u_Fragment (sr_URL r) = [] \<Longrightarrow> sr_Host r = u_Host (sr_URL r) \<Longrightarrow>
     sr_URL (rewrapRequest (u_Scheme (sr_URL r)) r) = sr_URL r"
  by (simp add: rewrapRequest_def)






text \<open>An error of the transport that wraps the end of a file, as a proxy that hangs up makes, is not told apart from the end of the connection.\<close>

lemma hanging_up_is_silent:
  assumes "transport s (rewrapRequest ''https'' r) = (s', Inl \<lparr>ce_text = m, ce_eof = True\<rparr>)"
  shows "tunnel transport write (Inr r # rds) s = (s', [])"
  using assms by (simp add: handleInnerHttp_def wrapped_def)

text \<open>The status 471 of a failed hijack comes after status 200 was sent, and is not sent.\<close>

lemma hijack_failure_is_200:
  "hj_possible c \<Longrightarrow> hj_error c = Some err \<Longrightarrow>
     \<exists>w. handleConnect transport c r s new_writer = (s, Some w, []) \<and> w_status w = Some 200"
  by (simp add: handleConnect_def WriteHeader_def new_writer_def http_Error_def write_body_def)

section \<open>Servers over a transport that keeps its promises\<close>

text \<open>
  What a server relies on: a request keeps the transport in a good state, and its answers are of a kind. Then the server
  keeps it so, and answers nothing else.
\<close>

locale round_tripper =
  fixes transport :: "'s \<Rightarrow> server_request \<Rightarrow> 's \<times> (conn_error + http_response)"
    and ok :: "'s \<Rightarrow> bool"
    and answers :: "http_response \<Rightarrow> bool"
  assumes keeps: "ok s \<Longrightarrow> transport s r = (s', reply) \<Longrightarrow> ok s'"
    and promises: "ok s \<Longrightarrow> transport s r = (s', Inr res) \<Longrightarrow> answers res"
begin

lemma inner_answers:
  assumes "ok s" and "handleInnerHttp transport write rd s = (s', out, err)"
  shows "ok s' \<and> (\<forall>res. Answer res \<in> set out \<longrightarrow> answers res)"
  using assms by (auto simp: handleInnerHttp_def split: sum.splits prod.splits intro: keeps promises)

lemma tunnel_answers:
  "ok s \<Longrightarrow> tunnel transport write rds s = (s', out) \<Longrightarrow> ok s' \<and> (\<forall>res. Answer res \<in> set out \<longrightarrow> answers res)"
proof (induction rds arbitrary: s s' out)
  case (Cons rd rds)
  obtain t o1 err where inner: "handleInnerHttp transport write rd s = (t, o1, err)" by (metis prod_cases3)
  note good = inner_answers [OF Cons.prems(1) inner]
  show ?case
  proof (cases err)
    case None
    obtain t' o2 where rest: "tunnel transport write rds t = (t', o2)" by fastforce
    with Cons.prems(2) inner None have "s' = t'" "out = o1 @ o2" by simp_all
    with good Cons.IH [OF _ rest] show ?thesis by auto
  next
    case (Some e)
    with Cons.prems(2) inner have "s' = t" "out = o1 @ (if ce_eof e then [] else [Failure 472 ''Forwarding Failed'' (ce_text e)])" by simp_all
    with good show ?thesis by auto
  qed
qed simp

lemma connect_answers:
  assumes "ok s" and "handleConnect transport c r s rw = (s', w, out)"
  shows "ok s' \<and> (\<forall>res. Answer res \<in> set out \<longrightarrow> answers res)"
  using assms tunnel_answers [OF assms(1)] by (auto simp: handleConnect_def split: if_splits option.splits prod.splits)

text \<open>The status of a plain request: that of an answer, 200 for an answer that only informs, or 470 for an error; or the handler panics.\<close>

lemma plain_answers:
  assumes "ok s" and "handleSimpleHttp transport visit r s new_writer = (s', w)"
  shows "ok s' \<and> (case w of
      None \<Rightarrow> \<exists>res. answers res \<and> (StatusCode res < 100 \<or> 999 < StatusCode res)
    | Some w \<Rightarrow> w_status w = Some 470 \<or>
        (\<exists>res. answers res \<and> w_status w = Some (if StatusCode res \<le> 199 \<and> StatusCode res \<noteq> 101 then 200 else StatusCode res)))"
proof -
  obtain t reply where t: "transport s (rewrapRequest (u_Scheme (sr_URL r)) r) = (t, reply)" by fastforce
  show ?thesis
  proof (cases reply)
    case (Inl err)
    obtain x where x: "http_Error (ce_text err) 470 new_writer = Some x" "w_status x = Some 470"
      by (simp add: http_Error_def WriteHeader_def write_body_def new_writer_def)
    have "s' = t" "w = Some x" using assms(2) t Inl x(1) by (simp_all add: handleSimpleHttp_def)
    then show ?thesis using x(2) keeps [OF assms(1) t] by simp
  next
    case (Inr res)
    have a: "answers res" using promises [OF assms(1)] t Inr by blast
    have w: "w = map_option (write_body (RsBody res)) (WriteHeader (StatusCode res) \<lparr>w_status = None,
        w_header = copy_header (visit (RsHeader res)) (RsHeader res) Map.empty, w_body = []\<rparr>)" and "s' = t"
      using assms(2) t Inr by (simp_all add: handleSimpleHttp_def new_writer_def)
    show ?thesis
      using keeps [OF assms(1) t] \<open>s' = t\<close> a unfolding w written_response by (auto intro: exI [of _ res])
  qed
qed

end

end
