(* ===== verification/Overview.thy ===== *)
theory Overview
  imports Probe Refresher Sorter
begin



section \<open>What the sources contribute\<close>






section \<open>The rows\<close>





section \<open>What the counts are\<close>


















end
