(* ===== verification/Feeding.thy ===== *)
theory Feeding
  imports Refresher "HOL-Library.Sublist"
begin

text \<open>
  A run of a source from its pages to the probe: the generators of \<open>sources/try.go\<close> repeat the pages, the merge interleaves them, and
  \<open>refresh\<close> of the refresher passes on what comes out.
\<close>

section \<open>Interleavings\<close>


inductive_cases interleaves_ConsE: "interleaves srcs (x # out)"
inductive_cases interleaves_NilE: "interleaves srcs []"


section \<open>What a source finds\<close>


definition added :: "signal list \<Rightarrow> proxy list" where
  "added ss = map sg_Proxy (filter sg_Add ss)"

lemma added_simps [simp]: "added [] = []" "added (xs @ ys) = added xs @ added ys"
  "added (map (\<lambda>proxy. \<lparr>sg_Proxy = proxy, sg_Add = True, sg_Err = e\<rparr>) ps) = ps"
  by (simp_all add: added_def comp_def)














end
