(* ===== verification/Registry.thy ===== *)
theory Registry
  imports Refresher
begin

text \<open>
  The sources that the program knows: the registrations of \<open>sources/*.go\<close> in the order in which the files are initialized,
  which is that of their names. A source comes with the pages that are searched for addresses, as their URL, the protocol of what they list
  and the text they must have; a source with a scraper of its own has none here. The order of the pages of a source is that of the
  iteration over a map, and does not matter to the merge. Pages with printed numbers are listed by their patterns.
\<close>

type_synonym registered = "source \<times> (string \<times> string \<times> string) list"

text \<open>The host of a URL that has a scheme: what is between the slashes and a path or a query.\<close>

definition url_host :: "string \<Rightarrow> string option" where
  "url_host u =
     (case cut_first ''://'' u of
        None \<Rightarrow> Some []
      | Some (scheme, rest) \<Rightarrow> Some (takeWhile (\<lambda>c. c \<noteq> CHR ''/'' \<and> c \<noteq> CHR ''?'') rest))"

section \<open>Registrations\<close>

definition plain_source :: "int \<Rightarrow> string \<Rightarrow> string \<Rightarrow> string \<Rightarrow> duration \<Rightarrow> bool \<Rightarrow> source" where
  "plain_source i n home prefix freq seed =
     \<lparr>src_ID = i, src_name = n, Frequency = freq, Seed = seed, Session = False, Homepage = home, UrlPrefix = prefix, has_feed = True\<rparr>"

text \<open>\<open>regexFeedBase\<close>: the pages below a base.\<close>

definition regexFeedBase :: "string \<Rightarrow> string \<Rightarrow> (string \<times> string) list \<Rightarrow> (string \<times> string \<times> string) list" where
  "regexFeedBase base expect files = map (\<lambda>(t, loc). (base @ loc, t, expect)) files"

definition github :: "int \<Rightarrow> string \<Rightarrow> (string \<times> string) list \<Rightarrow> duration \<Rightarrow> registered" where
  "github i repo files freq =
     (let ownerSplit = str_split ''/'' repo; prefix = ''https://raw.githubusercontent.com/'' @ repo
      in (plain_source i (ownerSplit ! 0) (''https://github.com/'' @ repo) prefix freq True, regexFeedBase prefix '':'' files))"

definition regexSource :: "int \<Rightarrow> string \<Rightarrow> string \<Rightarrow> (string \<times> string) list \<Rightarrow> bool \<Rightarrow> duration \<Rightarrow> registered" where
  "regexSource i home expect files seed freq =
     (plain_source i [] home [] freq seed, regexFeedBase home expect files)"

definition httpProxyRegexFeed :: "string \<Rightarrow> string \<Rightarrow> (string \<times> string \<times> string) list" where
  "httpProxyRegexFeed url expect = [(url, ''http'', expect)]"

definition countries :: "string list" where
  "countries =
     [''AL'', ''AM'', ''AR'', ''AT'', ''AU'', ''BA'', ''BD'', ''BG'', ''BO'', ''BR'', ''BY'', ''CA'', ''CL'',
      ''CM'', ''CO'', ''CZ'', ''EC'', ''EG'', ''ES'', ''FR'', ''GB'', ''GE'', ''GR'', ''GT'', ''HN'', ''HU'',
      ''ID'', ''IN'', ''IT'', ''JP'', ''KE'', ''KG'', ''KH'', ''KR'', ''KZ'', ''LT'', ''LV'', ''MD'', ''MM'',
      ''MN'', ''MU'', ''MW'', ''MX'', ''MY'', ''NO'', ''NP'', ''PE'', ''PH'', ''PK'', ''PL'', ''PY'', ''RO'',
      ''RS'', ''RU'', ''SC'', ''SE'', ''SG'', ''SK'', ''TH'', ''TR'', ''TZ'', ''UA'', ''UG'', ''US'', ''VE'',
      ''VN'', ''ZA'']"

definition github_sources :: "registered list" where
  "github_sources = [
   github 12 ''TheSpeedX/PROXY-List''
     [(''http'', ''/master/http.txt''), (''socks4'', ''/master/socks4.txt''), (''socks5'', ''/master/socks5.txt'')] (3 * hour),
   github 26 ''andigwandi/free-proxy''
     [(''http'', ''/main/proxy_list.txt'')] (2 * hour),
   github 27 ''aslisk/proxyhttps''
     [(''http'', ''/main/https.txt'')] (24 * hour),
   github 30 ''fahimscirex/proxybd''
     [(''http'', ''/master/proxylist/http.txt''), (''socks4'', ''/master/proxylist/socks4.txt''), (''socks5'', ''/master/proxylist/socks5.txt'')] (4 * hour),
   github 33 ''hookzof/socks5_list''
     [(''socks5'', ''/master/proxy.txt'')] (5 * minute),
   github 34 ''HyperBeats/proxy-list''
     [(''http'', ''/main/http.txt''), (''socks4'', ''/main/socks4.txt''), (''socks5'', ''/main/socks5.txt'')] (2 * hour),
   github 35 ''manuGMG/proxy-365''
     [(''socks5'', ''/main/SOCKS5.txt'')] (1 * hour),
   github 36 ''mertguvencli/http-proxy-list''
     [(''http'', ''/main/proxy-list/data.txt'')] (10 * minute),
   github 38 ''mmpx12/proxy-list''
     [(''http'', ''/master/https.txt''), (''socks4'', ''/master/socks4.txt''), (''socks5'', ''/master/socks5.txt'')] (1 * hour),
   github 39 ''monosans/proxy-list''
     [(''http'', ''/main/proxies/http.txt''), (''socks4'', ''/main/proxies/socks4.txt''), (''socks5'', ''/main/proxies/socks5.txt'')] (30 * minute),
   github 40 ''ObcbO/getproxy''
     [(''http'', ''/master/https.txt''), (''socks4'', ''/master/socks4.txt''), (''socks5'', ''/master/socks5.txt'')] (6 * hour),
   github 41 ''officialputuid/KangProxy''
     [(''http'', ''/KangProxy/https/https.txt''), (''socks4'', ''/KangProxy/socks4/socks4.txt''), (''socks5'', ''/KangProxy/socks5/socks5.txt'')] (2 * hour),
   github 42 ''proxy4parsing/proxy-list''
     [(''http'', ''/main/http.txt'')] (15 * minute),
   github 45 ''ReCaree/proxy-scrapper''
     [(''http'', ''/master/proxy/http-removed.txt''), (''socks4'', ''/master/proxy/socks4-removed.txt''), (''socks5'', ''/master/proxy/socks5-removed.txt'')] (24 * hour),
   github 46 ''roosterkid/openproxylist''
     [(''http'', ''/main/HTTPS_RAW.txt''), (''socks4'', ''/main/SOCKS4_RAW.txt''), (''socks5'', ''/main/SOCKS5_RAW.txt'')] (30 * minute),
   github 50 ''ShiftyTR/Proxy-List''
     [(''http'', ''/master/https.txt''), (''socks4'', ''/master/socks4.txt''), (''socks5'', ''/master/socks5.txt'')] (10 * minute),
   github 51 ''UptimerBot/proxy-list''
     [(''http'', ''/main/proxies/http.txt''), (''socks4'', ''/main/proxies/socks4.txt''), (''socks5'', ''/main/proxies/socks5.txt'')] (1 * hour),
   github 52 ''yemixzy/proxy-list''
     [(''http'', ''/main/proxy-list/data.txt'')] (24 * hour),
   github 53 ''Zaeem20/FREE_PROXIES_LIST''
     [(''http'', ''/master/https.txt''), (''socks4'', ''/master/socks4.txt''), (''socks5'', ''/master/socks5.txt'')] (1 * hour),
   github 54 ''zevtyardt/proxy-list''
     [(''http'', ''/main/http.txt''), (''socks4'', ''/main/socks4.txt''), (''socks5'', ''/main/socks5.txt'')] (2 * hour)]"

definition regex_sources :: "registered list" where
  "regex_sources = [
   regexSource 8 ''https://free-proxy-list.net'' ''Proxy List''
     [(''http'', ''/'')] True (30 * minute),
   regexSource 11 ''http://proxylists.net'' '':''
     [(''http'', ''/http_highanon.txt''), (''socks4'', ''/socks4.txt''), (''socks5'', ''/socks5.txt'')] True (3 * hour),
   regexSource 18 ''https://sslproxies.org'' ''SSL Proxy List''
     [(''https'', ''/'')] True (30 * minute),
   regexSource 20 ''https://us-proxy.org'' ''US Proxy List''
     [(''http'', ''/'')] True (30 * minute),
   regexSource 55 ''https://proxy-list.download'' '':''
     [(''http'', ''/api/v1/get?type=http''), (''https'', ''/api/v1/get?type=https''), (''socks4'', ''/api/v1/get?type=socks4''), (''socks5'', ''/api/v1/get?type=socks5'')] True (3 * hour),
   regexSource 56 ''https://freeproxychecker.com'' '':''
     [(''http'', ''/result/socks4_proxies.txt''), (''socks4'', ''/result/socks4_proxies.txt''), (''socks5'', ''/result/socks5_proxies.txt'')] True (12 * hour),
   regexSource 57 ''https://openproxylist.xyz'' '':''
     [(''http'', ''/http.txt''), (''socks4'', ''/socks4.txt''), (''socks5'', ''/socks5.txt'')] True (1 * hour),
   regexSource 58 ''https://api.proxyscrape.com/v2/?request=getproxies&protocol='' '':''
     [(''http'', ''http''), (''socks4'', ''socks4''), (''socks5'', ''socks5'')] True (1 * hour),
   regexSource 59 ''https://proxyspace.pro'' '':''
     [(''http'', ''/http.txt''), (''https'', ''/https.txt''), (''socks4'', ''/socks4.txt''), (''socks5'', ''/socks5.txt'')] True (1 * hour),
   regexSource 60 ''https://api.good-proxies.ru/getfree.php'' '':''
     [(''http'', ''?type%5Bhttp%5D=on&anon%5B%27transparent%27%5D=on&anon%5B%27anonymous%27%5D=on&anon%5B%27elite%27%5D=on&count=100&ping=8000&time=600&works=50&key=freeproxy''), (''https'', ''?type%5Bhttps%5D=on&anon%5B%27transparent%27%5D=on&anon%5B%27anonymous%27%5D=on&anon%5B%27elite%27%5D=on&count=100&ping=8000&time=600&works=50&key=freeproxy''), (''socks4'', ''?type%5Bsocks4%5D=on&anon%5B%27transparent%27%5D=on&anon%5B%27anonymous%27%5D=on&anon%5B%27elite%27%5D=on&count=100&ping=8000&time=600&works=50&key=freeproxy''), (''socks5'', ''?type%5Bsocks5%5D=on&anon%5B%27transparent%27%5D=on&anon%5B%27anonymous%27%5D=on&anon%5B%27elite%27%5D=on&count=100&ping=8000&time=600&works=50&key=freeproxy'')] False (1 * hour),
   regexSource 62 ''https://rootjazz.com/proxies'' '':''
     [(''http'', ''/proxies.txt'')] True (1 * hour),
   regexSource 64 ''https://www.juproxy.com'' '':''
     [(''http'', ''/free_api'')] True (1 * hour),
   regexSource 66 ''https://www.proxyscan.io'' '':''
     [(''http'', ''/download?type=http''), (''https'', ''/download?type=https''), (''socks4'', ''/download?type=socks4''), (''socks5'', ''/download?type=socks5'')] True (1 * hour),
   regexSource 67 ''https://openproxy.space'' ''Proxy List''
     [(''http'', ''/list/http''), (''socks4'', ''/list/socks4''), (''socks5'', ''/list/socks5'')] False (24 * hour),
   regexSource 68 ''https://proxypedia.org'' ''Proxy List''
     [(''http'', ''/'')] True (10 * minute)]"

definition simple_sources :: "registered list" where
  "simple_sources =
     [(plain_source 9 [] ''http://foxtools.ru/'' ''http://api.foxtools.ru'' (12 * hour) False,
       httpProxyRegexFeed ''http://api.foxtools.ru/v2/Proxy.txt'' ''1 1''),
      (plain_source 10 ''sunny9577'' ''https://github.com/sunny9577/proxy-scraper'' ''https://sunny9577.github.io/'' (3 * hour) True,
       httpProxyRegexFeed ''https://sunny9577.github.io/proxy-scraper/proxies.txt'' '':''),
      (plain_source 19 ''anonymous-free-proxy'' ''https://free-proxy-list.net/anonymous-proxy.html'' [] (30 * minute) True,
       httpProxyRegexFeed ''https://free-proxy-list.net/anonymous-proxy.html'' ''Anonymous Proxy''),
      (plain_source 21 ''uk-proxy'' ''https://free-proxy-list.net/uk-proxy.html'' [] (30 * minute) True,
       httpProxyRegexFeed ''https://free-proxy-list.net/uk-proxy.html'' ''UK Proxy List'')]"

definition myProxyCom :: "(string \<times> string \<times> string) list" where
  "myProxyCom =
     regexFeedBase ''https://my-proxy.com'' ''Proxy List''
       ([(''http'', ''/free-elite-proxy.html''), (''http'', ''/free-anonymous-proxy.html''), (''socks4'', ''/free-socks-4-proxy.html''),
         (''socks5'', ''/free-socks-5-proxy.html'')] @
        map (\<lambda>i. (''http'', ''/free-proxy-list-'' @ show_nat i @ ''.html'')) [1..<11])"

definition proxyDbPages :: "(string \<times> string) list" where
  "proxyDbPages =
     concat (map (\<lambda>country. concat (map (\<lambda>anonlvl. map (\<lambda>protocol.
       (''http://proxydb.net/?country='' @ country @ ''&anonlvl='' @ anonlvl @ ''&protocol='' @ protocol, protocol))
       [''http'', ''https'', ''socks4'', ''socks5'']) [''4'', ''3'', ''2''])) countries)"

definition proxyDb :: "(string \<times> string \<times> string) list" where
  "proxyDb = map (\<lambda>(url, protocol). (url, protocol, ''Proxy List'')) proxyDbPages"

definition checkerproxy_sources :: "registered list" where
  "checkerproxy_sources = [(plain_source 1 [] ''https://checkerproxy.net/'' [] (6 * hour) True, [])]"

definition fate0_sources :: "registered list" where
  "fate0_sources = [(plain_source 22 ''fate0'' ''https://github.com/fate0/proxylist'' [] (15 * minute) False, [])]"

definition freeproxycz_sources :: "registered list" where
  "freeproxycz_sources = [(plain_source 2 [] ''http://free-proxy.cz/'' [] (1 * hour) False, [])]"

definition geonode_sources :: "registered list" where
  "geonode_sources = [(plain_source 23 [] ''https://geonode.com/free-proxy-list/'' [] (3 * hour) True, [])]"

definition hidemy_sources :: "registered list" where
  "hidemy_sources = [(plain_source 24 [] ''https://hidemy.name'' [] (1 * hour) True, [])]"

definition megaproxylist_sources :: "registered list" where
  "megaproxylist_sources = [(plain_source 65 [] ''https://www.megaproxylist.net'' [] (24 * hour) False, [])]"

definition myproxy_sources :: "registered list" where
  "myproxy_sources = [(plain_source 3 [] ''https://my-proxy.com/'' [] (1 * hour) False, myProxyCom)]"

definition nntime_sources :: "registered list" where
  "nntime_sources = [(plain_source 4 [] ''http://nntime.com'' [] (6 * hour) False, [])]"

definition premproxy_sources :: "registered list" where
  "premproxy_sources = [(plain_source 5 [] ''https://premproxy.com/list/'' ''https://premproxy.com/'' (6 * hour) False, [])]"

definition proxydb_sources :: "registered list" where
  "proxydb_sources = [(plain_source 13 [] ''http://proxydb.net/'' [] (6 * hour) False, proxyDb)]"

definition proxylist_sources :: "registered list" where
  "proxylist_sources = [(plain_source 6 [] ''https://proxy-list.org/'' [] (5 * minute) False, [])]"

definition proxynova_sources :: "registered list" where
  "proxynova_sources = [(plain_source 7 [] ''http://proxynova.com/'' ''https://proxynova.com'' (6 * hour) False, [])]"

definition spysone_sources :: "registered list" where
  "spysone_sources =
     [(plain_source 14 [] ''http://spys.one'' [] (3 * hour) True, []),
      (plain_source 15 ''spys.me'' ''https://github.com/clarketm/proxy-list/'' ''https://raw.githubusercontent.com/clarketm/proxy-list'' (6 * hour) True,
       httpProxyRegexFeed ''https://raw.githubusercontent.com/clarketm/proxy-list/master/proxy-list-raw.txt'' '':'')]"

definition webanet_sources :: "registered list" where
  "webanet_sources = [(plain_source 16 [] ''https://webanetlabs.net/publ/24'' ''https://webanetlabs.net'' (24 * hour) False, [])]"

definition registry :: "registered list" where
  "registry =
     checkerproxy_sources @ fate0_sources @ freeproxycz_sources @ geonode_sources @ github_sources @ hidemy_sources @
     megaproxylist_sources @ myproxy_sources @ nntime_sources @ premproxy_sources @ proxydb_sources @ proxylist_sources @
     proxynova_sources @ regex_sources @ simple_sources @ spysone_sources @ webanet_sources"

abbreviation Sources_list :: "source list" where
  "Sources_list \<equiv> map fst registry"

section \<open>The registry is in order\<close>

lemma ByName_found: "distinct (map (Name host) ss) \<Longrightarrow> s \<in> set ss \<Longrightarrow> ByName host ss (Name host s) = s"
  by (induction ss) (auto simp: image_iff)

lemma registry_ids: "distinct (map src_ID Sources_list)"
  by code_simp

lemma registry_names: "distinct (map (Name url_host) Sources_list)"
  by code_simp

lemma registry_settings:
  "list_all (\<lambda>s. 0 < src_ID s \<and> has_feed s \<and> \<not> Session s \<and> 5 * minute \<le> Frequency s \<and> Frequency s \<le> 24 * hour) Sources_list"
  by code_simp

definition readable :: "registered \<Rightarrow> bool" where
  "readable = (\<lambda>(s, pages). list_all (\<lambda>(url, t, expect). protoMap t \<noteq> None) pages)"

lemma known_protocols [simp]:
  "\<exists>p. protoMap ''http'' = Some p" "\<exists>p. protoMap ''https'' = Some p" "\<exists>p. protoMap ''socks4'' = Some p" "\<exists>p. protoMap ''socks5'' = Some p"
  by (simp_all add: protoMap_def)

lemma readable_pages [simp]:
  "readable (s, [])" "readable (s, httpProxyRegexFeed url expect)" "readable (s, proxyDb)"
  "readable (s, regexFeedBase base expect files) \<longleftrightarrow> list_all (\<lambda>(t, loc). protoMap t \<noteq> None) files"
  by (auto simp: readable_def httpProxyRegexFeed_def proxyDb_def proxyDbPages_def regexFeedBase_def list_all_iff)

lemma registry_protocols: "list_all readable registry"
proof -
  have "list_all readable github_sources" "list_all readable regex_sources"
    by (simp_all add: github_sources_def regex_sources_def github_def regexSource_def Let_def)
  moreover have "readable (s, myProxyCom)" for s by (simp add: myProxyCom_def list_all_iff)
  ultimately show ?thesis
    by (simp add: registry_def checkerproxy_sources_def fate0_sources_def freeproxycz_sources_def geonode_sources_def hidemy_sources_def
        megaproxylist_sources_def myproxy_sources_def nntime_sources_def premproxy_sources_def proxydb_sources_def proxylist_sources_def
        proxynova_sources_def simple_sources_def spysone_sources_def webanet_sources_def)
qed

text \<open>
  C27. The registry is in order: no two sources share a number or a name, so every source is found by both; none has the number 0,
  which is that of the re-verification; all have a feed, and are refreshed between every five minutes and every day; every page that is searched for addresses
  has one of the four protocols; and no source asks for a session.
\<close>

theorem registry_lookup:
  "distinct (map src_ID Sources_list) \<and>
   list_all (\<lambda>s. ByID Sources_list (src_ID s) = s \<and> ByName url_host Sources_list (Name url_host s) = s) Sources_list \<and>
   list_all (\<lambda>s. 0 < src_ID s \<and> has_feed s \<and> \<not> Session s \<and> 5 * minute \<le> Frequency s \<and> Frequency s \<le> 24 * hour) Sources_list \<and>
   list_all readable registry"
  using registry_ids registry_settings registry_protocols ByID_known [OF registry_ids] ByName_found [OF registry_names]
  by (simp add: list_all_iff)

text \<open>One page is searched for HTTP proxies although it lists SOCKS ones.\<close>

lemma socks_listed_as_http:
  "list_ex (\<lambda>(s, pages). src_ID s = 56 \<and>
     list_all (\<lambda>t. list_ex (\<lambda>page. page = (''https://freeproxychecker.com/result/socks4_proxies.txt'', t, '':'')) pages) [''http'', ''socks4'']) regex_sources"
  by (simp add: regex_sources_def regexSource_def regexFeedBase_def plain_source_def)

end
