(* ===== verification/Scrapers.thy ===== *)
theory Scrapers
  imports Registry "HOL-Library.Monad_Syntax"
begin

text \<open>
  The scrapers of single sites (\<open>sources/*.go\<close>): what each makes of a page. Regular expressions with more than addresses in them, HTML
  tables, JSON, base64, JavaScript, zip and csv are read by libraries, so the matches, the rows and the records are arguments; a call that panics is
  \<open>Panicked\<close>, as the generator recovers from it.
\<close>

section \<open>Pages and tables\<close>

text \<open>The proxies of a page, if none of them makes \<open>NewProxy\<close> panic.\<close>

definition collect :: "proxy option list \<Rightarrow> call" where
  "collect ps = (case those ps of None \<Rightarrow> Panicked | Some found \<Rightarrow> Returned found None)"

text \<open>A fixed number of two digits, \<open>%02d\<close>.\<close>

definition two_digits :: "nat \<Rightarrow> string" where
  "two_digits i = (if i < 10 then ''0'' else []) @ show_nat i"

text \<open>\<open>tables\<close> is the number of tables in a text. The page of a table is its text here.\<close>

definition newTablePage :: "(string \<Rightarrow> nat) \<Rightarrow> client option \<Rightarrow> string \<Rightarrow> string \<Rightarrow> (feed_error + string \<times> int) option" where
  "newTablePage tables h url expect =
     (case Do \<lparr>fq_URL = url, fq_ExpectInResponse = expect, fq_EmptyBodyValid = False, fq_SkipOnStatus = 0\<rparr> h of
        None \<Rightarrow> None
      | Some (body, serial, Some err) \<Rightarrow> Some (Inl err)
      | Some (body, serial, None) \<Rightarrow>
          if tables body = 0
          then Some (Inl (SourceError (skipError ''no tables found'' [IntEC ''serial'' serial, StrEC ''url'' url])))
          else Some (Inr (body, serial)))"

text \<open>
  A callback over the rows of a table: the proxies it found, and its error, or the error of the table when all rows were
  read. An error of either kind is not retried.
\<close>

fun each_row :: "('r \<Rightarrow> (feed_error + proxy list) option) \<Rightarrow> 'r list \<Rightarrow> feed_error option \<Rightarrow> (proxy list \<times> feed_error option) option" where
  "each_row cb [] final = Some ([], final)"
| "each_row cb (r # rs) final =
     (case cb r of
        None \<Rightarrow> None
      | Some (Inl err) \<Rightarrow> Some ([], Some err)
      | Some (Inr ps) \<Rightarrow> map_option (\<lambda>(found, err). (ps @ found, err)) (each_row cb rs final))"

definition table_feed :: "(string \<Rightarrow> nat) \<Rightarrow> (string \<Rightarrow> 'r list \<times> feed_error option) \<Rightarrow> ('r \<Rightarrow> (feed_error + proxy list) option) \<Rightarrow> client option
    \<Rightarrow> string \<Rightarrow> string \<Rightarrow> call" where
  "table_feed tables rows cb h url expect =
     (case newTablePage tables h url expect of
        None \<Rightarrow> Panicked
      | Some (Inl err) \<Rightarrow> Returned [] (Some err)
      | Some (Inr (body, serial)) \<Rightarrow>
          (case each_row cb (fst (rows body)) (snd (rows body)) of
             None \<Rightarrow> Panicked
           | Some (found, None) \<Rightarrow> Returned found None
           | Some (found, Some err) \<Rightarrow> Returned found (Some (SourceError (skipErr err [IntEC ''serial'' serial, StrEC ''url'' url])))))"

section \<open>Links\<close>

text \<open>A node of HTML: its data, its attributes and its children.\<close>

datatype html = Html (html_data: string) (html_attr: "(string \<times> string) list") (html_children: "html list")

text \<open>
  The links of an \<open>a\<close> node; the search of the node ends at a link without the text, and that of its children with it. \<open>base\<close> is the scheme and
  the host of the page. Taking the first byte of an empty link panics.
\<close>

fun node_links :: "string \<Rightarrow> string \<Rightarrow> (string \<times> string) list \<Rightarrow> (string list \<times> bool) option" where
  "node_links with base [] = Some ([], True)"
| "node_links with base ((k, href) # attrs) =
     (if k \<noteq> ''href'' then node_links with base attrs
      else if \<not> str_contains href with then Some ([], False)
      else if href = [] then None
      else
        let href = (if hd href = CHR ''/'' then base @ href else href)
        in map_option (\<lambda>(links, on). (href # links, on)) (node_links with base attrs))"

fun find_links :: "string \<Rightarrow> string \<Rightarrow> html \<Rightarrow> string list option"
  and find_links_all :: "string \<Rightarrow> string \<Rightarrow> html list \<Rightarrow> string list option" where
  "find_links with base (Html d attr children) =
     (case (if d = ''a'' then node_links with base attr else Some ([], True)) of
        None \<Rightarrow> None
      | Some (links, False) \<Rightarrow> Some links
      | Some (links, True) \<Rightarrow> map_option ((@) links) (find_links_all with base children))"
| "find_links_all with base [] = Some []"
| "find_links_all with base (n # ns) =
     (case find_links with base n of
        None \<Rightarrow> None
      | Some links \<Rightarrow> map_option ((@) links) (find_links_all with base ns))"

definition findLinksWithOn :: "(string \<Rightarrow> html) \<Rightarrow> (string \<Rightarrow> string) \<Rightarrow> client option \<Rightarrow> string \<Rightarrow> string \<Rightarrow> (feed_error + string list) option" where
  "findLinksWithOn parse base h with page =
     (case Do \<lparr>fq_URL = page, fq_ExpectInResponse = with, fq_EmptyBodyValid = False, fq_SkipOnStatus = 0\<rparr> h of
        None \<Rightarrow> None
      | Some (body, serial, Some err) \<Rightarrow> Some (Inl err)
      | Some (body, serial, None) \<Rightarrow> map_option Inr (find_links with (base page) (parse body)))"

section \<open>checkerproxy.net\<close>

record checked_item =
  ci_Addr :: string
  ci_Kind :: int
  ci_Timeout :: int
  ci_Type :: int

definition proxyTypes :: "int \<Rightarrow> string option" where
  "proxyTypes = [1 \<mapsto> ''http'', 2 \<mapsto> ''https'', 4 \<mapsto> ''socks5'']"

definition checked_proxy :: "(string \<Rightarrow> 8 word list option) \<Rightarrow> checked_item \<Rightarrow> proxy option list" where
  "checked_proxy ip6 item =
     (case proxyTypes (ci_Type item) of
        None \<Rightarrow> []
      | Some proxyType \<Rightarrow>
          if ci_Kind item \<noteq> 2 then []
          else if ci_Timeout item > 10000 then []
          else [NewProxy ip6 (ci_Addr item) proxyType])"

text \<open>Only the first archive is loaded; without one the slice of the first panics. \<open>json\<close> reads the items.\<close>

definition checkerProxyURL :: string where
  "checkerProxyURL = ''https://checkerproxy.net/''"

definition checkerProxy :: "(string \<Rightarrow> 8 word list option) \<Rightarrow> (string \<Rightarrow> html) \<Rightarrow> (string \<Rightarrow> string) \<Rightarrow> (string \<Rightarrow> feed_error + checked_item list)
    \<Rightarrow> (string \<Rightarrow> client option) \<Rightarrow> call" where
  "checkerProxy ip6 parse base json h =
     (case findLinksWithOn parse base (h checkerProxyURL) ''/archive'' checkerProxyURL of
        None \<Rightarrow> Panicked
      | Some (Inl err) \<Rightarrow> Returned [] (Some err)
      | Some (Inr []) \<Rightarrow> Panicked
      | Some (Inr (v # vs)) \<Rightarrow>
          (let url = replace_all ''/archive'' ''/api/archive'' v
           in case Do \<lparr>fq_URL = url, fq_ExpectInResponse = [], fq_EmptyBodyValid = False, fq_SkipOnStatus = 0\<rparr> (h url) of
                None \<Rightarrow> Panicked
              | Some (body, serial, Some err) \<Rightarrow> Returned [] (Some err)
              | Some (body, serial, None) \<Rightarrow>
                  (case json body of
                     Inl err \<Rightarrow> Returned [] (Some err)
                   | Inr items \<Rightarrow> collect (concat (map (checked_proxy ip6) items)))))"

section \<open>Pages with encoded addresses\<close>

text \<open>proxy-list.org: each match is an address in base64, of a proxy of both protocols.\<close>

definition proxyListPages :: "string list" where
  "proxyListPages = map (\<lambda>i. ''https://proxy-list.org/english/index.php?p='' @ show_nat i) [1..<11]"

definition proxyListOrg :: "(string \<Rightarrow> 8 word list option) \<Rightarrow> (string \<Rightarrow> string) \<Rightarrow> (string \<Rightarrow> string list) \<Rightarrow> client option \<Rightarrow> string \<Rightarrow> call" where
  "proxyListOrg ip6 b64 matches h url =
     (case Do \<lparr>fq_URL = url, fq_ExpectInResponse = [], fq_EmptyBodyValid = False, fq_SkipOnStatus = 0\<rparr> h of
        None \<Rightarrow> Panicked
      | Some (body, serial, Some err) \<Rightarrow> Returned [] (Some err)
      | Some (body, serial, None) \<Rightarrow>
          collect (concat (map (\<lambda>m. let addr = b64 (trim (\<lambda>c. c = CHR 0x22) m) in [NewProxy ip6 addr ''http'', NewProxy ip6 addr ''https''])
            (matches body))))"

text \<open>hidemy.name: a row has several protocols.\<close>

definition hidemyNamePages :: "string list" where
  "hidemyNamePages = map (\<lambda>i. ''https://hidemy.name/en/proxy-list/?anon=34&start='' @ show_nat (64 * i)) [0..<8]"

definition hidemy_row :: "(string \<Rightarrow> 8 word list option) \<Rightarrow> string \<times> string \<times> string \<Rightarrow> (feed_error + proxy list) option" where
  "hidemy_row ip6 = (\<lambda>(host, port, types).
     map_option Inr (those (map (\<lambda>v. NewProxy ip6 (host @ '':'' @ port) (to_lower (trim space v))) (str_split '','' types))))"

definition hidemyName :: "(string \<Rightarrow> 8 word list option) \<Rightarrow> (string \<Rightarrow> nat) \<Rightarrow> (string \<Rightarrow> (string \<times> string \<times> string) list \<times> feed_error option)
    \<Rightarrow> client option \<Rightarrow> string \<Rightarrow> call" where
  "hidemyName ip6 tables rows h url = table_feed tables rows (hidemy_row ip6) h url ''Online database of proxy lists''"

text \<open>free-proxy.cz: the address is in base64 inside a script; a row that looks otherwise ends the page.\<close>

definition freeProxyCzPages :: "string list" where
  "freeProxyCzPages =
     map (\<lambda>i. ''http://free-proxy.cz/en/proxylist/main/date/'' @ show_nat i) [1..<23] @
     concat (map (\<lambda>country. concat (map (\<lambda>anonlvl. map (\<lambda>protocol.
       ''http://free-proxy.cz/en/proxylist/country/'' @ country @ ''/'' @ protocol @ ''/ping/'' @ anonlvl)
       [''http'', ''https'', ''socks4'', ''socks5'']) [''level1'', ''level2''])) countries)"

definition freeproxy_row :: "(string \<Rightarrow> 8 word list option) \<Rightarrow> (string \<Rightarrow> feed_error + string) \<Rightarrow> string \<times> string \<times> string
    \<Rightarrow> (feed_error + proxy list) option" where
  "freeproxy_row ip6 b64 = (\<lambda>(a, b, c).
     if str_contains a ''window.adsbygoogle'' then Some (Inr [])
     else if str_contains a ''Please try again later'' then Some (Inr [])
     else
       (let enc = str_split [CHR 0x22] a
        in if length enc \<noteq> 3 then Some (Inl (PlainError (''mangled address: '' @ a)))
           else case b64 (enc ! 1) of
             Inl err \<Rightarrow> Some (Inl err)
           | Inr addr \<Rightarrow> map_option (\<lambda>p. Inr [p]) (NewProxy ip6 (addr @ '':'' @ b) (to_lower c))))"

definition freeProxyCz :: "(string \<Rightarrow> 8 word list option) \<Rightarrow> (string \<Rightarrow> feed_error + string) \<Rightarrow> (string \<Rightarrow> nat)
    \<Rightarrow> (string \<Rightarrow> (string \<times> string \<times> string) list \<times> feed_error option) \<Rightarrow> client option \<Rightarrow> string \<Rightarrow> call" where
  "freeProxyCz ip6 b64 tables rows h url = table_feed tables rows (freeproxy_row ip6 b64) h url ''Web Proxy List''"

text \<open>proxynova.com: the address is what a script writes; \<open>js\<close> runs it.\<close>

definition proxynova_row :: "(string \<Rightarrow> 8 word list option) \<Rightarrow> (string \<Rightarrow> string \<times> feed_error option) \<Rightarrow> string \<times> string
    \<Rightarrow> (feed_error + proxy list) option" where
  "proxynova_row ip6 js = (\<lambda>(ip, port).
     if \<not> str_contains ip ''document'' then Some (Inr [])
     else
       (case js ip of
          (proxy, err) \<Rightarrow>
            if proxy = [] then Some (case err of None \<Rightarrow> Inr [] | Some e \<Rightarrow> Inl e)
            else map_option (\<lambda>p. Inr [p]) (HttpProxy ip6 (proxy @ '':'' @ replace_all ''.0'' [] port))))"

definition proxyNovaPages :: "string list" where
  "proxyNovaPages = map (\<lambda>country. ''/country-'' @ to_lower country) countries @ [''/elite-proxies'', ''/anonymous-proxies'']"

definition proxyNova :: "(string \<Rightarrow> 8 word list option) \<Rightarrow> (string \<Rightarrow> string \<times> feed_error option) \<Rightarrow> (string \<Rightarrow> nat)
    \<Rightarrow> (string \<Rightarrow> (string \<times> string) list \<times> feed_error option) \<Rightarrow> client option \<Rightarrow> string \<Rightarrow> call" where
  "proxyNova ip6 js tables rows h path =
     table_feed tables rows (proxynova_row ip6 js) h (''https://proxynova.com/proxy-server-list'' @ path) ''Proxy Server List''"

section \<open>Pages with encoded ports\<close>

text \<open>
  nntime.com: the digits of a port are letters, joined by \<open>+\<close>. \<open>mangles\<close> are the letters with their digits in the order in which
  they are replaced, that of the iteration over a map.
\<close>

definition nntime_port :: "(string \<times> string) list \<Rightarrow> string \<Rightarrow> string" where
  "nntime_port mangles port = replace_all ''+'' [] (fold (\<lambda>(k, v) port. replace_all k v port) mangles port)"

definition newNetTimePage :: "(string \<Rightarrow> 8 word list option) \<Rightarrow> (string \<Rightarrow> (string \<times> string) list) \<Rightarrow> (string \<Rightarrow> (string \<times> string) list)
    \<Rightarrow> client option \<Rightarrow> nat \<Rightarrow> call" where
  "newNetTimePage ip6 mangles mangled h i =
     (case Do \<lparr>fq_URL = ''http://nntime.com/proxy-updated-'' @ two_digits i @ ''.htm'', fq_ExpectInResponse = [], fq_EmptyBodyValid = False,
         fq_SkipOnStatus = 0\<rparr> h of
        None \<Rightarrow> Panicked
      | Some (body, serial, Some err) \<Rightarrow> Returned [] (Some err)
      | Some (body, serial, None) \<Rightarrow>
          collect (map (\<lambda>(ip, port). HttpProxy ip6 (ip @ '':'' @ nntime_port (mangles body) port)) (mangled body)))"

definition nntimePages :: nat where
  "nntimePages = 10"

definition newNetTimeNew :: "(string \<Rightarrow> 8 word list option) \<Rightarrow> (string \<Rightarrow> (string \<times> string) list) \<Rightarrow> (string \<Rightarrow> (string \<times> string) list)
    \<Rightarrow> (nat \<Rightarrow> client option) \<Rightarrow> call list" where
  "newNetTimeNew ip6 mangles mangled h = map (\<lambda>i. newNetTimePage ip6 mangles mangled (h i) i) [1..<Suc nntimePages]"

text \<open>\<open>mustParseInt\<close>: 0 for what is no integer of 32 bits.\<close>

definition mustParseInt :: "string \<Rightarrow> int" where
  "mustParseInt value = (case atoi value of None \<Rightarrow> 0 | Some n \<Rightarrow> if - (2 ^ 31) \<le> n \<and> n < 2 ^ 31 then n else 0)"

text \<open>
  spys.one: names stand for numbers, which later names are made of by exclusive or; a name without a number is 0. The second part of a
  definition with a single \<open>^\<close> is there.
\<close>

definition deMangle_step :: "string \<times> string \<Rightarrow> (string \<Rightarrow> int) \<Rightarrow> string \<Rightarrow> int" where
  "deMangle_step = (\<lambda>(name, digit) deMangle.
     let digit = (if str_contains digit ''^''
           then let sep = str_split ''^'' digit in show_int (xor (mustParseInt (sep ! 0)) (deMangle (sep ! 1))) else digit)
     in deMangle(name := mustParseInt digit))"

definition deMangle :: "(string \<times> string) list \<Rightarrow> string \<Rightarrow> int" where
  "deMangle defs = fold deMangle_step defs (\<lambda>_. 0)"

text \<open>A part of the script that writes a port: two names, whose numbers make a digit; one name only is an index out of range.\<close>

definition spys_digit :: "(string \<Rightarrow> int) \<Rightarrow> string \<Rightarrow> string option" where
  "spys_digit numbers part =
     (let p = trim (\<lambda>c. c = CHR ''('' \<or> c = CHR '')'') (replace_all '')</script>'' [] part);
          labels = str_split ''^'' p
      in if length labels < 2 then None else Some (show_int (xor (numbers (labels ! 0)) (numbers (labels ! 1)))))"

definition spys_port :: "(string \<Rightarrow> int) \<Rightarrow> string \<Rightarrow> string option" where
  "spys_port numbers s = map_option (\<lambda>ds. '':'' @ concat ds) (those (map (spys_digit numbers) (tl (str_split ''+'' s))))"

text \<open>The body is split at the scripts: the texts around them and the scripts themselves.\<close>

fun spys_replace :: "(string \<Rightarrow> int) \<Rightarrow> (string \<times> string) list \<Rightarrow> string \<Rightarrow> string option" where
  "spys_replace numbers [] after = Some after"
| "spys_replace numbers ((pre, script) # parts) after =
     (case spys_port numbers script of
        None \<Rightarrow> None
      | Some port \<Rightarrow> map_option (\<lambda>rest. pre @ port @ rest) (spys_replace numbers parts after))"

definition spysOnePageURL :: string where
  "spysOnePageURL = ''https://spys.one/en/free-proxy-list/''"

definition spysOnePage :: "(string \<Rightarrow> 8 word list option) \<Rightarrow> (string \<Rightarrow> (string \<times> string) list) \<Rightarrow> (string \<Rightarrow> (string \<times> string) list \<times> string)
    \<Rightarrow> client option \<Rightarrow> string \<Rightarrow> (feed_error + proxy list) option" where
  "spysOnePage ip6 mangles scripts h proxyType =
     (case Do \<lparr>fq_URL = spysOnePageURL, fq_ExpectInResponse = ''proxy list'', fq_EmptyBodyValid = False, fq_SkipOnStatus = 0\<rparr> h of
        None \<Rightarrow> None
      | Some (body, serial, Some err) \<Rightarrow> Some (Inl err)
      | Some (body, serial, None) \<Rightarrow>
          (case spys_replace (deMangle (mangles body)) (fst (scripts body)) (snd (scripts body)) of
             None \<Rightarrow> None
           | Some body \<Rightarrow> map_option Inr (extractProxies (\<lambda>proxy. NewProxy ip6 proxy proxyType) body)))"

text \<open>
  \<open>spysOne\<close>: the first page has a token; the pages of the two protocols and two levels are asked for with it, in the order of an iteration over
  a map. An error keeps what was found before it.
\<close>

fun spys_pages :: "(string \<times> string \<Rightarrow> (feed_error + proxy list) option) \<Rightarrow> int \<Rightarrow> (string \<times> string) list \<Rightarrow> proxy list \<Rightarrow> call" where
  "spys_pages page serial [] found = Returned found None"
| "spys_pages page serial (k # ks) found =
     (case page k of
        None \<Rightarrow> Panicked
      | Some (Inl err) \<Rightarrow> Returned found (Some (SourceError (wrapError err [IntEC ''parentSerial'' serial])))
      | Some (Inr new) \<Rightarrow> spys_pages page serial ks (found @ new))"

definition spysOne :: "(string \<Rightarrow> string) \<Rightarrow> (string \<Rightarrow> string \<times> string \<Rightarrow> (feed_error + proxy list) option) \<Rightarrow> string list
    \<Rightarrow> client option \<Rightarrow> call" where
  "spysOne token page types h =
     (case Do \<lparr>fq_URL = spysOnePageURL, fq_ExpectInResponse = ''proxy list'', fq_EmptyBodyValid = False, fq_SkipOnStatus = 0\<rparr> h of
        None \<Rightarrow> Panicked
      | Some (body, serial, Some err) \<Rightarrow> Returned [] (Some err)
      | Some (body, serial, None) \<Rightarrow>
          (let xx0 = token body
           in if xx0 = [] then Returned [] (Some (SourceError (newErr ''cannot find xx0'' [IntEC ''serial'' serial])))
              else spys_pages (page xx0) serial (concat (map (\<lambda>t. [(t, ''3''), (t, ''4'')]) types)) []))"

text \<open>premproxy.com: a port is a name that a script maps to a number; both are read by libraries.\<close>

definition premProxyHttpPages :: "string list" where
  "premProxyHttpPages = map (\<lambda>i. ''https://premproxy.com/list/'' @ two_digits i @ ''.htm'') [1..<6]"

definition premProxySocksPages :: "string list" where
  "premProxySocksPages = map (\<lambda>i. ''https://premproxy.com/socks-list/'' @ two_digits i @ ''.htm'') [1..<14]"

definition prem_addr :: "(string \<rightharpoonup> string) \<Rightarrow> string \<Rightarrow> string option" where
  "prem_addr mapping m =
     (let split = str_split ''|'' m
      in if length split \<noteq> 2 then None
         else case mapping (''.'' @ split ! 1) of None \<Rightarrow> None | Some port \<Rightarrow> Some (split ! 0 @ '':'' @ port))"

definition premproxyHttpPage :: "(string \<Rightarrow> 8 word list option) \<Rightarrow> (string \<Rightarrow> string list) \<Rightarrow> (feed_error + string \<times> (string \<rightharpoonup> string)) option \<Rightarrow> call" where
  "premproxyHttpPage ip6 matches page =
     (case page of
        None \<Rightarrow> Panicked
      | Some (Inl err) \<Rightarrow> Returned [] (Some err)
      | Some (Inr (html, mapping)) \<Rightarrow> collect (map (HttpsProxy ip6) (List.map_filter (prem_addr mapping) (matches html))))"

definition premproxySocksPage :: "(string \<Rightarrow> 8 word list option) \<Rightarrow> (string \<Rightarrow> (string \<times> string) list)
    \<Rightarrow> (feed_error + string \<times> (string \<rightharpoonup> string)) option \<Rightarrow> call" where
  "premproxySocksPage ip6 matches page =
     (case page of
        None \<Rightarrow> Panicked
      | Some (Inl err) \<Rightarrow> Returned [] (Some err)
      | Some (Inr (html, mapping)) \<Rightarrow>
          collect (List.map_filter (\<lambda>(m, t). map_option (\<lambda>addr. NewProxy ip6 addr (to_lower t)) (prem_addr mapping m)) (matches html)))"

text \<open>The mapping of a page: its script is fetched from the host of the page; an error of it is not retried.\<close>

definition premproxyFetchPage :: "(string \<Rightarrow> string option) \<Rightarrow> (string \<Rightarrow> feed_error + (string \<rightharpoonup> string)) \<Rightarrow> (string \<Rightarrow> client option) \<Rightarrow> string
    \<Rightarrow> (feed_error + string \<times> (string \<rightharpoonup> string)) option" where
  "premproxyFetchPage script run h url =
     (case Do \<lparr>fq_URL = url, fq_ExpectInResponse = ''Proxies on this list'', fq_EmptyBodyValid = False, fq_SkipOnStatus = 0\<rparr> (h url) of
        None \<Rightarrow> None
      | Some (body, serial, Some err) \<Rightarrow> Some (Inl err)
      | Some (html, serial, None) \<Rightarrow>
          (let skip = (\<lambda>err. Some (Inl (SourceError (skipErr err [IntEC ''parentSerial'' serial]))))
           in case script html of
                None \<Rightarrow> skip (PlainError ''cannot find script location'')
              | Some loc \<Rightarrow>
                  (let split = str_split ''/'' url
                   in if length split < 3 then None
                      else
                        (let scriptUrl = split ! 0 @ ''//'' @ split ! 2 @ loc
                         in case Do \<lparr>fq_URL = scriptUrl, fq_ExpectInResponse = ''function(p,a,c,k,e,d)'', fq_EmptyBodyValid = False,
                             fq_SkipOnStatus = 0\<rparr> (h scriptUrl) of
                              None \<Rightarrow> None
                            | Some (js, serial, Some err) \<Rightarrow> skip err
                            | Some (js, serial, None) \<Rightarrow>
                                (case run js of
                                   Inl err \<Rightarrow> skip (SourceError (wrapError err [IntEC ''serial'' serial]))
                                 | Inr mapping \<Rightarrow> Some (Inr (html, mapping)))))))"

definition premproxy :: "(string \<Rightarrow> 8 word list option) \<Rightarrow> (string \<Rightarrow> string list) \<Rightarrow> (string \<Rightarrow> (string \<times> string) list) \<Rightarrow> (string \<Rightarrow> string option)
    \<Rightarrow> (string \<Rightarrow> feed_error + (string \<rightharpoonup> string)) \<Rightarrow> (string \<Rightarrow> client option) \<Rightarrow> call list" where
  "premproxy ip6 matches socks script run h =
     map (\<lambda>url. premproxyHttpPage ip6 matches (premproxyFetchPage script run h url)) premProxyHttpPages @
     map (\<lambda>url. premproxySocksPage ip6 socks (premproxyFetchPage script run h url)) premProxySocksPages"

section \<open>Lists that are data\<close>

text \<open>geonode.com: pages of JSON until one is empty. The next page is the one after the page the answer says it is.\<close>

record geoNodeResult =
  gr_IP :: string
  gr_Port :: string
  gr_Protocols :: "string list"
  gr_AnonymityLevel :: string

record geoNodeResultPage =
  gp_Data :: "geoNodeResult list"
  gp_Page :: int

definition IsGood :: "geoNodeResult \<Rightarrow> bool" where
  "IsGood r \<longleftrightarrow> gr_AnonymityLevel r = ''elite'' \<or> gr_AnonymityLevel r = ''anonymous''"

definition geo_Proxies :: "(string \<Rightarrow> 8 word list option) \<Rightarrow> geoNodeResult \<Rightarrow> proxy option list" where
  "geo_Proxies ip6 r = map (NewProxy ip6 (gr_IP r @ '':'' @ gr_Port r)) (gr_Protocols r)"

text \<open>
  The answer to a page is decoded into the answer to the page before it: what it does not have stays; a proxy that panics ends the loop.
  \<open>None\<close> is a loop that does not end.
\<close>

definition geo_page :: "(string \<Rightarrow> 8 word list option) \<Rightarrow> geoNodeResult list \<Rightarrow> proxy list option" where
  "geo_page ip6 data = those (concat (map (geo_Proxies ip6) (filter IsGood data)))"

partial_function (option) geo_loop :: "(string \<Rightarrow> 8 word list option) \<Rightarrow> (int \<Rightarrow> geoNodeResultPage \<Rightarrow> feed_error + geoNodeResultPage)
    \<Rightarrow> int \<Rightarrow> geoNodeResultPage \<Rightarrow> proxy list \<Rightarrow> call option" where
  "geo_loop ip6 fetch page results found =
     (case fetch page results of
        Inl err \<Rightarrow> Some (Returned [] (Some err))
      | Inr results \<Rightarrow>
          if gp_Data results = [] then Some (Returned found None)
          else (case geo_page ip6 (gp_Data results) of
              None \<Rightarrow> Some Panicked
            | Some new \<Rightarrow> geo_loop ip6 fetch (gp_Page results + 1) results (found @ new)))"

definition geoNode :: "(string \<Rightarrow> 8 word list option) \<Rightarrow> (int \<Rightarrow> geoNodeResultPage \<Rightarrow> feed_error + geoNodeResultPage) \<Rightarrow> call option" where
  "geoNode ip6 fetch = geo_loop ip6 fetch 1 \<lparr>gp_Data = [], gp_Page = 0\<rparr> []"

text \<open>fate0: lines of JSON; the first that is none ends the list with an error.\<close>

record fate0line =
  fl_Host :: string
  fl_Port :: int
  fl_Type :: string
  fl_Anonymity :: string

fun fate0_lines :: "(string \<Rightarrow> 8 word list option) \<Rightarrow> (feed_error + fate0line) list \<Rightarrow> proxy option list \<times> feed_error option" where
  "fate0_lines ip6 [] = ([], None)"
| "fate0_lines ip6 (Inl err # ls) = ([], Some err)"
| "fate0_lines ip6 (Inr l # ls) =
     (if fl_Anonymity l = ''transparent'' then fate0_lines ip6 ls
      else case fate0_lines ip6 ls of
        (found, err) \<Rightarrow> (NewProxy ip6 (fl_Host l @ '':'' @ show_int (fl_Port l)) (fl_Type l) # found, err))"

definition fate0 :: "(string \<Rightarrow> 8 word list option) \<Rightarrow> feed_error + (feed_error + fate0line) list option \<Rightarrow> call" where
  "fate0 ip6 resp =
     (case resp of
        Inl err \<Rightarrow> Returned [] (Some err)
      | Inr None \<Rightarrow> Returned [] (Some (PlainError ''body is nil''))
      | Inr (Some ls) \<Rightarrow>
          (case fate0_lines ip6 ls of
             (found, err) \<Rightarrow> (case those found of None \<Rightarrow> Panicked | Some ps \<Rightarrow> Returned ps err)))"

text \<open>megaproxylist.net: records of four fields after a header; a host is an address or is looked up, and one that is not found is left out.\<close>

definition mega_record :: "(string \<Rightarrow> 8 word list option) \<Rightarrow> (string \<Rightarrow> string option) \<Rightarrow> string list \<Rightarrow> proxy option list" where
  "mega_record ip6 getIpAddr rec =
     (if length rec \<noteq> 4 then []
      else case getIpAddr (rec ! 0) of None \<Rightarrow> [] | Some addr \<Rightarrow> [NewProxy ip6 (addr @ '':'' @ rec ! 1) ''http''])"

definition megaproxylist :: "(string \<Rightarrow> 8 word list option) \<Rightarrow> (string \<Rightarrow> string option) \<Rightarrow> feed_error + string list list \<Rightarrow> call" where
  "megaproxylist ip6 getIpAddr csv =
     (case csv of
        Inl err \<Rightarrow> Returned [] (Some err)
      | Inr recs \<Rightarrow> collect (concat (map (mega_record ip6 getIpAddr) recs)))"

text \<open>
  webanetlabs.net: the pages that the site links to this year are searched for addresses and merged; the error of the source is only that
  of the links. The text the pages must have is Russian, in UTF-8.
\<close>

definition webanetURL :: string where
  "webanetURL = ''https://webanetlabs.net/publ/24''"

definition webanet_text :: string where
  "webanet_text = map char_of [0xD0, 0xA1, 0xD0, 0xBF, 0xD0, 0xB8, 0xD1, 0x81, 0xD0, 0xBE, 0xD0, 0xBA, 0x20, 0xD0, 0xBF, 0xD1, 0x80, 0xD0, 0xBE, 0xD0, 0xBA, 0xD1,
     0x81, 0xD0, 0xB8 :: nat]"

definition webanet :: "(string \<Rightarrow> 8 word list option) \<Rightarrow> (string \<Rightarrow> html) \<Rightarrow> (string \<Rightarrow> string) \<Rightarrow> int \<Rightarrow> (string \<Rightarrow> client option)
    \<Rightarrow> (feed_error + call list) option" where
  "webanet ip6 parse base year h =
     (case findLinksWithOn parse base (h webanetURL) (''/proxylist'' @ show_int year) webanetURL of
        None \<Rightarrow> None
      | Some (Inl err) \<Rightarrow> Some (Inl err)
      | Some (Inr recent) \<Rightarrow>
          if recent = [] then Some (Inl (PlainError ''no links found''))
          else Some (Inr (map (\<lambda>page. newRegexPage (h page) page webanet_text (HttpProxy ip6)) recent)))"

section \<open>Ports are read back\<close>

lemma replace_all_char: "replace_all [c] v s = concat (map (\<lambda>x. if x = c then v else [x]) s)"
proof (induction s)
  case Nil
  then show ?case by (simp add: replace_all.simps)
next
  case (Cons x xs)
  show ?case
  proof (cases "x = c")
    case True
    then show ?thesis using Cons by (subst replace_all.simps) simp
  next
    case False
    have "replace_all [c] v (x # xs) = x # replace_all [c] v xs"
      using False by (subst (1 2) replace_all.simps) (auto split: option.split)
    then show ?thesis using Cons False by simp
  qed
qed

text \<open>A letter stands for its digit; a table has letters that are no digits, each once.\<close>

definition decode :: "(char \<times> nat) list \<Rightarrow> char \<Rightarrow> char" where
  "decode table x = (case map_of table x of None \<Rightarrow> x | Some d \<Rightarrow> digit_char d)"

definition letters_only :: "(char \<times> nat) list \<Rightarrow> bool" where
  "letters_only table \<longleftrightarrow> distinct (map fst table) \<and> (\<forall>(c, d) \<in> set table. char_digit c = None \<and> c \<noteq> CHR ''+'' \<and> d < 10)"

lemma decode_all:
  assumes "letters_only table"
  shows "fold (\<lambda>(k, v) port. replace_all k v port) (map (\<lambda>(c, d). ([c], [digit_char d])) table) s = map (decode table) s"
  using assms
proof (induction table arbitrary: s)
  case Nil
  then show ?case by (simp add: decode_def)
next
  case (Cons t table)
  obtain c d where t: "t = (c, d)" by fastforce
  have ok: "letters_only table" using Cons.prems by (simp add: letters_only_def)
  have "digit_char d \<notin> fst ` set table"
  proof
    assume "digit_char d \<in> fst ` set table"
    then obtain e where "(digit_char d, e) \<in> set table" by auto
    with ok have "char_digit (digit_char d) = None" by (auto simp: letters_only_def)
    with Cons.prems t show False by (simp add: letters_only_def)
  qed
  then have "map_of table (digit_char d) = None" by (simp add: map_of_eq_None_iff)
  moreover have "replace_all [c] [digit_char d] s = map (\<lambda>x. if x = c then digit_char d else x) s"
    by (simp add: replace_all_char) (induction s, auto)
  ultimately show ?case by (simp add: t Cons.IH [OF ok] decode_def fun_eq_iff)
qed

lemma concat_keep: "concat (map (\<lambda>x. if x = c then [] else [x]) s) = filter (\<lambda>x. x \<noteq> c) s"
  by (induction s) auto

text \<open>A port of nntime.com is read back, in whatever order the letters are replaced.\<close>

lemma nntime_port_read:
  assumes "letters_only table" and "set letters \<subseteq> fst ` set table" and "mset table' = mset table"
  shows "nntime_port (map (\<lambda>(c, d). ([c], [digit_char d])) table') (concat (map (\<lambda>l. [CHR ''+'', l]) letters)) =
    map (\<lambda>l. digit_char (the (map_of table l))) letters"
proof -
  have "mset (map fst table') = mset (map fst table)" using assms(3) by simp
  then have "distinct (map fst table')" using assms(1) mset_eq_imp_distinct_iff letters_only_def by blast
  then have ok: "letters_only table'" using assms(1) mset_eq_setD [OF assms(3)] by (simp add: letters_only_def)
  have same: "map_of table' = map_of table"
    using assms(1) ok mset_eq_setD [OF assms(3)] by (intro map_of_inject_set [THEN iffD2]) (simp_all add: letters_only_def)
  have dig: "map_of table l = Some d \<Longrightarrow> d < 10" for l d using assms(1) map_of_SomeD [of table l d] by (auto simp: letters_only_def)
  have "map_of table CHR ''+'' = None" using assms(1) by (auto simp: letters_only_def map_of_eq_None_iff)
  then have plus: "decode table' CHR ''+'' = CHR ''+''" by (simp add: decode_def same)
  have "filter (\<lambda>x. x \<noteq> CHR ''+'') (map (decode table') (concat (map (\<lambda>l. [CHR ''+'', l]) letters))) = map (\<lambda>l. digit_char (the (map_of table l))) letters"
    using assms(2)
  proof (induction letters)
    case (Cons l ls)
    then obtain d where d: "map_of table l = Some d" by (metis list.set_intros(1) map_of_eq_None_iff not_None_eq subsetD)
    have "digit_char d \<noteq> CHR ''+''" using digit_char_neq [OF dig [OF d], of "CHR ''+''"] by (simp add: char_digit_def)
    with Cons d show ?case by (simp add: plus) (simp add: decode_def same)
  qed simp
  then show ?thesis by (simp only: nntime_port_def decode_all [OF ok] replace_all_char concat_keep)
qed

section \<open>Lists with pages\<close>

text \<open>A server that has the pages and answers an empty one after them.\<close>

definition serves :: "(int \<Rightarrow> geoNodeResultPage \<Rightarrow> feed_error + geoNodeResultPage) \<Rightarrow> geoNodeResult list list \<Rightarrow> bool" where
  "serves fetch pages \<longleftrightarrow> (\<forall>data \<in> set pages. data \<noteq> []) \<and>
     (\<forall>i before. i \<le> length pages \<longrightarrow>
       fetch (int i + 1) before = Inr \<lparr>gp_Data = (if i < length pages then pages ! i else []), gp_Page = int i + 1\<rparr>)"

lemma those_append: "those (xs @ ys) = (case those xs of None \<Rightarrow> None | Some a \<Rightarrow> map_option ((@) a) (those ys))"
proof (induction xs)
  case Nil
  have "(@) [] = (\<lambda>ys :: 'a list. ys)" by auto
  then show ?case by (simp add: option.map_ident)
next
  case (Cons x xs)
  then show ?case by (cases x; cases "those xs"; cases "those ys") simp_all
qed

lemma geo_page_append: "geo_page ip6 (xs @ ys) = (case geo_page ip6 xs of None \<Rightarrow> None | Some a \<Rightarrow> map_option ((@) a) (geo_page ip6 ys))"
  by (simp add: geo_page_def [of ip6 xs] geo_page_def [of ip6 ys] geo_page_def [of ip6 "xs @ ys"] those_append cong: option.case_cong)

lemma geo_loop_from:
  assumes "serves fetch pages"
  shows "i \<le> length pages \<Longrightarrow> geo_loop ip6 fetch (int i + 1) before found =
    Some (case geo_page ip6 (concat (drop i pages)) of None \<Rightarrow> Panicked | Some new \<Rightarrow> Returned (found @ new) None)"
proof (induction "length pages - i" arbitrary: i before found)
  case 0
  then have "i = length pages" by simp
  with assms show ?case by (subst geo_loop.simps) (simp add: serves_def geo_page_def)
next
  case (Suc n)
  then have i: "i < length pages" "n = length pages - Suc i" by simp_all
  have "fetch (int i + 1) before = Inr \<lparr>gp_Data = pages ! i, gp_Page = int i + 1\<rparr>" "pages ! i \<noteq> []"
    using assms i(1) by (simp_all add: serves_def)
  moreover have "drop i pages = pages ! i # drop (Suc i) pages" using i(1) by (simp add: Cons_nth_drop_Suc)
  ultimately show ?case
    using Suc.hyps(1) [OF i(2)] i(1)
    by (subst geo_loop.simps) (auto simp: geo_page_append ac_simps split: option.split)
qed

text \<open>A server that always says it answered the same page with something on it keeps the loop for ever.\<close>

lemma geo_loop_stuck:
  assumes "\<And>before. fetch page before = Inr \<lparr>gp_Data = data, gp_Page = page - 1\<rparr>" and "data \<noteq> []" and "geo_page ip6 data \<noteq> None"
  shows "geo_loop ip6 fetch page before found = None"
proof -
  have never: "i6 = ip6 \<longrightarrow> f = fetch \<longrightarrow> pg = page \<longrightarrow> False" if "geo_loop i6 f pg before found = Some r" for i6 f pg r
    using that
  proof (rule geo_loop.raw_induct [where P = "\<lambda>i6 f pg before found r. i6 = ip6 \<longrightarrow> f = fetch \<longrightarrow> pg = page \<longrightarrow> False", rotated])
    fix loop i6 f pg before found r
    assume IH: "\<And>i6 f pg before found r. loop i6 f pg before found = Some r \<Longrightarrow> i6 = ip6 \<longrightarrow> f = fetch \<longrightarrow> pg = page \<longrightarrow> False"
      and step: "(case f pg before of Inl err \<Rightarrow> Some (Returned [] (Some err))
        | Inr results \<Rightarrow> if gp_Data results = [] then Some (Returned found None)
            else (case geo_page i6 (gp_Data results) of None \<Rightarrow> Some Panicked
              | Some new \<Rightarrow> loop i6 f (gp_Page results + 1) results (found @ new))) = Some r"
    show "i6 = ip6 \<longrightarrow> f = fetch \<longrightarrow> pg = page \<longrightarrow> False"
      using IH [of ip6 fetch page] step assms by fastforce
  qed
  show ?thesis using never [of ip6 fetch page] by (cases "geo_loop ip6 fetch page before found") auto
qed

text \<open>
  C25. The list of geonode.com is read to its end: from a server that has its pages in order and an empty one after them, the source gets
  the good proxies of every page, in order, and the loop ends.
\<close>

theorem geonode_reads_all:
  assumes "serves fetch pages"
  shows "geoNode ip6 fetch = Some (collect (concat (map (geo_Proxies ip6) (filter IsGood (concat pages)))))"
  using geo_loop_from [OF assms, of 0 ip6 _ "[]"] by (simp add: geoNode_def collect_def geo_page_def cong: option.case_cong)

theorem geonode_reads_all_witness:
  "geoNode (\<lambda>_. None) (\<lambda>page before. Inr \<lparr>gp_Data = (if page = 1 then [\<lparr>gr_IP = ''x'', gr_Port = [], gr_Protocols = [''http''],
       gr_AnonymityLevel = ''elite''\<rparr>] else []), gp_Page = page\<rparr>) = Some (Returned [0] None)"
proof -
  let ?r = "\<lparr>gr_IP = ''x'', gr_Port = [], gr_Protocols = [''http''], gr_AnonymityLevel = ''elite''\<rparr>"
  have s: "serves (\<lambda>page before. Inr \<lparr>gp_Data = (if page = 1 then [?r] else []), gp_Page = page\<rparr>) [[?r]]"
    by (auto simp: serves_def le_Suc_eq)
  have "NewProxy (\<lambda>_. None) ''x:'' ''http'' = Some 0" by (simp add: NewProxy_def parse_addr_port_def cut_last_def)
  then show ?thesis using geonode_reads_all [OF s, of "\<lambda>_. None"] by (simp add: IsGood_def geo_Proxies_def collect_def)
qed

end
