(* ===== verification/Dialer.thy ===== *)
theory Dialer
  imports Pmux Config
begin

text \<open>
  The WireGuard dialer: the reader of ini files (\<open>dialer/ini/ini.go\<close>) and what \<open>dialer/dialer.go\<close> makes of one, the addresses of the tunnel and the text
  that configures its device. The file, the tunnel device and the parser of IPv6 addresses are arguments; files are ASCII text.
\<close>

section \<open>Ini files\<close>

type_synonym ini = "string \<rightharpoonup> (string \<rightharpoonup> string)"

text \<open>The lines of \<open>bufio.Scanner\<close>, with a line that does not fit its buffer.\<close>

definition scan_lines :: "string \<Rightarrow> string list" where
  "scan_lines s = (let ls = str_split [CHR 0x0A] s in if last ls = [] then butlast ls else ls)"

definition max_token :: nat where
  "max_token = 65536"

text \<open>One line, with the sections so far and the name of the current one. That section is always there.\<close>

definition ini_line :: "string \<Rightarrow> ini \<times> string \<Rightarrow> string + ini \<times> string" where
  "ini_line raw = (\<lambda>(cfg, current).
     let line = trim space raw
     in if line = [] \<or> hd line = CHR '';'' \<or> hd line = CHR ''#'' then Inr (cfg, current)
        else if hd line = CHR ''['' \<and> last line = CHR '']''
        then (let current = butlast (tl line) in Inr (cfg(current \<mapsto> Map.empty), current))
        else case cut_first ''='' line of
               None \<Rightarrow> Inl (''invalid line: '' @ line)
             | Some (key, v) \<Rightarrow>
                 if key = [] then Inl (''invalid line: '' @ line)
                 else if current = [] then Inr (cfg, current)
                 else Inr (cfg(current := map_option (\<lambda>m. m(trim space key \<mapsto> trim space v)) (cfg current)), current))"

fun ini_lines :: "string list \<Rightarrow> ini \<times> string \<Rightarrow> string + ini" where
  "ini_lines [] s = Inr (fst s)"
| "ini_lines (l # ls) s =
     (if max_token \<le> length l then Inl ''bufio.Scanner: token too long''
      else case ini_line l s of Inl err \<Rightarrow> Inl err | Inr s \<Rightarrow> ini_lines ls s)"

text \<open>\<open>file\<close> is the error of opening the file, or its text.\<close>

definition ParseINI :: "string + string \<Rightarrow> string + ini" where
  "ParseINI file = (case file of Inl err \<Rightarrow> Inl err | Inr s \<Rightarrow> ini_lines (scan_lines s) (Map.empty, []))"

text \<open>Reading a key of a map of maps.\<close>

definition ini_get :: "ini \<Rightarrow> string \<Rightarrow> string \<Rightarrow> string" where
  "ini_get conf section key =
     (case conf section of None \<Rightarrow> [] | Some m \<Rightarrow> (case m key of None \<Rightarrow> [] | Some v \<Rightarrow> v))"

section \<open>Addresses\<close>




section \<open>Keys\<close>









section \<open>The dialer\<close>







section \<open>A printed file is read back\<close>

text \<open>Sections with their keys, as they are written; of two sections of one name the last counts, and of two equal keys too.\<close>

type_synonym sections = "(string \<times> (string \<times> string) list) list"

definition show_section :: "string \<times> (string \<times> string) list \<Rightarrow> string list" where
  "show_section = (\<lambda>(name, kvs). (''['' @ name @ '']'') # map (\<lambda>(k, v). k @ ''='' @ v) kvs)"

definition show_ini :: "sections \<Rightarrow> string" where
  "show_ini secs = concat (map (\<lambda>l. l @ [CHR 0x0A]) (concat (map show_section secs)))"

definition ini_of :: "sections \<Rightarrow> ini" where
  "ini_of secs = fold (\<lambda>(name, kvs) cfg. cfg(name \<mapsto> map_of (rev kvs))) secs Map.empty"

definition plain_line :: "string \<Rightarrow> bool" where
  "plain_line l \<longleftrightarrow> CHR 0x0A \<notin> set l \<and> length l < max_token"

definition plain_pair :: "string \<times> string \<Rightarrow> bool" where
  "plain_pair = (\<lambda>(k, v). k \<noteq> [] \<and> \<not> space (hd k) \<and> \<not> space (last k) \<and> hd k \<notin> {CHR '';'', CHR ''#'', CHR ''[''} \<and> CHR ''='' \<notin> set k \<and>
     (v = [] \<or> \<not> space (hd v) \<and> \<not> space (last v)))"

definition printable :: "sections \<Rightarrow> bool" where
  "printable secs \<longleftrightarrow> list_all plain_line (concat (map show_section secs)) \<and>
     list_all (\<lambda>(name, kvs). name \<noteq> [] \<and> list_all plain_pair kvs) secs"

lemma scan_lines_show: "list_all plain_line ls \<Longrightarrow> scan_lines (concat (map (\<lambda>l. l @ [CHR 0x0A]) ls)) = ls"
proof -
  assume "list_all plain_line ls"
  then have "str_split [CHR 0x0A] (concat (map (\<lambda>l. l @ [CHR 0x0A]) ls)) = ls @ [[]]"
  proof (induction ls)
    case Nil
    then show ?case by (simp add: str_split_none)
  next
    case (Cons l ls)
    then have "CHR 0x0A \<notin> set l" by (simp add: plain_line_def)
    from str_split_here [OF this, of "[]"] Cons show ?case by simp
  qed
  then show ?thesis by (simp add: scan_lines_def)
qed

lemma ini_line_section: "ini_line (''['' @ name @ '']'') (cfg, current) = Inr (cfg(name \<mapsto> Map.empty), name)"
proof -
  have "trim space (''['' @ name @ '']'') = ''['' @ name @ '']''" by (rule trim_id) (simp add: space_def)
  then show ?thesis by (simp add: ini_line_def butlast_append)
qed

lemma ini_line_pair:
  assumes "plain_pair (k, v)" and "current \<noteq> []" and "cfg current = Some m"
  shows "ini_line (k @ ''='' @ v) (cfg, current) = Inr (cfg(current \<mapsto> m(k \<mapsto> v)), current)"
proof -
  have k: "k \<noteq> []" "trim space k = k" "trim space v = v" "CHR ''='' \<notin> set k" "hd k \<notin> {CHR '';'', CHR ''#'', CHR ''[''}"
    using assms(1) by (auto simp: plain_pair_def intro!: trim_id)
  have "last (k @ ''='' @ v) = (if v = [] then CHR ''='' else last v)" by simp
  then have "trim space (k @ ''='' @ v) = k @ ''='' @ v"
    using assms(1) by (intro trim_id) (auto simp: plain_pair_def space_def)
  moreover have "cut_first ''='' (k @ ''='' @ v) = Some (k, v)" using k(4) by (rule cut_first_here)
  ultimately show ?thesis using k assms(2,3) by (simp add: ini_line_def)
qed

lemma ini_lines_pairs:
  assumes "list_all plain_line (map (\<lambda>(k, v). k @ ''='' @ v) kvs)" and "list_all plain_pair kvs" and "current \<noteq> []" and "cfg current = Some m"
  shows "ini_lines (map (\<lambda>(k, v). k @ ''='' @ v) kvs @ ls) (cfg, current) = ini_lines ls (cfg(current \<mapsto> m ++ map_of (rev kvs)), current)"
  using assms
proof (induction kvs arbitrary: cfg m)
  case Nil
  then show ?case by (simp add: fun_upd_idem)
next
  case (Cons kv kvs)
  obtain k v where kv: "kv = (k, v)" by fastforce
  have "\<not> max_token \<le> length (k @ ''='' @ v)" using Cons.prems(1) by (simp add: kv plain_line_def)
  moreover have "ini_line (k @ ''='' @ v) (cfg, current) = Inr (cfg(current \<mapsto> m(k \<mapsto> v)), current)"
    using Cons.prems by (intro ini_line_pair) (simp_all add: kv)
  ultimately have "ini_lines (map (\<lambda>(k, v). k @ ''='' @ v) (kv # kvs) @ ls) (cfg, current) =
      ini_lines (map (\<lambda>(k, v). k @ ''='' @ v) kvs @ ls) (cfg(current \<mapsto> m(k \<mapsto> v)), current)"
    by (simp add: kv)
  also have "\<dots> = ini_lines ls ((cfg(current \<mapsto> m(k \<mapsto> v)))(current \<mapsto> m(k \<mapsto> v) ++ map_of (rev kvs)), current)"
    using Cons.prems by (intro Cons.IH fun_upd_same) (simp_all add: kv)
  also have "m(k \<mapsto> v) ++ map_of (rev kvs) = m ++ map_of (rev (kv # kvs))"
    by (rule ext) (simp add: kv map_of_append map_add_def split: option.split)
  finally show ?case by (simp only: fun_upd_upd)
qed

lemma ini_lines_sections:
  assumes "list_all plain_line (concat (map show_section secs))" and "list_all (\<lambda>(name, kvs). name \<noteq> [] \<and> list_all plain_pair kvs) secs"
  shows "ini_lines (concat (map show_section secs)) (cfg, current) = Inr (fold (\<lambda>(name, kvs) cfg. cfg(name \<mapsto> map_of (rev kvs))) secs cfg)"
  using assms
proof (induction secs arbitrary: cfg current)
  case (Cons sec secs)
  obtain name kvs where sec: "sec = (name, kvs)" by fastforce
  have "\<not> max_token \<le> length (''['' @ name @ '']'')" using Cons.prems(1) by (simp add: sec show_section_def plain_line_def)
  moreover note ini_line_section [of name cfg current]
  moreover have "ini_lines (map (\<lambda>(k, v). k @ ''='' @ v) kvs @ concat (map show_section secs)) (cfg(name \<mapsto> Map.empty), name) =
      ini_lines (concat (map show_section secs)) (cfg(name \<mapsto> map_of (rev kvs)), name)"
    using Cons.prems ini_lines_pairs [of kvs name "cfg(name \<mapsto> Map.empty)" Map.empty] by (simp add: sec show_section_def)
  ultimately show ?case using Cons by (simp add: sec show_section_def)
qed simp

text \<open>
  An ini file that is printed from named sections of keys and values, without white space around them, is read back as these sections:
  of two sections of the same name the later one replaces the earlier, and of two equal keys of a section the later one counts.
\<close>

theorem ini_read_back:
  assumes "printable secs"
  shows "ParseINI (Inr (show_ini secs)) = Inr (ini_of secs)"
proof -
  have "scan_lines (show_ini secs) = concat (map show_section secs)"
    unfolding show_ini_def using assms by (intro scan_lines_show) (simp add: printable_def)
  moreover have "ini_lines (concat (map show_section secs)) (Map.empty, []) = Inr (ini_of secs)"
    unfolding ini_of_def using assms by (intro ini_lines_sections) (simp_all add: printable_def)
  ultimately show ?thesis by (simp only: ParseINI_def sum.case)
qed

definition two_peers :: sections where
  "two_peers = [(''Peer'', [(''Endpoint'', ''a:1''), (''PublicKey'', ''AA='')]), (''Peer'', [(''Endpoint'', ''b:2'')])]"

theorem ini_read_back_witness:
  "\<exists>conf. ParseINI (Inr (show_ini two_peers)) = Inr conf \<and> ini_get conf ''Peer'' ''Endpoint'' = ''b:2'' \<and> ini_get conf ''Peer'' ''PublicKey'' = []"
proof -
  have p: "printable two_peers"
    by (simp add: printable_def two_peers_def show_section_def plain_line_def plain_pair_def max_token_def space_def)
  have "ini_get (ini_of two_peers) ''Peer'' ''Endpoint'' = ''b:2'' \<and> ini_get (ini_of two_peers) ''Peer'' ''PublicKey'' = []"
    by (simp add: ini_of_def two_peers_def ini_get_def)
  with ini_read_back [OF p] show ?thesis by blast
qed

text \<open>A key before the first section is read and forgotten.\<close>

lemma key_without_section:
  assumes "plain_pair (k, v)"
  shows "ini_line (k @ ''='' @ v) (cfg, []) = Inr (cfg, [])"
proof -
  have "last (k @ ''='' @ v) = (if v = [] then CHR ''='' else last v)" by simp
  then have "trim space (k @ ''='' @ v) = k @ ''='' @ v"
    using assms by (intro trim_id) (auto simp: plain_pair_def space_def)
  moreover have "cut_first ''='' (k @ ''='' @ v) = Some (k, v)" using assms by (intro cut_first_here) (simp add: plain_pair_def)
  ultimately show ?thesis using assms by (simp add: ini_line_def plain_pair_def)
qed

section \<open>The tunnel of a file\<close>

























end
