(* ===== verification/Wiring.thy ===== *)
theory Wiring
  imports Fabric "HOL-Library.Multiset"
begin

text \<open>
  The program as \<open>main.go\<close> wires it: its factories with the types they take and give, and the server and the fabric that \<open>Fabric.Start\<close> adds.
  What a factory makes of its arguments is an argument; only the factory of the certificates can fail.
\<close>

section \<open>Types\<close>

text \<open>The types of the factories; the last six are interfaces.\<close>

datatype go_type = CertWrapper | BlacklistDashboard | Dashboard | WireGuardDialer | History | Lookup | MitmProxyServer | Pool | Probe | Refresher
  | ReverifyDashboard | Stats | SpaFS | MainServer | Fabric
  | Checker | CheckerDialer | PoolDialer | IpInfoGetter | ProbeContract | Error

definition interfaces :: "go_type list" where
  "interfaces = [Checker, CheckerDialer, PoolDialer, IpInfoGetter, ProbeContract, Error]"

text \<open>Which results of factories have the methods of which interfaces.\<close>

definition implementations :: "(go_type \<times> go_type) list" where
  "implementations =
     [(Checker, Checker), (WireGuardDialer, CheckerDialer), (WireGuardDialer, PoolDialer), (Lookup, IpInfoGetter), (Probe, ProbeContract)]"

definition is_interface :: "go_type \<Rightarrow> bool" where
  "is_interface ty \<longleftrightarrow> ty \<in> set interfaces"

definition implements :: "go_type \<Rightarrow> go_type \<Rightarrow> bool" where
  "implements out ty \<longleftrightarrow> (out, ty) \<in> set implementations"

section \<open>Factories\<close>

text \<open>The factories of \<open>main\<close>, by name: what each gives and takes.\<close>

definition main_table :: "(string \<times> go_type \<times> go_type list) list" where
  "main_table =
     [(''ca'', CertWrapper, []),
      (''blacklist'', BlacklistDashboard, [Probe, Lookup]),
      (''checker'', Checker, [CheckerDialer]),
      (''dashboard'', Dashboard, [Refresher, Probe, Stats]),
      (''dialer'', WireGuardDialer, []),
      (''history'', History, []),
      (''ipinfo'', Lookup, []),
      (''mitm'', MitmProxyServer, [Pool, CertWrapper]),
      (''pool'', Pool, [History, IpInfoGetter, PoolDialer]),
      (''probe'', Probe, [Stats, Pool, Checker]),
      (''refresher'', Refresher, [Stats, Pool, ProbeContract]),
      (''reverify'', ReverifyDashboard, [Probe, Lookup]),
      (''stats'', Stats, []),
      (''ui'', SpaFS, [MainServer])]"

text \<open>\<open>Fabric.Start\<close> adds the server and itself.\<close>

definition start_table :: "(string \<times> go_type \<times> go_type list) list" where
  "start_table = main_table @ [(''server'', MainServer, [Fabric]), (''fabric'', Fabric, [])]"

definition result_types :: "string \<Rightarrow> go_type \<Rightarrow> go_type list" where
  "result_types k out = (if k = ''ca'' then [out, Error] else [out])"

text \<open>\<open>build k\<close> is what the factory \<open>k\<close> makes of its arguments, \<open>ca\<close> the certificates or their error.\<close>

definition call_of :: "'v \<times> string option \<Rightarrow> (string \<Rightarrow> 'v list \<Rightarrow> 'v) \<Rightarrow> string \<Rightarrow> 'v list \<Rightarrow> 'v \<times> string option" where
  "call_of ca build k args = (if k = ''ca'' then ca else (build k args, None))"

definition factories_of :: "'v \<times> string option \<Rightarrow> (string \<Rightarrow> 'v list \<Rightarrow> 'v) \<Rightarrow> (string \<times> go_type \<times> go_type list) list \<Rightarrow> (string \<times> (go_type, 'v) factory) list" where
  "factories_of ca build tbl = map (\<lambda>(k, out, ins). (k, Func (result_types k out) ins (call_of ca build k))) tbl"

section \<open>What each factory gets\<close>

text \<open>The factories whose instances are the arguments.\<close>

fun suppliers :: "string \<Rightarrow> string list" where
  "suppliers k =
     (if k = ''blacklist'' \<or> k = ''reverify'' then [''probe'', ''ipinfo'']
      else if k = ''checker'' then [''dialer'']
      else if k = ''dashboard'' then [''refresher'', ''probe'', ''stats'']
      else if k = ''mitm'' then [''pool'', ''ca'']
      else if k = ''pool'' then [''history'', ''ipinfo'', ''dialer'']
      else if k = ''probe'' then [''stats'', ''pool'', ''checker'']
      else if k = ''refresher'' then [''stats'', ''pool'', ''probe'']
      else if k = ''ui'' then [''server'']
      else if k = ''server'' then [''fabric'']
      else [])"

declare suppliers.simps [simp del]

text \<open>One order in which everything comes after what it gets.\<close>

definition layers :: "string list" where
  "layers = [''ca'', ''dialer'', ''history'', ''ipinfo'', ''stats'', ''fabric'', ''checker'', ''pool'', ''probe'', ''refresher'', ''server'', ''ui'', ''mitm'',
     ''blacklist'', ''reverify'', ''dashboard'']"

definition rank :: "string \<Rightarrow> nat" where
  "rank k = length (takeWhile (\<lambda>x. x \<noteq> k) layers)"

definition fits :: "go_type \<Rightarrow> go_type \<Rightarrow> bool" where
  "fits out ty \<longleftrightarrow> is_interface ty \<and> implements out ty \<or> out = ty"

text \<open>Every type is given by one factory, the supplier, and suppliers have a lower rank.\<close>

lemma table_checked:
  "distinct (map fst start_table)"
  "list_all (\<lambda>(k, out, ins). map (\<lambda>ty. map fst (filter (\<lambda>(o', out', ins'). fits out' ty) start_table)) ins = map (\<lambda>o'. [o']) (suppliers k)) start_table"
  "list_all (\<lambda>(k, out, ins). list_all (\<lambda>o'. rank o' < rank k) (suppliers k)) start_table"
  "length start_table = 16"
  by code_simp+

section \<open>The wiring of the program\<close>

definition deps_of :: "'v \<times> string option \<Rightarrow> (string \<Rightarrow> 'v list \<Rightarrow> 'v) \<Rightarrow> (string \<times> go_type \<times> go_type list) list \<Rightarrow> (go_type, 'v) dependencies" where
  "deps_of ca build tbl =
     (\<lambda>k. case map_of tbl k of None \<Rightarrow> None | Some (out, ins) \<Rightarrow> Some \<lparr>Out = out, In = ins, Call = call_of ca build k\<rparr>)"

lemma collect_of:
  "distinct (map fst tbl) \<Longrightarrow> collect_dependencies (factories_of ca build tbl) m =
     Some (Inr (\<lambda>k. case deps_of ca build tbl k of None \<Rightarrow> m k | Some d \<Rightarrow> Some d))"
proof (induction tbl arbitrary: m)
  case Nil
  then show ?case by (simp add: factories_of_def deps_of_def)
next
  case (Cons t tbl)
  obtain k out ins where t: "t = (k, out, ins)" by (cases t) auto
  have none: "map_of tbl k = None" using Cons.prems by (simp add: t map_of_eq_None_iff)
  have step: "collect_dependencies (factories_of ca build (t # tbl)) m =
      collect_dependencies (factories_of ca build tbl) (m(k \<mapsto> \<lparr>Out = out, In = ins, Call = call_of ca build k\<rparr>))"
    by (simp add: t factories_of_def result_types_def)
  have "distinct (map fst tbl)" using Cons.prems by simp
  note IH = Cons.IH [OF this]
  show ?case
    unfolding step IH by (rule arg_cong [of _ _ "\<lambda>x. Some (Inr x)"], rule ext) (auto simp: t deps_of_def none split: option.split)
qed

lemma deps_of_Some:
  assumes "distinct (map fst tbl)"
  shows "deps_of ca build tbl k = Some d \<longleftrightarrow> (\<exists>out ins. (k, out, ins) \<in> set tbl \<and> d = \<lparr>Out = out, In = ins, Call = call_of ca build k\<rparr>)"
  by (auto simp: deps_of_def map_of_eq_Some_iff [OF assms, symmetric] split: option.splits)

lemma dom_deps_of: "distinct (map fst tbl) \<Longrightarrow> dom (deps_of ca build tbl) = fst ` set tbl"
  by (force simp: dom_def deps_of_Some)

lemma provides_of:
  assumes "distinct (map fst tbl)"
  shows "provides is_interface implements (deps_of ca build tbl) o' ty \<longleftrightarrow> (\<exists>out ins. (o', out, ins) \<in> set tbl \<and> fits out ty)"
proof -
  have "provides is_interface implements (deps_of ca build tbl) o' ty \<longleftrightarrow> (\<exists>out ins. map_of tbl o' = Some (out, ins) \<and> fits out ty)"
    by (cases "map_of tbl o'") (auto simp: provides_def deps_of_def matches_def fits_def)
  then show ?thesis by (simp only: map_of_eq_Some_iff [OF assms])
qed

lemma in_filter_fst: "o' \<in> set (map fst (filter (\<lambda>(o', out, ins). P out) tbl)) \<longleftrightarrow> (\<exists>out ins. (o', out, ins) \<in> set tbl \<and> P out)"
  by (induction tbl) (auto simp: ex_disj_distrib conj_disj_distribR)

text \<open>The arguments of a factory are given by its suppliers and by nothing else.\<close>

lemma supplied:
  assumes "(k, out, ins) \<in> set start_table"
  shows "length ins = length (suppliers k)"
    and "i < length ins \<Longrightarrow> provides is_interface implements (deps_of ca build start_table) o' (ins ! i) \<longleftrightarrow> o' = suppliers k ! i"
proof -
  have m: "map (\<lambda>ty. map fst (filter (\<lambda>(o', out', ins'). fits out' ty) start_table)) ins = map (\<lambda>o'. [o']) (suppliers k)"
    using table_checked(2) assms unfolding list_all_iff by blast
  show len: "length ins = length (suppliers k)" using arg_cong [OF m, of length] by (simp only: length_map)
  assume i: "i < length ins"
  have "map fst (filter (\<lambda>(o', out', ins'). fits out' (ins ! i)) start_table) = [suppliers k ! i]"
    using arg_cong [OF m, of "\<lambda>xs. xs ! i"] i len by (simp only: nth_map)
  then have "(\<exists>out ins'. (o', out, ins') \<in> set start_table \<and> fits out (ins ! i)) \<longleftrightarrow> o' = suppliers k ! i"
    unfolding in_filter_fst [symmetric] by (simp only: list.set) blast
  then show "provides is_interface implements (deps_of ca build start_table) o' (ins ! i) \<longleftrightarrow> o' = suppliers k ! i"
    by (simp only: provides_of [OF table_checked(1)])
qed

lemma inputs_of: "(k, out, ins) \<in> set start_table \<Longrightarrow> inputs (deps_of ca build start_table) k = ins"
proof -
  assume "(k, out, ins) \<in> set start_table"
  then have "deps_of ca build start_table k = Some \<lparr>Out = out, In = ins, Call = call_of ca build k\<rparr>"
    unfolding deps_of_Some [OF table_checked(1)] by blast
  then show ?thesis by (simp add: inputs_def)
qed

lemma needed_of:
  assumes "(k, out, ins) \<in> set start_table"
  shows "needed (provides is_interface implements (deps_of ca build start_table)) (deps_of ca build start_table) k = set (suppliers k)"
proof (rule set_eqI)
  fix o'
  let ?prov = "provides is_interface implements (deps_of ca build start_table)"
  have "o' \<in> dom (deps_of ca build start_table)" if "?prov o' ty" for ty
    using that by (auto simp: provides_def split: option.splits)
  then have "o' \<in> needed ?prov (deps_of ca build start_table) k \<longleftrightarrow> (\<exists>ty \<in> set ins. ?prov o' ty)"
    unfolding needed_def inputs_of [OF assms] by blast
  also have "\<dots> \<longleftrightarrow> (\<exists>i < length ins. ?prov o' (ins ! i))" by (metis in_set_conv_nth)
  also have "\<dots> \<longleftrightarrow> (\<exists>i < length ins. o' = suppliers k ! i)" using supplied(2) [OF assms] by blast
  also have "\<dots> \<longleftrightarrow> o' \<in> set (suppliers k)" unfolding supplied(1) [OF assms] by (metis in_set_conv_nth)
  finally show "o' \<in> needed ?prov (deps_of ca build start_table) k \<longleftrightarrow> o' \<in> set (suppliers k)" .
qed

lemma suppliers_lower: "(k, out, ins) \<in> set start_table \<Longrightarrow> o' \<in> set (suppliers k) \<Longrightarrow> rank o' < rank k"
  using table_checked(3) by (auto simp: list_all_iff)

lemma start_wired:
  assumes "snd ca = None"
  shows "wired (provides is_interface implements (deps_of ca build start_table)) (deps_of ca build start_table)"
  unfolding wired_def
proof (intro allI impI conjI ballI)
  fix k d args assume d: "deps_of ca build start_table k = Some d"
  then obtain out ins where k: "(k, out, ins) \<in> set start_table" "d = \<lparr>Out = out, In = ins, Call = call_of ca build k\<rparr>"
    using deps_of_Some [OF table_checked(1)] by blast
  then show "snd (Call d args) = None" using assms by (simp add: call_of_def)
  fix ty assume "ty \<in> set (In d)"
  then obtain i where i: "i < length ins" "ty = ins ! i" using k(2) by (auto simp: in_set_conv_nth)
  note only = supplied(2) [OF k(1) i(1), where ca = ca and build = build]
  have "suppliers k ! i \<in> dom (deps_of ca build start_table)"
    using only [of "suppliers k ! i"] by (auto simp: provides_def split: option.splits)
  then show "\<exists>!o'. o' \<in> dom (deps_of ca build start_table) \<and> provides is_interface implements (deps_of ca build start_table) o' ty"
    unfolding i(2) only by auto
qed

lemma start_wf:
  "wf {(o', k). k \<in> dom (deps_of ca build start_table) \<and>
     o' \<in> needed (provides is_interface implements (deps_of ca build start_table)) (deps_of ca build start_table) k}"
proof (rule wf_subset [OF wf_measure [of rank]])
  show "{(o', k). k \<in> dom (deps_of ca build start_table) \<and>
     o' \<in> needed (provides is_interface implements (deps_of ca build start_table)) (deps_of ca build start_table) k} \<subseteq> measure rank"
  proof clarify
    fix o' k d assume "deps_of ca build start_table k = Some d"
    then obtain out ins where k: "(k, out, ins) \<in> set start_table" using deps_of_Some [OF table_checked(1)] by blast
    assume "o' \<in> needed (provides is_interface implements (deps_of ca build start_table)) (deps_of ca build start_table) k"
    then show "(o', k) \<in> measure rank" unfolding needed_of [OF k] using suppliers_lower [OF k] by simp
  qed
qed

text \<open>
  C14. The wiring of the program holds: whatever the orders of the maps, and if the certificates can be made, each of its sixteen
  factories is called once, with the instances of its suppliers, so that all components share one pool, one probe and one history; and
  the order of the start has each of them after its suppliers.
\<close>

theorem program_is_wired:
  assumes "mset outer = mset (map fst start_table)" and "mset initial = mset (map fst start_table)"
    and "\<And>k i. mset (inner k i) = mset (map fst start_table)" and "snd ca = None"
  shows "\<exists>s order. Init 17 show_type is_interface implements outer inner initial (factories_of ca build start_table) = Some (Inr (s, order)) \<and>
    mset order = mset (map fst start_table) \<and> (\<forall>i < length order. set (suppliers (order ! i)) \<subseteq> set (take i order)) \<and>
    mset (map fst (calls s)) = mset (map fst start_table) \<and>
    (\<forall>(k, args) \<in> set (calls s). map Some args = map (inst s) (suppliers k) \<and> inst s k = Some (fst (call_of ca build k args)))"
proof -
  let ?deps = "deps_of ca build start_table" let ?prov = "provides is_interface implements ?deps"
  have dom: "dom ?deps = set (map fst start_table)" using dom_deps_of [OF table_checked(1)] by simp
  have visit: "set xs = dom ?deps \<and> distinct xs" if "mset xs = mset (map fst start_table)" for xs
    using that mset_eq_setD [OF that] mset_eq_imp_distinct_iff [OF that] table_checked(1) dom by simp
  have perm: "mset xs = mset (map fst start_table)" if "set xs = dom ?deps" "distinct xs" for xs
    using that dom table_checked(1) set_eq_iff_mset_eq_distinct by metis
  have it: "iterations ?deps outer inner initial" using visit assms(1-3) by (simp add: iterations_def)
  have c: "collect_dependencies (factories_of ca build start_table) Map.empty = Some (Inr ?deps)"
  proof -
    have "(\<lambda>k. case ?deps k of None \<Rightarrow> None | Some d \<Rightarrow> Some d) = ?deps" by (rule ext) (simp split: option.split)
    then show ?thesis using collect_of [OF table_checked(1), of ca build Map.empty] by simp
  qed
  have "card (dom ?deps) < 17" using distinct_card [OF table_checked(1)] table_checked(4) by (simp only: dom length_map)
  from wiring_ok [OF c it start_wired [OF assms(4)] start_wf this, of show_type] obtain s order where
    init: "Init 17 show_type is_interface implements outer inner initial (factories_of ca build start_table) = Some (Inr (s, order))"
    and o: "set order = dom ?deps" "distinct order" "\<forall>i < length order. needed ?prov ?deps (order ! i) \<subseteq> set (take i order)"
    and calls: "set (map fst (calls s)) = dom ?deps" "distinct (map fst (calls s))"
      "\<forall>(k, args) \<in> set (calls s). inst s k = Some (fst (Call (the (?deps k)) args)) \<and> list_all2 (gives ?prov ?deps s) (In (the (?deps k))) args"
    by (elim exE conjE)
  have row: "\<exists>out ins. (k, out, ins) \<in> set start_table" if "k \<in> dom ?deps" for k using that unfolding dom by (auto, blast)
  have "set (suppliers (order ! i)) \<subseteq> set (take i order)" if "i < length order" for i
  proof -
    have "order ! i \<in> dom ?deps" using that o(1) nth_mem by blast
    then show ?thesis using row needed_of o(3) that by metis
  qed
  moreover have "map Some args = map (inst s) (suppliers k) \<and> inst s k = Some (fst (call_of ca build k args))" if "(k, args) \<in> set (calls s)" for k args
  proof -
    have "k \<in> dom ?deps" using that calls(1) by force
    then obtain out ins where k: "(k, out, ins) \<in> set start_table" using row by blast
    then have d: "?deps k = Some \<lparr>Out = out, In = ins, Call = call_of ca build k\<rparr>" using deps_of_Some [OF table_checked(1)] by blast
    have g: "inst s k = Some (fst (call_of ca build k args))" "list_all2 (gives ?prov ?deps s) ins args"
      using calls(3) that by (auto simp: d)
    have "inst s (suppliers k ! i) = Some (args ! i)" if "i < length ins" for i
      using list_all2_nthD [OF g(2) that] unfolding gives_def supplied(2) [OF k that] by blast
    then have "map Some args = map (inst s) (suppliers k)"
      using list_all2_lengthD [OF g(2)] supplied(1) [OF k] by (intro nth_equalityI) simp_all
    with g(1) show ?thesis by blast
  qed
  ultimately show ?thesis
    using init perm [OF o(1,2)] perm [OF calls(1,2)] by (intro exI [of _ s] exI [of _ order] conjI) blast+
qed

theorem program_is_wired_witness:
  "\<exists>s order. Init 17 (\<lambda>_. []) is_interface implements layers (\<lambda>k i. rev layers) (map fst start_table)
     (factories_of ([''ca''], None) (\<lambda>k args. concat args @ [k]) start_table) = Some (Inr (s, order)) \<and> length order = 16"
proof -
  have m: "mset layers = mset (map fst start_table)" by code_simp
  have r: "mset (rev layers) = mset (map fst start_table)" using m by simp
  from program_is_wired [OF m refl r, of "([''ca''], None)" "\<lambda>_. []" "\<lambda>k args. concat args @ [k]"]
  obtain s order where
    "Init 17 (\<lambda>_. []) is_interface implements layers (\<lambda>k i. rev layers) (map fst start_table)
     (factories_of ([''ca''], None) (\<lambda>k args. concat args @ [k]) start_table) = Some (Inr (s, order))" "mset order = mset (map fst start_table)"
    by auto
  then show ?thesis using mset_eq_length [of order "map fst start_table"] table_checked(4) by auto
qed

end
