(* ===== verification/Ipinfo.thy ===== *)
theory Ipinfo
  imports Config Sources
begin

text \<open>
  The databases of \<open>ipinfo/mmdb.go\<close>: they are opened from files, or downloaded as archives and stored. Files and archives have contents of any
  type; reading a database, the network and the failures of the file system are arguments.
\<close>

section \<open>The surroundings\<close>

datatype mm_error = NoLicence | Failed string

text \<open>
  What opening a file can fail with: an error of the file system, or of the content. An archive is what its iteration gives: an error, or a
  name with what reading it gives.
\<close>

datatype open_error = PathError string | BadContent string

record ('b, 'r) surroundings =
  parse :: "'b \<Rightarrow> string + 'r"
  fetch :: "string \<Rightarrow> string + (string + string \<times> (string + 'b)) list"
  mkdir_error :: "string \<Rightarrow> string option"
  create_error :: "string \<Rightarrow> string option"
  write_error :: "string \<Rightarrow> ('b \<times> string) option"

text \<open>A write that fails leaves what it has written.\<close>

type_synonym 'b disk = "string \<rightharpoonup> 'b"

definition mmdb_Open :: "('b, 'r) surroundings \<Rightarrow> 'b disk \<Rightarrow> string \<Rightarrow> open_error + 'r" where
  "mmdb_Open w fs loc =
     (case fs loc of
        None \<Rightarrow> Inl (PathError (''open '' @ loc))
      | Some b \<Rightarrow> (case parse w b of Inl err \<Rightarrow> Inl (BadContent err) | Inr r \<Rightarrow> Inr r))"

section \<open>Downloads\<close>

definition ends_with :: "string \<Rightarrow> string \<Rightarrow> bool" where
  "ends_with s suffix \<longleftrightarrow> starts_with (rev suffix) (rev s)"

fun find_mmdb :: "(string + string \<times> (string + 'b)) list \<Rightarrow> string + 'b" where
  "find_mmdb [] = Inl ''cannot find .mmdb file in archive''"
| "find_mmdb (Inl err # es) = Inl err"
| "find_mmdb (Inr (name, content) # es) = (if \<not> ends_with name ''.mmdb'' then find_mmdb es else content)"

definition download :: "('b, 'r) surroundings \<Rightarrow> string \<Rightarrow> string \<Rightarrow> string + 'b" where
  "download w edition licence =
     (let url = ''https://download.maxmind.com/app/geoip_download?edition_id='' @ edition @ ''&license_key='' @ licence @ ''&suffix=tar.gz''
      in case fetch w url of Inl err \<Rightarrow> Inl err | Inr entries \<Rightarrow> find_mmdb entries)"

definition mmdb_loc :: "(string \<Rightarrow> string) \<Rightarrow> config \<Rightarrow> string \<Rightarrow> string" where
  "mmdb_loc env c edition =
     StrOr env c (''mmdb_'' @ to_lower (str_split ''-'' edition ! 1)) (''$HOME/.$APP/maxmind/'' @ edition @ ''.mmdb'')"

definition ensureDownloaded :: "('b, 'r) surroundings \<Rightarrow> (string \<Rightarrow> string) \<Rightarrow> config \<Rightarrow> string \<Rightarrow> 'b disk \<Rightarrow> 'b disk \<times> (mm_error + 'r)" where
  "ensureDownloaded w env c edition fs =
     (let loc = mmdb_loc env c edition
      in case mmdb_Open w fs loc of
           Inr reader \<Rightarrow> (fs, Inr reader)
         | Inl (BadContent err) \<Rightarrow> (fs, Inl (Failed err))
         | Inl (PathError err) \<Rightarrow>
             (let license = StrOr env c ''license'' []
              in if license = [] then (fs, Inl NoLicence)
                 else
                   (case download w edition license of
                      Inl err \<Rightarrow> (fs, Inl (Failed (''cannot download '' @ edition @ '': '' @ err)))
                    | Inr raw \<Rightarrow>
                        (case mkdir_error w loc of
                           Some err \<Rightarrow> (fs, Inl (Failed (''cannot mkdir for '' @ edition @ '': '' @ err)))
                         | None \<Rightarrow>
                             (case create_error w loc of
                                Some err \<Rightarrow> (fs, Inl (Failed (''cannot create '' @ edition @ '': '' @ err)))
                              | None \<Rightarrow>
                                  (case write_error w loc of
                                     Some (part, err) \<Rightarrow> (fs(loc \<mapsto> part), Inl (Failed (''cannot write '' @ edition @ '': '' @ err)))
                                   | None \<Rightarrow> (fs(loc \<mapsto> raw), (case parse w raw of Inl err \<Rightarrow> Inl (Failed err) | Inr r \<Rightarrow> Inr r))))))))"

section \<open>The lookup\<close>

record 'r lookup =
  city :: "'r option"
  asn :: "'r option"


text \<open>The error of a configuration ends the program.\<close>

definition Configure :: "('b, 'r) surroundings \<Rightarrow> (string \<Rightarrow> string) \<Rightarrow> config \<Rightarrow> 'b disk \<Rightarrow> 'r lookup \<Rightarrow> 'b disk \<times> 'r lookup \<times> mm_error option" where
  "Configure w env c fs i =
     (case ensureDownloaded w env c ''GeoLite2-City'' fs of
        (fs, Inl NoLicence) \<Rightarrow> (fs, i, None)
      | (fs, Inl err) \<Rightarrow> (fs, i, Some err)
      | (fs, Inr r) \<Rightarrow>
          (let i = i\<lparr>city := Some r\<rparr>
           in case ensureDownloaded w env c ''GeoLite2-ASN'' fs of
                (fs, Inl err) \<Rightarrow> (fs, i, Some err)
              | (fs, Inr r) \<Rightarrow> (fs, i\<lparr>asn := Some r\<rparr>, None)))"



section \<open>What a configured lookup knows\<close>




text \<open>An archive with a database behind another file; a reader is the content.\<close>

definition maxmind :: "(string, string) surroundings" where
  "maxmind =
     \<lparr>parse = Inr, fetch = (\<lambda>url. Inr [Inr (''COPYRIGHT.txt'', Inr []), Inr (''x/db.mmdb'', Inr url)]), mkdir_error = (\<lambda>_. None),
      create_error = (\<lambda>_. None), write_error = (\<lambda>_. None)\<rparr>"


text \<open>With the file of the cities but not the other one, and no licence, the configuration fails.\<close>

lemma city_alone_is_refused:
  assumes "mmdb_Open w fs (mmdb_loc env c ''GeoLite2-City'') = Inr r" and "fs (mmdb_loc env c ''GeoLite2-ASN'') = None" and "StrOr env c ''license'' [] = []"
  shows "snd (snd (Configure w env c fs i)) = Some NoLicence"
  using assms by (simp add: Configure_def ensureDownloaded_def mmdb_Open_def)

text \<open>A write that fails in the middle of a database leaves a file that no later configuration gets past.\<close>

lemma torn_download_is_final:
  assumes "fs (mmdb_loc env c ''GeoLite2-City'') = Some part" and "parse w part = Inl err"
  shows "Configure w env c fs i = (fs, i, Some (Failed err))"
  using assms by (simp add: Configure_def ensureDownloaded_def mmdb_Open_def)

end
