(* ===== verification/Spa.thy ===== *)
theory Spa
  imports Prelude
begin

text \<open>
  The files of the user interface (\<open>app/spa.go\<close>). The embedded file system is a tree; a path is the list of its names, and \<open>.\<close> is the empty list.
\<close>

datatype node = File string | Dir "(string \<times> node) list"

datatype spa_error = NotExist | NotDir

text \<open>The retries at a directory without an index read the same directory again.\<close>

function findWebRoot :: "nat \<Rightarrow> (string \<times> node) list \<Rightarrow> string list \<Rightarrow> spa_error + string list" where
  "findWebRoot nesting files current =
     (if 3 < nesting then Inl NotExist
      else case files of
             [(n, Dir fs)] \<Rightarrow> findWebRoot nesting fs (current @ [n])
           | _ \<Rightarrow> if ''index.html'' \<in> fst ` set files then Inr current else findWebRoot (nesting + 1) files current)"
  by pat_completeness auto
termination
  by (relation "measures [\<lambda>(nesting, files, current). size_list (size_prod (\<lambda>_. 0) size) files, \<lambda>(nesting, files, current). 4 - nesting]") auto

declare findWebRoot.simps [simp del]

fun fs_open :: "(string \<times> node) list \<Rightarrow> string list \<Rightarrow> node option" where
  "fs_open files [] = Some (Dir files)"
| "fs_open files (n # path) =
     (case map_of files n of
        None \<Rightarrow> None
      | Some (File s) \<Rightarrow> if path = [] then Some (File s) else None
      | Some (Dir fs) \<Rightarrow> fs_open fs path)"

datatype opened = Opened node | Dummy string | OpenError spa_error

text \<open>\<open>spaFS.Open\<close>: the routes of the interface are not files, and get its index.\<close>

definition spa_Open :: "(string \<times> node) list \<Rightarrow> string list \<Rightarrow> opened" where
  "spa_Open files name =
     (case findWebRoot 0 files [] of
        Inl NotExist \<Rightarrow> Dummy ''missing UI build''
      | Inl err \<Rightarrow> OpenError err
      | Inr root \<Rightarrow>
          (case fs_open files (root @ name) of
             Some n \<Rightarrow> Opened n
           | None \<Rightarrow> (case fs_open files (root @ [''index.html'']) of None \<Rightarrow> OpenError NotExist | Some n \<Rightarrow> Opened n)))"

section \<open>Every route is answered\<close>

text \<open>A build below directories that have nothing else in them.\<close>

fun nested :: "string list \<Rightarrow> (string \<times> node) list \<Rightarrow> (string \<times> node) list" where
  "nested [] files = files"
| "nested (d # ds) files = [(d, Dir (nested ds files))]"

lemma fs_open_nested: "fs_open (nested ds files) (ds @ path) = fs_open files path"
  by (induction ds) auto

lemma findWebRoot_nested:
  assumes "''index.html'' \<in> fst ` set files" and "\<nexists>n fs. files = [(n, Dir fs)]"
  shows "findWebRoot 0 (nested ds files) current = Inr (current @ ds)"
proof (induction ds arbitrary: current)
  case Nil
  have "(case files of [(n, Dir fs)] \<Rightarrow> findWebRoot 0 fs (current @ [n]) | _ \<Rightarrow> Inr current) = (Inr current :: spa_error + string list)"
    using assms(2) by (auto split: list.split node.split)
  then show ?case using assms by (subst findWebRoot.simps) (auto split: list.split node.split)
next
  case (Cons d ds)
  then show ?case by (subst findWebRoot.simps) simp
qed

text \<open>
  With a build of the interface, however deep it is nested, every path is answered: by the file of the build that it names, and else
  by the index of the build.
\<close>

theorem routes_are_answered:
  assumes "map_of files ''index.html'' = Some (File index)"
  shows "spa_Open (nested ds files) name = Opened (case fs_open files name of Some n \<Rightarrow> n | None \<Rightarrow> File index)"
proof -
  have "''index.html'' \<in> fst ` set files" using map_of_SomeD [OF assms] by force
  moreover have "\<nexists>n fs. files = [(n, Dir fs)]" using assms by (auto split: if_splits)
  ultimately have "findWebRoot 0 (nested ds files) [] = Inr ds" using findWebRoot_nested [of files ds "[]"] by simp
  then show ?thesis by (simp add: spa_Open_def fs_open_nested assms split: option.split)
qed

theorem routes_are_answered_witness:
  "spa_Open (nested [''ui'', ''build''] [(''index.html'', File ''root''), (''a.js'', File ''js'')]) [''proxies'', ''1''] = Opened (File ''root'')"
  using routes_are_answered [of "[(''index.html'', File ''root''), (''a.js'', File ''js'')]" "''root''" "[''ui'', ''build'']" "[''proxies'', ''1'']"]
  by simp

text \<open>Without an index anywhere, all paths get the same text.\<close>

lemma empty_build: "spa_Open [] name = Dummy ''missing UI build''"
proof -
  have "findWebRoot n [] [] = Inl NotExist" if "n \<le> 4" for n
    using that
  proof (induction "4 - n" arbitrary: n)
    case 0
    then show ?case by (subst findWebRoot.simps) simp
  next
    case (Suc k)
    then have "findWebRoot (n + 1) [] [] = Inl NotExist" by (intro Suc.hyps(1)) auto
    then show ?case by (subst findWebRoot.simps) simp
  qed
  from this [of 0] show ?thesis by (simp add: spa_Open_def)
qed

end
