(* ===== verification/Gateway.thy ===== *)
theory Gateway
  imports Serve Pool
begin




section \<open>The contract of the pool\<close>





section \<open>From the client to the pool and back\<close>



end
