(* ===== verification/Spec2Isabelle.thy ===== *)
theory Spec2Isabelle
  imports Pmux Counter CounterCodec Entry Http Shard Config Pool Stats Sources Probe Ast Eval Queries Columns Dashboards Lexer Strconv Parser QueryText Pages RestApi Factories
    History Recording Fabric Refresher Checker Serve Overview Feeds Feeding Registry Scrapers Dialer Wiring Ipinfo Spa Gateway
begin

text \<open>
  A model of \<^emph>\<open>slrp\<close>, a rotating open proxy multiplexer written in Go: it scrapes lists of proxies, verifies them, keeps a pool of
  the working ones, and serves requests through them. This theory imports the whole development; each theory has a shorter text of its own.

  \<^bold>\<open>The program.\<close> A \<^emph>\<open>source\<close> fetches pages and finds proxies on them (\<open>sources/\<close>). The \<^emph>\<open>refresher\<close> runs the sources that are due
  (\<open>refresher/\<close>) and passes what they find to the \<^emph>\<open>probe\<close> (\<open>probe/\<close>), a ledger that ignores what is known already and gives the rest to workers, which
  ask the \<^emph>\<open>checker\<close> (\<open>checker/\<close>) whether a proxy works and hides the caller. Working proxies go to the \<^emph>\<open>pool\<close> (\<open>pool/\<close>): shards of entries, each an actor
  that picks an entry for a request, hands the work to a worker and books the outcome. The proxy server (\<open>serve/\<close>) sends the requests of
  clients, plain or inside tunnels, to the pool; the \<^emph>\<open>history\<close> (\<open>history/\<close>) records every attempt. The \<^emph>\<open>statistics\<close> (\<open>stats/\<close>) count what becomes of the
  proxies of each source. The pages of pool, history and probe are searched with a query language (\<open>ql/\<close>) and served by the REST API. The fabric
  (\<open>app/\<close>) wires all of them from their factories, configures, restores and starts them, and saves them when they change.

  \<^bold>\<open>Conventions.\<close>
  \<^item> A function that may panic returns an option, and \<open>None\<close> is the panic; so is the overflow of a stack (a depth that runs out) and, for
    \<open>partial_function\<close>, a loop that never ends. A Go error is the left side of a sum, or an option of a text.
  \<^item> Records are Go's structs, datatypes its enumerations and messages. An actor (a goroutine that receives from channels) is a function from its
    state and a message to its state and what it sends. The world around an actor, where it matters, is a step relation.
  \<^item> \<open>int\<close> of Go is the type \<open>int\<close>; where a width cuts (counters, addresses, proxies, floats, durations) it is a word or is cut explicitly. Texts are lists of
    bytes, and ASCII where white space or letters matter. Times are nanoseconds since the zero time of Go, with its saturation.
  \<^item> Arguments of the model: random numbers, the orders of iterations over maps and of goroutines, the clock and the zone, the HTTP client, files,
    sorting (any function that sorts, hypothesis \<open>sorts\<close>), and code that is not in the repository (parsers of HTML, JSON, YAML, JavaScript, IPv6, mmdb; TLS;
    WireGuard; reflection). Claims hold for all of them, or under a hypothesis that a witness shows can hold.

  \<^bold>\<open>Foundations.\<close>
  \<^item> \<open>Prelude\<close>: clock arithmetic, Go's division, printing and parsing of decimals, texts (cut, split, trim). \<open>Floats\<close>: \<open>float32\<close> and \<open>float64\<close> as integers times powers
    of two with the rounding of IEEE 754. \<open>Http\<close>: headers, requests and responses. \<open>Strconv\<close>: the literals that queries need.
  \<^item> \<open>Sorter\<close> (\<open>sorter/sorter.go\<close>): the comparators and both chains, with the panics of mismatched types, and a stable sort; the locale \<open>strict_weak\<close> gives what
    sorting by a strict weak order promises, and is interpreted on the orders of shards, pages and the dashboard.
  \<^item> \<open>Config\<close> (\<open>app/config.go\<close>, \<open>app/durations.go\<close>): durations, expansion of the environment, typed lookups, and \<open>getConfig\<close>, in which the environment wins.

  \<^bold>\<open>Pool.\<close>
  \<^item> \<open>Pmux\<close> (\<open>pmux/proxy.go\<close>): a proxy in 64 bits, its text, protocols and bucket; round trips and the rewriting of protocols.
  \<^item> \<open>Counter\<close>, \<open>CounterCodec\<close> (\<open>pool/counter/\<close>): the rolling counter with its 16 and 32 bit cells, a sliding window as long as gaps stay below \<open>2 ^ 15 - 1\<close> intervals,
    and its binary form.
  \<^item> \<open>Entry\<close> (\<open>pool/entry.go\<close>): the life of a proxy: offers, sleep, reanimation, eviction.
  \<^item> \<open>Shard\<close> (\<open>pool/shard.go\<close>): the actor \<open>main\<close> with every handler over a store of entries, and its world of callers and workers as a step relation with
    its invariants: each request is answered once, contents follow the messages.
  \<^item> \<open>Pool\<close> (\<open>pool/pool.go\<close>, \<open>pool/sort_strategy.go\<close>): routing by bucket, serial numbers, \<open>RoundTrip\<close> with what the other goroutines do in between, sessions,
    snapshots, saving and restoring. The locale \<open>shard_contract\<close> is what the pool needs of a shard, interpreted on \<open>Shard\<close>. The loop of \<open>RoundTrip\<close> ends by
    the measure \<open>max 10 shards - attempt\<close>: a shard asks for another attempt only below the tenth.

  \<^bold>\<open>From sources to the pool.\<close>
  \<^item> \<open>Feeds\<close> (\<open>sources/errors.go\<close>, \<open>sources/util.go\<close>, \<open>sources/try.go\<close>): errors with context, the request of a page with its three attempts, addresses in a text, the
    generator that repeats a page, and the merge of generators as an interleaving.
  \<^item> \<open>Scrapers\<close> (the files of single sites in \<open>sources/\<close>): what each site's pages give. \<open>Registry\<close> (their registrations): every source with its number, name,
    frequency and pages; \<open>Sources\<close> (\<open>sources/init.go\<close>): the lookups by number and name.
  \<^item> \<open>Refresher\<close> (\<open>refresher/refresher.go\<close>): the messages, the timer, the check of the sources, the estimates, and the run of a source as the calls it makes.
    \<open>Feeding\<close> composes them: a run schedules with the probe what the pages gave, whatever the interleaving.
  \<^item> \<open>Probe\<close> (\<open>probe/probe.go\<close>, \<open>probe/internal.go\<close>): the ledger, the verification of failures, eviction, saving; its world of workers as a step relation. A settled
    proxy is never probed again. \<open>Stats\<close> (\<open>stats/\<close>): the records of a source, which add up.
  \<^item> \<open>Checker\<close> (\<open>checker/checker.go\<close>): pages, validation, strategies: what is accepted hides the address of this machine.
  \<^item> \<open>Ipinfo\<close> (\<open>ipinfo/mmdb.go\<close>): the databases of locations, opened or downloaded once.
  \<^item> \<open>Dialer\<close> (\<open>dialer/\<close>): ini files, and the tunnel that a file of WireGuard configures.

  \<^bold>\<open>Serving.\<close>
  \<^item> \<open>Serve\<close> (\<open>serve/http_proxy.go\<close>, \<open>serve/mitm_proxy.go\<close>): plain requests and tunnels over any transport. The locale \<open>round_tripper\<close> is what a server relies on;
    \<open>Gateway\<close> interprets it on the pool: what a client can get from the program.
  \<^item> \<open>History\<close>, \<open>Recording\<close> (\<open>history/\<close>): the window of recorded requests and the round tripper that records them with the marks of the pool.
  \<^item> \<open>Overview\<close> (\<open>serve/dashboard.go\<close>): the dashboard of the sources. \<open>Columns\<close>, \<open>Dashboards\<close>, \<open>Pages\<close>: the pages of pool, probe and history (\<open>pool/apientry_dataset.go\<close>,
    \<open>probe/*_dataset.go\<close>, \<open>history/request_dataset.go\<close>) as datasets, from the text of a query to the rows.

  \<^bold>\<open>Queries.\<close>
  \<^item> \<open>Ast\<close>, \<open>Eval\<close> (\<open>ql/ast\<close>, \<open>ql/eval\<close>): the nodes of a filter, its compilation against the fields, evaluation, sorting, facets and the cut. \<open>Queries\<close>: what a query means, and
    that the compiler accepts only what then runs.
  \<^item> \<open>Lexer\<close>, \<open>Parser\<close> (\<open>ql/internal\<close>): the scanner, and the tables and the machine of goyacc with a stack of sixteen slots that grows by copying. \<open>QueryText\<close>: a
    printed filter is read back as long as it takes no more than fifteen slots; beyond, the result is lost (\<open>deep_query_panics\<close>).

  \<^bold>\<open>The frame.\<close>
  \<^item> \<open>Factories\<close> (\<open>app/factories.go\<close>): the order of the start and the construction; \<open>Wiring\<close> (\<open>main.go\<close>): the factories of the program itself. The depth of
    \<open>resolve\<close> is the stack; one more than there are factories is enough when none needs itself in a circle, and no depth is when one does.
  \<^item> \<open>Fabric\<close> (\<open>app/fabric.go\<close>): starting, heartbeats, and saving with crashes at any point. \<open>RestApi\<close> (\<open>app/restapi.go\<close>): routes, answers, errors and panics.
  \<^item> \<open>Spa\<close> (\<open>app/spa.go\<close>): the files of the interface.

  \<^bold>\<open>What the lemmas show.\<close> Invariants over all reachable states (shards, pools, the probe, entries, statistics); that nothing panics under them; the outcome
  of every operation on its branches; round trips (proxies, counters, durations, ini files, base64, queries, addresses on pages, snapshots); refinements (the
  contents of a shard, the window of the history); termination and its bounds (\<open>RoundTrip\<close>, fetching a page, construction, \<open>geonode\<close>); and the composition of
  components: factories and fabric, pool and history, sources and probe, query text and page, server and pool. Several lemmas show where the code does not do what
  it means to, among them \<open>single_entry_never_rests\<close>, \<open>retry_loses_body\<close>, \<open>timeouts_sleep_forever\<close>, \<open>reverify_flips_forever\<close>, \<open>rolling_counter_stale\<close>, \<open>circle_overflows\<close>,
  \<open>second_interruption_loses_state\<close>, \<open>disabled_spins\<close>, \<open>late_finish_forgets_run\<close>, \<open>hanging_up_is_silent\<close>, \<open>socks_listed_as_http\<close>, \<open>city_alone_is_refused\<close> and \<open>key_without_section\<close>.

  \<^bold>\<open>Not modelled.\<close> The transports to a proxy (\<open>pmux.ContextualHttpTransport\<close>), listeners, TLS and the making of certificates (\<open>serve/ca.go\<close>, \<open>serve/https_proxy.go\<close>), which only
  call libraries; the regular expressions, tables and scripts of scraped pages, which libraries read; logging, contexts and the shortening of errors for
  logs (\<open>app/log.go\<close>, \<open>app/context.go\<close>, \<open>app/err.go\<close>); the mock runtime and the debugger check, which are for tests; the updater; the command
  \<open>patterns/rotate.go\<close>, which only calls the proxy and prints; and the generator of datasets (\<open>ql/generator\<close>), a build tool over \<open>go/types\<close> whose output is modelled
  instead (\<open>Columns\<close>).
\<close>

end
